(* ===== verification/Ps_Prelude.thy ===== *)
theory Ps_Prelude
  imports Main "HOL-Library.Word" "HOL-Library.AList" "HOL-Library.Multiset"
begin

text \<open>
  Shared vocabulary of the development: machine types, the error values that stand for a
  failed \<^verbatim>\<open>CHECK\<close> or an undefined memory access, \<^verbatim>\<open>std::unordered_map\<close> as an
  association list with distinct keys, \<^verbatim>\<open>std::lower_bound\<close>, \<^verbatim>\<open>std::to_string\<close>,
  little-endian byte strings, and the generic lemmas the components rest on.
\<close>

section \<open>Machine types and errors\<close>

type_synonym byte = "8 word"
type_synonym u64 = "64 word"
type_synonym i32 = "32 word"

text \<open>
  A failing \<^verbatim>\<open>CHECK\<close> macro logs at level FATAL and aborts the process: the model returns
  \<open>Inl (Check s)\<close> with \<open>s\<close> naming the check.  \<open>OutOfBounds\<close> stands for a read or write
  outside an array (undefined behaviour in C++), \<open>NullPointer\<close> for a dereferenced null
  pointer, \<open>Uninitialised\<close> for the use of a variable that was never assigned, and \<open>NoReturn\<close>
  for a call that does not return.
\<close>

datatype ps_error = Check string | OutOfBounds | NullPointer | Uninitialised | NoReturn

type_synonym 'a res = "ps_error + 'a"

definition rbind :: "'a res \<Rightarrow> ('a \<Rightarrow> 'b res) \<Rightarrow> 'b res" where
  "rbind m f = (case m of Inl e \<Rightarrow> Inl e | Inr x \<Rightarrow> f x)"

definition check :: "bool \<Rightarrow> string \<Rightarrow> 'a res \<Rightarrow> 'a res" where
  "check c s k = (if c then k else Inl (Check s))"

fun rmap :: "('a \<Rightarrow> 'b res) \<Rightarrow> 'a list \<Rightarrow> 'b list res" where
  "rmap f [] = Inr []"
| "rmap f (x # xs) = rbind (f x) (\<lambda>y. rbind (rmap f xs) (\<lambda>ys. Inr (y # ys)))"

fun rfold :: "('a \<Rightarrow> 's \<Rightarrow> 's res) \<Rightarrow> 'a list \<Rightarrow> 's \<Rightarrow> 's res" where
  "rfold f [] s = Inr s"
| "rfold f (x # xs) s = rbind (f x s) (rfold f xs)"

named_theorems ps_simps

lemma rbind_simps [simp, ps_simps]:
  "rbind (Inl e) f = Inl e"
  "rbind (Inr x) f = f x"
  by (simp_all add: rbind_def)

lemma rbind_eq_Inr [simp]: "rbind m f = Inr y \<longleftrightarrow> (\<exists>x. m = Inr x \<and> f x = Inr y)"
  by (cases m) simp_all

lemma check_simps [simp, ps_simps]:
  "check True s k = k"
  "check False s k = Inl (Check s)"
  by (simp_all add: check_def)

lemma check_eq_Inr [simp]: "check c s k = Inr y \<longleftrightarrow> c \<and> k = Inr y"
  by (simp add: check_def)

lemma rmap_Inr: "(\<And>x. x \<in> set xs \<Longrightarrow> f x = Inr (g x)) \<Longrightarrow> rmap f xs = Inr (map g xs)"
  by (induction xs) simp_all

lemma rmap_length: "rmap f xs = Inr ys \<Longrightarrow> length ys = length xs"
  by (induction xs arbitrary: ys) auto

lemma rfold_append: "rfold f (xs @ ys) s = rbind (rfold f xs s) (rfold f ys)"
proof (induction xs arbitrary: s)
  case (Cons x xs)
  then show ?case by (cases "f x s") simp_all
qed simp

lemma rfold_invariant:
  assumes "rfold f xs s = Inr s'" and "P s"
    and "\<And>x s s'. x \<in> set xs \<Longrightarrow> P s \<Longrightarrow> f x s = Inr s' \<Longrightarrow> P s'"
  shows "P s'"
  using assms by (induction xs arbitrary: s) auto

section \<open>Unordered maps\<close>

text \<open>
  \<^verbatim>\<open>std::unordered_map\<close> is an association list without duplicate keys (\<open>um_wf\<close>).
  \<open>um_set\<close> is \<^verbatim>\<open>m[k] = v\<close>, \<open>um_insert\<close> is \<^verbatim>\<open>m.insert({k, v})\<close>, which keeps an
  existing entry, \<open>um_get d\<close> is the value read by \<^verbatim>\<open>m[k]\<close> when a fresh entry starts as
  \<open>d\<close>, \<open>um_erase\<close> is \<^verbatim>\<open>m.erase(k)\<close> and \<open>um_size\<close> is \<^verbatim>\<open>m.size()\<close>.
\<close>

type_synonym ('k, 'v) um = "('k \<times> 'v) list"

abbreviation um_find :: "('k, 'v) um \<Rightarrow> 'k \<Rightarrow> 'v option" where
  "um_find m k \<equiv> map_of m k"

abbreviation um_set :: "'k \<Rightarrow> 'v \<Rightarrow> ('k, 'v) um \<Rightarrow> ('k, 'v) um" where
  "um_set k v m \<equiv> AList.update k v m"

abbreviation um_erase :: "'k \<Rightarrow> ('k, 'v) um \<Rightarrow> ('k, 'v) um" where
  "um_erase k m \<equiv> AList.delete k m"

abbreviation um_size :: "('k, 'v) um \<Rightarrow> nat" where
  "um_size m \<equiv> length m"

abbreviation um_keys :: "('k, 'v) um \<Rightarrow> 'k set" where
  "um_keys m \<equiv> fst ` set m"

abbreviation um_wf :: "('k, 'v) um \<Rightarrow> bool" where
  "um_wf m \<equiv> distinct (map fst m)"

definition um_get :: "'v \<Rightarrow> ('k, 'v) um \<Rightarrow> 'k \<Rightarrow> 'v" where
  "um_get d m k = (case um_find m k of None \<Rightarrow> d | Some v \<Rightarrow> v)"

definition um_insert :: "'k \<Rightarrow> 'v \<Rightarrow> ('k, 'v) um \<Rightarrow> ('k, 'v) um" where
  "um_insert k v m = (case um_find m k of None \<Rightarrow> um_set k v m | Some _ \<Rightarrow> m)"

lemma um_find_set [simp]: "um_find (um_set k v m) k' = (if k' = k then Some v else um_find m k')"
  by (simp add: update_conv')

lemma um_find_erase [simp]:
  "um_find (um_erase k m) k' = (if k' = k then None else um_find m k')"
  by (simp add: delete_conv')

lemma um_find_insert [simp]:
  "um_find (um_insert k v m) k' =
     (if k' = k \<and> um_find m k = None then Some v else um_find m k')"
  by (auto simp: um_insert_def split: option.splits)

lemma um_get_set [simp]: "um_get d (um_set k v m) k' = (if k' = k then v else um_get d m k')"
  by (simp add: um_get_def)

lemma um_wf_set [simp, intro]: "um_wf m \<Longrightarrow> um_wf (um_set k v m)"
  by (rule distinct_update)

lemma um_wf_erase [simp, intro]: "um_wf m \<Longrightarrow> um_wf (um_erase k m)"
  by (rule distinct_delete)

lemma um_wf_insert [simp, intro]: "um_wf m \<Longrightarrow> um_wf (um_insert k v m)"
  by (simp add: um_insert_def split: option.splits)

lemma um_keys_set [simp]: "um_keys (um_set k v m) = insert k (um_keys m)"
  by (simp add: dom_update)

lemma um_keys_erase [simp]: "um_keys (um_erase k m) = um_keys m - {k}"
  by (induction m) auto

lemma um_find_None_iff: "um_find m k = None \<longleftrightarrow> k \<notin> um_keys m"
  by (rule map_of_eq_None_iff)

lemma um_size_set:
  "um_size (um_set k v m) = (if um_find m k = None then Suc (um_size m) else um_size m)"
  by (induction m) auto

lemma um_size_keys: "um_wf m \<Longrightarrow> um_size m = card (um_keys m)"
  using distinct_card [of "map fst m"] by simp

section \<open>Lists\<close>

text \<open>\<open>seg b e xs\<close> is the half-open segment \<open>[b, e)\<close> of \<open>xs\<close>.\<close>

definition seg :: "nat \<Rightarrow> nat \<Rightarrow> 'a list \<Rightarrow> 'a list" where
  "seg b e xs = take (e - b) (drop b xs)"

lemma length_seg [simp]: "length (seg b e xs) = min (e - b) (length xs - b)"
  by (simp add: seg_def min.commute)

lemma seg_append:
  assumes "a \<le> b" and "b \<le> c"
  shows "seg a b xs @ seg b c xs = seg a c xs"
proof -
  have "c - a = (b - a) + (c - b)" using assms by simp
  moreover have "drop (b - a) (drop a xs) = drop b xs" using assms by simp
  ultimately show ?thesis by (simp only: seg_def take_add)
qed

lemma seg_same [simp]: "seg a a xs = []"
  by (simp add: seg_def)

lemma seg_full [simp]: "seg 0 (length xs) xs = xs"
  by (simp add: seg_def)

lemma set_seg: "set (seg a b xs) \<subseteq> set xs"
  by (auto simp: seg_def dest: in_set_takeD in_set_dropD)

lemma nth_seg: "i < b - a \<Longrightarrow> b \<le> length xs \<Longrightarrow> seg a b xs ! i = xs ! (a + i)"
  by (simp add: seg_def)

text \<open>
  \<^verbatim>\<open>std::lower_bound\<close>: the binary search of the standard library.  \<open>lb_loop xs v f n\<close>
  searches the \<open>n\<close> elements starting at index \<open>f\<close>.
\<close>

function lb_loop :: "'a::linorder list \<Rightarrow> 'a \<Rightarrow> nat \<Rightarrow> nat \<Rightarrow> nat" where
  "lb_loop xs v f n =
     (if n = 0 then f
      else let half = n div 2; mid = f + half in
        if xs ! mid < v then lb_loop xs v (Suc mid) (n - half - 1)
        else lb_loop xs v f half)"
  by pat_completeness auto
termination
  by (relation "measure (\<lambda>(xs, v, f, n). n)") auto

declare lb_loop.simps [simp del]

definition lower_bound :: "'a::linorder list \<Rightarrow> 'a \<Rightarrow> nat" where
  "lower_bound xs v = lb_loop xs v 0 (length xs)"

lemma lb_loop_spec:
  assumes "sorted xs" and "f + n \<le> length xs"
    and "\<forall>i<f. xs ! i < v"
    and "\<forall>i. f + n \<le> i \<and> i < length xs \<longrightarrow> v \<le> xs ! i"
  shows "lb_loop xs v f n \<le> f + n \<and> (\<forall>i<lb_loop xs v f n. xs ! i < v)
    \<and> (\<forall>i. lb_loop xs v f n \<le> i \<and> i < length xs \<longrightarrow> v \<le> xs ! i)"
  using assms
proof (induction xs v f n rule: lb_loop.induct)
  case (1 xs v f n)
  define half where "half = n div 2"
  define mid where "mid = f + half"
  show ?case
  proof (cases "n = 0")
    case True
    then show ?thesis using "1.prems" by (simp add: lb_loop.simps [of xs v f 0])
  next
    case False
    then have mid: "mid < length xs" "f \<le> mid" "half < n"
      using "1.prems"(2) by (auto simp: mid_def half_def)
    show ?thesis
    proof (cases "xs ! mid < v")
      case True
      then have eq: "lb_loop xs v f n = lb_loop xs v (Suc mid) (n - half - 1)"
        using False by (simp add: lb_loop.simps [of xs v f n] half_def mid_def Let_def)
      have below: "\<forall>i<Suc mid. xs ! i < v"
        using sorted_nth_mono [OF "1.prems"(1) _ mid(1)] True
        by (auto simp: less_Suc_eq_le intro: le_less_trans)
      have sum: "Suc mid + (n - half - 1) = f + n"
        using mid(3) by (simp add: mid_def)
      show ?thesis
        using "1.IH"(1) [OF False half_def mid_def True "1.prems"(1) _ below] "1.prems" sum
        by (simp add: eq)
    next
      case nless: False
      then have eq: "lb_loop xs v f n = lb_loop xs v f half"
        using False by (simp add: lb_loop.simps [of xs v f n] half_def mid_def Let_def)
      have above: "\<forall>i. f + half \<le> i \<and> i < length xs \<longrightarrow> v \<le> xs ! i"
        using sorted_nth_mono [OF "1.prems"(1), of mid] nless
        by (auto simp: mid_def not_less intro: order_trans)
      show ?thesis
        using "1.IH"(2) [OF False half_def mid_def nless "1.prems"(1) _ "1.prems"(3) above] "1.prems"(2) mid
        by (simp add: eq)
    qed
  qed
qed

lemma lower_bound_eq:
  assumes "sorted xs"
  shows "lower_bound xs v = length (takeWhile (\<lambda>x. x < v) xs)"
proof -
  let ?r = "lower_bound xs v"
  have r: "?r \<le> length xs" "\<forall>i<?r. xs ! i < v" "\<forall>i. ?r \<le> i \<and> i < length xs \<longrightarrow> v \<le> xs ! i"
    using lb_loop_spec [OF assms, of 0 "length xs" v]
    unfolding lower_bound_def by (simp_all add: conj_commute leD)
  have "takeWhile (\<lambda>x. x < v) xs = take ?r xs"
    using r by (intro takeWhile_eq_take_P_nth) (auto simp: not_less)
  then show ?thesis using r(1) by simp
qed

lemma lower_bound_le: "sorted xs \<Longrightarrow> lower_bound xs v \<le> length xs"
  by (simp add: lower_bound_eq length_takeWhile_le)

lemma take_lower_bound: "sorted xs \<Longrightarrow> take (lower_bound xs v) xs = takeWhile (\<lambda>x. x < v) xs"
  by (simp add: lower_bound_eq flip: takeWhile_eq_take)

lemma drop_lower_bound: "sorted xs \<Longrightarrow> drop (lower_bound xs v) xs = dropWhile (\<lambda>x. x < v) xs"
  by (simp add: lower_bound_eq dropWhile_eq_drop)

lemma takeWhile_less_sorted:
  "sorted xs \<Longrightarrow> takeWhile (\<lambda>x. x < v) xs = filter (\<lambda>x. x < (v::'a::linorder)) xs"
proof (induction xs)
  case (Cons x xs)
  then have "\<not> x < v \<Longrightarrow> filter (\<lambda>x. x < v) xs = []"
    by (fastforce simp: filter_empty_conv not_less)
  with Cons show ?case by auto
qed simp

lemma dropWhile_less_sorted:
  "sorted xs \<Longrightarrow> dropWhile (\<lambda>x. x < v) xs = filter (\<lambda>x. \<not> x < (v::'a::linorder)) xs"
proof (induction xs)
  case (Cons x xs)
  then have "\<not> x < v \<Longrightarrow> filter (\<lambda>x. \<not> x < v) xs = xs"
    by (auto intro!: filter_True)
  with Cons show ?case by auto
qed simp

section \<open>Decimal text\<close>

text \<open>\<^verbatim>\<open>std::to_string\<close> on an integer.\<close>

fun digits :: "nat \<Rightarrow> string" where
  "digits n = (if n < 10 then [char_of (48 + n)] else digits (n div 10) @ [char_of (48 + n mod 10)])"

declare digits.simps [simp del]

definition to_string :: "int \<Rightarrow> string" where
  "to_string i = (if i < 0 then CHR ''-'' # digits (nat (- i)) else digits (nat i))"

definition is_digit :: "char \<Rightarrow> bool" where
  "is_digit c \<longleftrightarrow> 48 \<le> (of_char c :: nat) \<and> (of_char c :: nat) \<le> 57"

definition digit_val :: "char \<Rightarrow> nat" where
  "digit_val c = of_char c - 48"

definition read_digits :: "string \<Rightarrow> nat" where
  "read_digits cs = foldl (\<lambda>a c. 10 * a + digit_val c) 0 cs"

lemma is_digit_char_of [simp]: "d < 10 \<Longrightarrow> is_digit (char_of (48 + d :: nat))"
  by (simp add: is_digit_def)

lemma digit_val_char_of [simp]: "d < 10 \<Longrightarrow> digit_val (char_of (48 + d :: nat)) = d"
  by (simp add: digit_val_def)

lemma digits_nonempty: "digits n \<noteq> []"
  by (subst digits.simps) simp

lemma digits_is_digit: "list_all is_digit (digits n)"
proof (induction n rule: digits.induct)
  case (1 n)
  then show ?case by (cases "n < 10") (simp_all add: digits.simps [of n])
qed

lemma read_digits_digits [simp]: "read_digits (digits n) = n"
proof (induction n rule: digits.induct)
  case (1 n)
  then show ?case
    by (cases "n < 10") (simp_all add: digits.simps [of n] read_digits_def)
qed

lemma digits_inject: "digits m = digits n \<longleftrightarrow> m = n"
  by (metis read_digits_digits)

lemma minus_not_digit: "\<not> is_digit (CHR ''-'')"
  by (simp add: is_digit_def)

lemma to_string_inject: "to_string i = to_string j \<longleftrightarrow> i = j"
proof -
  have "hd (digits n) \<noteq> CHR ''-''" for n
    using digits_is_digit [of n] digits_nonempty [of n] minus_not_digit
    by (cases "digits n") auto
  then have "digits n \<noteq> CHR ''-'' # cs" for n cs
    by (metis list.sel(1))
  moreover have "CHR ''-'' # cs \<noteq> digits n" for n cs
    using calculation by metis
  ultimately show ?thesis
    by (auto simp: to_string_def digits_inject)
qed

lemma to_string_no_colon: "CHR '':'' \<notin> set (to_string i)"
proof -
  have "\<not> is_digit (CHR '':'')" by (simp add: is_digit_def)
  then show ?thesis
    using digits_is_digit [of "nat i"] digits_is_digit [of "nat (- i)"]
    by (auto simp: to_string_def list_all_iff)
qed

lemma append_colon_inject:
  assumes "CHR '':'' \<notin> set p" and "CHR '':'' \<notin> set q"
  shows "h @ CHR '':'' # p = h' @ CHR '':'' # q \<longleftrightarrow> h = h' \<and> p = q"
proof
  assume "h @ CHR '':'' # p = h' @ CHR '':'' # q"
  then have "rev p @ CHR '':'' # rev h = rev q @ CHR '':'' # rev h'"
    by (metis append.assoc append_Cons append_Nil rev.simps(2) rev_append)
  moreover have "takeWhile (\<lambda>c. c \<noteq> CHR '':'') (rev p @ CHR '':'' # r) = rev p" for r
    using assms(1) by (subst takeWhile_append2) auto
  moreover have "takeWhile (\<lambda>c. c \<noteq> CHR '':'') (rev q @ CHR '':'' # r) = rev q" for r
    using assms(2) by (subst takeWhile_append2) auto
  ultimately have "rev p = rev q" by metis
  with \<open>rev p @ _ = _\<close> show "h = h' \<and> p = q" by simp
qed simp

section \<open>Little-endian byte strings\<close>

fun bytes_of_nat :: "nat \<Rightarrow> nat \<Rightarrow> byte list" where
  "bytes_of_nat 0 x = []"
| "bytes_of_nat (Suc n) x = word_of_nat (x mod 256) # bytes_of_nat n (x div 256)"

fun nat_of_bytes :: "byte list \<Rightarrow> nat" where
  "nat_of_bytes [] = 0"
| "nat_of_bytes (b # bs) = unat b + 256 * nat_of_bytes bs"

lemma length_bytes_of_nat [simp]: "length (bytes_of_nat n x) = n"
  by (induction n arbitrary: x) simp_all

lemma nat_of_bytes_of_nat: "nat_of_bytes (bytes_of_nat n x) = x mod 256 ^ n"
proof (induction n arbitrary: x)
  case (Suc n)
  have "unat (word_of_nat (x mod 256) :: byte) = x mod 256"
    by (simp add: unat_of_nat)
  then show ?case
    using Suc by (simp add: mod_mult2_eq)
qed simp

end
