(* ===== verification/Ps_SArray.thy ===== *)
theory Ps_SArray
  imports Ps_Prelude
begin

text \<open>
  \<^verbatim>\<open>include/ps/sarray.h\<close> and \<^verbatim>\<open>include/ps/range.h\<close>.  A shared array is a pointer, a size
  and a capacity; copies and segments share the pointed-to memory.  The memory is explicit
  here: a list of blocks, a pointer being a block number and an offset.  Blocks are never
  freed, as a \<^verbatim>\<open>shared_ptr\<close> keeps its block alive as long as an array points to it.
  \<open>sa_list\<close> is the list an array stands for; the lemmas show that each operation computes the
  corresponding list operation and what it does to the other arrays of the same memory.
  The second half has the index ranges of \<^verbatim>\<open>FindRange\<close> and the byte-level conversion between
  arrays of different element types.
\<close>

section \<open>Ranges\<close>

record Range =
  r_begin :: u64
  r_end :: u64

definition Range_size :: "Range \<Rightarrow> u64" where
  "Range_size r = r_end r - r_begin r"

section \<open>Memory\<close>

type_synonym 'v mem = "'v list list"
type_synonym ptr = "(nat \<times> nat) option"

text \<open>\<open>mread h p n\<close> reads \<open>n\<close> elements at \<open>p\<close>, \<open>mwrite h p xs\<close> writes \<open>xs\<close> at \<open>p\<close>.\<close>

definition mread :: "'v mem \<Rightarrow> ptr \<Rightarrow> nat \<Rightarrow> 'v list res" where
  "mread h p n =
     (if n = 0 then Inr []
      else case p of None \<Rightarrow> Inl NullPointer
        | Some (b, i) \<Rightarrow>
            if b < length h \<and> i + n \<le> length (h ! b) then Inr (seg i (i + n) (h ! b))
            else Inl OutOfBounds)"

definition mwrite :: "'v mem \<Rightarrow> ptr \<Rightarrow> 'v list \<Rightarrow> 'v mem res" where
  "mwrite h p xs =
     (if xs = [] then Inr h
      else case p of None \<Rightarrow> Inl NullPointer
        | Some (b, i) \<Rightarrow>
            if b < length h \<and> i + length xs \<le> length (h ! b)
            then Inr (h[b := take i (h ! b) @ xs @ drop (i + length xs) (h ! b)])
            else Inl OutOfBounds)"

definition padd :: "ptr \<Rightarrow> nat \<Rightarrow> ptr" where
  "padd p k = map_option (\<lambda>(b, i). (b, i + k)) p"

section \<open>Shared arrays\<close>

record sarray =
  sa_ptr :: ptr
  sa_size :: nat
  sa_cap :: nat

definition sa_empty :: sarray where
  "sa_empty = \<lparr>sa_ptr = None, sa_size = 0, sa_cap = 0\<rparr>"

definition sa_reset :: "ptr \<Rightarrow> nat \<Rightarrow> sarray" where
  "sa_reset p n = \<lparr>sa_ptr = p, sa_size = n, sa_cap = n\<rparr>"

text \<open>
  \<^verbatim>\<open>resize\<close>: within the capacity only the size changes; otherwise a block of \<open>n + 5\<close>
  elements is allocated (its last five are never addressed) and the old contents copied.
  New entries are then set to \<open>val\<close>.
\<close>

definition sa_resize :: "'v::zero mem \<Rightarrow> sarray \<Rightarrow> nat \<Rightarrow> 'v \<Rightarrow> ('v mem \<times> sarray) res" where
  "sa_resize h a n val =
     rbind
       (if n \<le> sa_cap a then Inr (h, a\<lparr>sa_size := n\<rparr>)
        else rbind (mread h (sa_ptr a) (sa_size a)) (\<lambda>old.
             rbind (mwrite (h @ [replicate (n + 5) 0]) (Some (length h, 0)) old) (\<lambda>h'.
             Inr (h', sa_reset (Some (length h, 0)) n))))
       (\<lambda>(h1, a1).
         if n \<le> sa_size a then Inr (h1, a1)
         else rbind (mwrite h1 (padd (sa_ptr a1) (sa_size a)) (replicate (n - sa_size a) val))
                (\<lambda>h2. Inr (h2, a1)))"

definition sa_reserve :: "'v::zero mem \<Rightarrow> sarray \<Rightarrow> nat \<Rightarrow> ('v mem \<times> sarray) res" where
  "sa_reserve h a n =
     (if n \<le> sa_cap a then Inr (h, a)
      else rbind (sa_resize h a n 0) (\<lambda>(h', a'). Inr (h', a'\<lparr>sa_size := sa_size a\<rparr>)))"

definition sa_clear :: "sarray \<Rightarrow> sarray" where
  "sa_clear a = sa_reset None 0"

definition sa_push_back :: "'v::zero mem \<Rightarrow> sarray \<Rightarrow> 'v \<Rightarrow> ('v mem \<times> sarray) res" where
  "sa_push_back h a v =
     rbind (if sa_size a = sa_cap a then sa_reserve h a (sa_size a * 2 + 5) else Inr (h, a))
       (\<lambda>(h1, a1). rbind (mwrite h1 (padd (sa_ptr a1) (sa_size a1)) [v])
         (\<lambda>h2. Inr (h2, a1\<lparr>sa_size := Suc (sa_size a1)\<rparr>)))"

definition sa_pop_back :: "sarray \<Rightarrow> sarray" where
  "sa_pop_back a = (if sa_size a \<noteq> 0 then a\<lparr>sa_size := sa_size a - 1\<rparr> else a)"

definition sa_append :: "'v::zero mem \<Rightarrow> sarray \<Rightarrow> sarray \<Rightarrow> ('v mem \<times> sarray) res" where
  "sa_append h a arr =
     (if sa_size arr = 0 then Inr (h, a)
      else rbind (sa_resize h a (sa_size a + sa_size arr) 0) (\<lambda>(h1, a1).
           rbind (mread h1 (sa_ptr arr) (sa_size arr)) (\<lambda>xs.
           rbind (mwrite h1 (padd (sa_ptr a1) (sa_size a)) xs) (\<lambda>h2. Inr (h2, a1)))))"

definition sa_segment :: "sarray \<Rightarrow> nat \<Rightarrow> nat \<Rightarrow> sarray res" where
  "sa_segment a b e =
     check (b \<le> e) ''end >= begin'' (check (e \<le> sa_size a) ''end <= size()''
       (Inr \<lparr>sa_ptr = padd (sa_ptr a) b, sa_size = e - b, sa_cap = e - b\<rparr>))"

definition sa_front :: "'v mem \<Rightarrow> sarray \<Rightarrow> 'v res" where
  "sa_front h a = check (sa_size a \<noteq> 0) ''!empty()''
     (rbind (mread h (sa_ptr a) 1) (\<lambda>xs. Inr (hd xs)))"

definition sa_back :: "'v mem \<Rightarrow> sarray \<Rightarrow> 'v res" where
  "sa_back h a = check (sa_size a \<noteq> 0) ''!empty()''
     (rbind (mread h (padd (sa_ptr a) (sa_size a - 1)) 1) (\<lambda>xs. Inr (hd xs)))"

text \<open>\<^verbatim>\<open>operator[]\<close> does not compare the index with the size.\<close>

definition sa_get :: "'v mem \<Rightarrow> sarray \<Rightarrow> nat \<Rightarrow> 'v res" where
  "sa_get h a i = rbind (mread h (padd (sa_ptr a) i) 1) (\<lambda>xs. Inr (hd xs))"

definition sa_set :: "'v mem \<Rightarrow> sarray \<Rightarrow> nat \<Rightarrow> 'v \<Rightarrow> 'v mem res" where
  "sa_set h a i v = mwrite h (padd (sa_ptr a) i) [v]"

text \<open>\<^verbatim>\<open>CopyFrom(const V*, size_t)\<close> with the source elements given as a list.\<close>

definition sa_copy_from :: "'v::zero mem \<Rightarrow> sarray \<Rightarrow> 'v list \<Rightarrow> ('v mem \<times> sarray) res" where
  "sa_copy_from h a xs =
     rbind (sa_resize h a (length xs) 0) (\<lambda>(h1, a1).
     rbind (mwrite h1 (sa_ptr a1) xs) (\<lambda>h2. Inr (h2, a1)))"

definition sa_of_vector :: "'v::zero mem \<Rightarrow> 'v list \<Rightarrow> ('v mem \<times> sarray) res" where
  "sa_of_vector h xs = sa_copy_from h sa_empty xs"

text \<open>\<^verbatim>\<open>SArray(size_t size, V val)\<close>.\<close>

definition sa_new :: "'v::zero mem \<Rightarrow> nat \<Rightarrow> 'v \<Rightarrow> ('v mem \<times> sarray) res" where
  "sa_new h n val = sa_resize h sa_empty n val"

text \<open>\<^verbatim>\<open>CopyFrom(const SArray&)\<close>, where \<open>self\<close> says that the other array is this object; and the copy of a range of
  iterators or an initializer list, which always takes a block of its own.\<close>

definition sa_copy_array :: "bool \<Rightarrow> 'v::zero mem \<Rightarrow> sarray \<Rightarrow> sarray \<Rightarrow> ('v mem \<times> sarray) res" where
  "sa_copy_array self h a other =
     (if self then Inr (h, a)
      else rbind (sa_resize h a (sa_size other) 0) (\<lambda>(h1, a1).
           rbind (mread h1 (sa_ptr other) (sa_size other)) (\<lambda>xs.
           rbind (mwrite h1 (sa_ptr a1) xs) (\<lambda>h2. Inr (h2, a1)))))"

definition sa_copy_iter :: "'v mem \<Rightarrow> 'v list \<Rightarrow> 'v mem \<times> sarray" where
  "sa_copy_iter h xs = (h @ [xs], sa_reset (Some (length h, 0)) (length xs))"

text \<open>The arrays over memory of someone else: a C array and, as block \<open>b\<close>, the elements of a shared vector.\<close>

definition sa_of_array :: "ptr \<Rightarrow> nat \<Rightarrow> sarray" where
  "sa_of_array data n = sa_reset data n"

definition sa_of_shared :: "'v mem \<Rightarrow> nat \<Rightarrow> sarray res" where
  "sa_of_shared h b = (if b < length h then Inr \<lparr>sa_ptr = Some (b, 0), sa_size = length (h ! b), sa_cap = length (h ! b)\<rparr>
     else Inl OutOfBounds)"

text \<open>\<^verbatim>\<open>DebugStr\<close> and \<^verbatim>\<open>operator<<\<close>; \<open>pr\<close> prints an element.\<close>

definition DebugStr :: "('v \<Rightarrow> string) \<Rightarrow> 'v list \<Rightarrow> nat \<Rightarrow> string" where
  "DebugStr pr data m =
     (let n = length data; items = (\<lambda>xs. concat (map (\<lambda>x. pr x @ '' '') xs)) in
      ''['' @ to_string (int n) @ '']: '' @
      (if n < 2 * m then items data else items (take m data) @ ''... '' @ items (drop (n - m) data)))"

definition sa_print :: "('v \<Rightarrow> string) \<Rightarrow> 'v mem \<Rightarrow> sarray \<Rightarrow> string res" where
  "sa_print pr h a = rbind (mread h (sa_ptr a) (sa_size a)) (\<lambda>xs. Inr (DebugStr pr xs 5))"

text \<open>\<^verbatim>\<open>FindRange\<close> on the elements of an array.\<close>

definition FindRange :: "'v::linorder list \<Rightarrow> 'v \<Rightarrow> 'v \<Rightarrow> Range" where
  "FindRange arr lower upper =
     (if upper \<le> lower then \<lparr>r_begin = 0, r_end = 0\<rparr>
      else \<lparr>r_begin = word_of_nat (lower_bound arr lower),
            r_end = word_of_nat (lower_bound arr upper)\<rparr>)"

section \<open>Casts between element types\<close>

text \<open>
  Assigning an \<^verbatim>\<open>SArray<W>\<close> to an \<^verbatim>\<open>SArray<V>\<close> keeps the bytes and changes the element
  type.  A codec gives \<^verbatim>\<open>sizeof(V)\<close> and the object representation of a value.
\<close>

record 'v codec =
  c_size :: nat
  c_enc :: "'v \<Rightarrow> byte list"
  c_dec :: "byte list \<Rightarrow> 'v"

definition key_codec :: "u64 codec" where
  "key_codec = \<lparr>c_size = 8, c_enc = (\<lambda>w. bytes_of_nat 8 (unat w)),
     c_dec = (\<lambda>bs. word_of_nat (nat_of_bytes bs))\<rparr>"

definition int_codec :: "i32 codec" where
  "int_codec = \<lparr>c_size = 4, c_enc = (\<lambda>w. bytes_of_nat 4 (unat w)),
     c_dec = (\<lambda>bs. word_of_nat (nat_of_bytes bs))\<rparr>"

text \<open>\<^verbatim>\<open>SArray<char> bytes(val)\<close>.\<close>

definition sa_to_bytes :: "'v codec \<Rightarrow> 'v list \<Rightarrow> byte list" where
  "sa_to_bytes c xs = concat (map (c_enc c) xs)"

text \<open>\<^verbatim>\<open>SArray<V> = SArray<char>\<close>, with its divisibility check.\<close>

definition sa_of_bytes :: "'v codec \<Rightarrow> byte list \<Rightarrow> 'v list res" where
  "sa_of_bytes c bs =
     (let n = length bs div c_size c in
      check (n * c_size c = length bs) ''cannot be divided''
        (Inr (map (\<lambda>i. c_dec c (seg (i * c_size c) (i * c_size c + c_size c) bs)) [0..<n])))"

section \<open>Arrays as lists\<close>

definition sa_wf :: "'v mem \<Rightarrow> sarray \<Rightarrow> bool" where
  "sa_wf h a \<longleftrightarrow> sa_size a \<le> sa_cap a \<and>
     (case sa_ptr a of None \<Rightarrow> sa_cap a = 0
      | Some (b, i) \<Rightarrow> b < length h \<and> i + sa_cap a \<le> length (h ! b))"

definition sa_list :: "'v mem \<Rightarrow> sarray \<Rightarrow> 'v list" where
  "sa_list h a = (case sa_ptr a of None \<Rightarrow> [] | Some (b, i) \<Rightarrow> seg i (i + sa_size a) (h ! b))"

text \<open>\<open>h'\<close> extends \<open>h\<close>: the blocks of \<open>h\<close> are the first blocks of \<open>h'\<close>, unchanged.\<close>

definition mem_ext :: "'v mem \<Rightarrow> 'v mem \<Rightarrow> bool" where
  "mem_ext h h' \<longleftrightarrow> length h \<le> length h' \<and> take (length h) h' = h"

lemma mem_ext_refl [simp]: "mem_ext h h"
  by (simp add: mem_ext_def)

lemma mem_ext_nth: "mem_ext h h' \<Longrightarrow> b < length h \<Longrightarrow> h' ! b = h ! b"
  by (metis mem_ext_def nth_take)

lemma mem_ext_keeps:
  assumes "mem_ext h h'" and "sa_wf h c"
  shows "sa_wf h' c" and "sa_list h' c = sa_list h c"
proof -
  have "b < length h' \<and> h' ! b = h ! b" if "sa_ptr c = Some (b, i)" for b i
    using assms that by (auto simp: sa_wf_def mem_ext_def intro: mem_ext_nth [OF assms(1)])
  then show "sa_wf h' c" and "sa_list h' c = sa_list h c"
    using assms(2) by (auto simp: sa_wf_def sa_list_def split: option.splits)
qed

lemma sa_list_length: "sa_wf h a \<Longrightarrow> length (sa_list h a) = sa_size a"
  by (auto simp: sa_wf_def sa_list_def split: option.splits)

lemma sa_wf_empty [simp]: "sa_wf h sa_empty" and sa_list_empty [simp]: "sa_list h sa_empty = []"
  by (simp_all add: sa_wf_def sa_empty_def sa_list_def)

section \<open>Every operation computes its list operation\<close>

lemma seg_overwrite:
  assumes "i + k + length xs \<le> length l"
  shows "seg i (i + k + length xs) (take (i + k) l @ xs @ drop (i + k + length xs) l)
    = seg i (i + k) l @ xs"
proof -
  have "drop i (take (i + k) l @ xs @ ys) = seg i (i + k) l @ xs @ ys" for ys
    using assms by (simp add: seg_def drop_take)
  then show ?thesis
    using assms by (simp add: seg_def)
qed

lemma mread_sa: "sa_wf h a \<Longrightarrow> mread h (sa_ptr a) (sa_size a) = Inr (sa_list h a)"
  by (auto simp: mread_def sa_wf_def sa_list_def split: option.splits)

lemma mwrite_tail:
  assumes "sa_wf h a" and "k + length xs \<le> sa_cap a" and "xs \<noteq> []"
  obtains h' where "mwrite h (padd (sa_ptr a) k) xs = Inr h'" and "length h' = length h"
    and "\<And>n. sa_wf h (a\<lparr>sa_size := n\<rparr>) \<longleftrightarrow> sa_wf h' (a\<lparr>sa_size := n\<rparr>)"
    and "sa_list h' (a\<lparr>sa_size := k + length xs\<rparr>) = sa_list h (a\<lparr>sa_size := k\<rparr>) @ xs"
proof -
  obtain b i where p: "sa_ptr a = Some (b, i)" "b < length h" "i + sa_cap a \<le> length (h ! b)"
    using assms by (cases "sa_ptr a") (auto simp: sa_wf_def)
  define h' where
    "h' = h[b := take (i + k) (h ! b) @ xs @ drop (i + k + length xs) (h ! b)]"
  have "mwrite h (padd (sa_ptr a) k) xs = Inr h'"
    using p assms by (simp add: mwrite_def padd_def h'_def)
  moreover have "sa_list h' (a\<lparr>sa_size := k + length xs\<rparr>) = sa_list h (a\<lparr>sa_size := k\<rparr>) @ xs"
    using p assms seg_overwrite [of i k xs "h ! b"]
    by (simp add: sa_list_def h'_def add.assoc)
  moreover have "sa_wf h (a\<lparr>sa_size := n\<rparr>) \<longleftrightarrow> sa_wf h' (a\<lparr>sa_size := n\<rparr>)" for n
    using p assms by (simp add: sa_wf_def h'_def)
  ultimately show ?thesis using that by (simp add: h'_def)
qed

lemma sa_list_shrink: "n \<le> sa_size a \<Longrightarrow> sa_list h (a\<lparr>sa_size := n\<rparr>) = take n (sa_list h a)"
  by (simp add: sa_list_def seg_def min_def split: option.splits)

lemma sa_wf_shrink: "sa_wf h a \<Longrightarrow> n \<le> sa_cap a \<Longrightarrow> sa_wf h (a\<lparr>sa_size := n\<rparr>)"
  by (auto simp: sa_wf_def split: option.splits)

text \<open>A reallocating \<^verbatim>\<open>resize\<close> copies the contents to a fresh block.\<close>

text \<open>A copy of a range reads the range and leaves every other array; a shared vector is read in place.\<close>

lemma sa_copy_iter_ok:
  assumes "sa_copy_iter h xs = (h', a)"
  shows "sa_wf h' a" and "sa_list h' a = xs" and "mem_ext h h'"
  using assms by (auto simp: sa_copy_iter_def sa_reset_def sa_wf_def sa_list_def seg_def mem_ext_def)

lemma sa_of_shared_ok: "b < length h \<Longrightarrow> \<exists>a. sa_of_shared h b = Inr a \<and> sa_wf h a \<and> sa_list h a = h ! b"
  by (simp add: sa_of_shared_def sa_wf_def sa_list_def seg_def)

lemma sa_resize_grow:
  fixes h :: "'v::zero mem"
  assumes "sa_wf h a" and "sa_cap a < n"
  obtains h' a' where "sa_resize h a n v = Inr (h', a')" and "sa_wf h' a'"
    and "sa_size a' = n" and "sa_cap a' = n" and "mem_ext h h'"
    and "sa_list h' a' = sa_list h a @ replicate (n - sa_size a) v"
proof -
  define a' where "a' = sa_reset (Some (length h, 0)) n"
  define blk where "blk = sa_list h a @ replicate (n + 5 - sa_size a) (0::'v)"
  have size: "sa_size a < n" and len: "length (sa_list h a) = sa_size a"
    using assms sa_list_length [OF assms(1)] by (auto simp: sa_wf_def)
  have w: "mwrite (h @ [replicate (n + 5) 0]) (Some (length h, 0)) (sa_list h a) = Inr (h @ [blk])"
    using size len by (auto simp: mwrite_def blk_def)
  have wf0: "sa_wf (h @ [blk]) a'"
    using size len by (simp add: sa_wf_def a'_def sa_reset_def blk_def)
  obtain h' where h': "mwrite (h @ [blk]) (padd (sa_ptr a') (sa_size a))
        (replicate (n - sa_size a) v) = Inr h'"
      "length h' = length (h @ [blk])"
      "\<And>m. sa_wf (h @ [blk]) (a'\<lparr>sa_size := m\<rparr>) \<longleftrightarrow> sa_wf h' (a'\<lparr>sa_size := m\<rparr>)"
      "sa_list h' (a'\<lparr>sa_size := n\<rparr>)
        = sa_list (h @ [blk]) (a'\<lparr>sa_size := sa_size a\<rparr>) @ replicate (n - sa_size a) v"
    using mwrite_tail [OF wf0, of "sa_size a" "replicate (n - sa_size a) v"] size
    by (auto simp: a'_def sa_reset_def)
  have upd: "a'\<lparr>sa_size := n\<rparr> = a'" by (simp add: a'_def sa_reset_def)
  have "sa_list (h @ [blk]) (a'\<lparr>sa_size := sa_size a\<rparr>) = sa_list h a"
    using len by (simp add: sa_list_def a'_def sa_reset_def seg_def blk_def)
  then have "sa_list h' a' = sa_list h a @ replicate (n - sa_size a) v"
    using h'(4) by (simp add: upd)
  moreover have "sa_wf h' a'" using h'(3) [of n] wf0 by (simp add: upd)
  moreover have "mem_ext h h'"
    using h'(1) by (auto simp: mem_ext_def mwrite_def padd_def a'_def sa_reset_def split: if_splits)
  moreover have "sa_resize h a n v = Inr (h', a')"
    using assms size w h'(1)
    by (simp add: sa_resize_def mread_sa a'_def [symmetric] not_le [symmetric])
  moreover have "sa_size a' = n" "sa_cap a' = n" by (simp_all add: a'_def sa_reset_def)
  ultimately show ?thesis using that by blast
qed

text \<open>Within the capacity \<^verbatim>\<open>resize\<close> works in place.\<close>

lemma sa_resize_inplace:
  fixes h :: "'v::zero mem"
  assumes "sa_wf h a" and "n \<le> sa_cap a"
  obtains h' where "sa_resize h a n v = Inr (h', a\<lparr>sa_size := n\<rparr>)" and "sa_wf h' (a\<lparr>sa_size := n\<rparr>)"
    and "sa_list h' (a\<lparr>sa_size := n\<rparr>) = take n (sa_list h a) @ replicate (n - sa_size a) v"
proof (cases "n \<le> sa_size a")
  case True
  then show ?thesis
    using that [of h] assms by (simp add: sa_resize_def sa_wf_shrink sa_list_shrink)
next
  case False
  obtain h' where h': "mwrite h (padd (sa_ptr a) (sa_size a)) (replicate (n - sa_size a) v) = Inr h'"
      "\<And>m. sa_wf h (a\<lparr>sa_size := m\<rparr>) \<longleftrightarrow> sa_wf h' (a\<lparr>sa_size := m\<rparr>)"
      "sa_list h' (a\<lparr>sa_size := n\<rparr>)
        = sa_list h (a\<lparr>sa_size := sa_size a\<rparr>) @ replicate (n - sa_size a) v"
    using mwrite_tail [OF assms(1), of "sa_size a" "replicate (n - sa_size a) v"] assms(2) False
    by auto
  have "sa_wf h' (a\<lparr>sa_size := n\<rparr>)"
    using h'(2) [of n] sa_wf_shrink [OF assms] by simp
  moreover have "take n (sa_list h a) = sa_list h a"
    using False sa_list_length [OF assms(1)] by simp
  ultimately show ?thesis
    using that [of h'] h'(1,3) assms(2) False by (simp add: sa_resize_def)
qed

lemma sa_resize_ok:
  fixes h :: "'v::zero mem"
  assumes "sa_wf h a"
  obtains h' a' where "sa_resize h a n v = Inr (h', a')" and "sa_wf h' a'" and "sa_size a' = n"
    and "n \<le> sa_cap a'"
    and "sa_list h' a' = take n (sa_list h a) @ replicate (n - sa_size a) v"
proof (cases "n \<le> sa_cap a")
  case True
  obtain h' where "sa_resize h a n v = Inr (h', a\<lparr>sa_size := n\<rparr>)" "sa_wf h' (a\<lparr>sa_size := n\<rparr>)"
      "sa_list h' (a\<lparr>sa_size := n\<rparr>) = take n (sa_list h a) @ replicate (n - sa_size a) v"
    by (rule sa_resize_inplace [OF assms True, of v])
  then show ?thesis using that True by simp
next
  case False
  then have "take n (sa_list h a) = sa_list h a"
    using assms sa_list_length [OF assms] by (simp add: sa_wf_def)
  moreover obtain h' a' where "sa_resize h a n v = Inr (h', a')" "sa_wf h' a'"
      "sa_size a' = n" "sa_cap a' = n" "mem_ext h h'"
      "sa_list h' a' = sa_list h a @ replicate (n - sa_size a) v"
    by (rule sa_resize_grow [OF assms, of n v]) (use False in simp_all)
  ultimately show ?thesis using that by simp
qed

lemma sa_reserve_full:
  fixes h :: "'v::zero mem"
  assumes "sa_wf h a" and "sa_cap a < n"
  obtains h' a' where "sa_reserve h a n = Inr (h', a')" and "sa_wf h' a'" and "mem_ext h h'"
    and "sa_cap a' = n" and "sa_size a' = sa_size a" and "sa_list h' a' = sa_list h a"
proof -
  obtain h' a1 where r: "sa_resize h a n 0 = Inr (h', a1)" "sa_wf h' a1" "sa_size a1 = n"
      "sa_cap a1 = n" "mem_ext h h'"
      "sa_list h' a1 = sa_list h a @ replicate (n - sa_size a) 0"
    using sa_resize_grow [OF assms] by blast
  have le: "sa_size a \<le> n" using assms by (simp add: sa_wf_def)
  have "sa_list h' (a1\<lparr>sa_size := sa_size a\<rparr>) = sa_list h a"
    using r le sa_list_length [OF assms(1)] by (simp add: sa_list_shrink)
  moreover have "sa_wf h' (a1\<lparr>sa_size := sa_size a\<rparr>)"
    using r le by (simp add: sa_wf_shrink)
  ultimately show ?thesis
    using that [of h' "a1\<lparr>sa_size := sa_size a\<rparr>"] r assms(2) by (simp add: sa_reserve_def)
qed

lemma sa_push_back_room:
  fixes h :: "'v::zero mem"
  assumes "sa_wf h a" and "sa_size a < sa_cap a"
  obtains h' where "sa_push_back h a v = Inr (h', a\<lparr>sa_size := Suc (sa_size a)\<rparr>)"
    and "sa_wf h' (a\<lparr>sa_size := Suc (sa_size a)\<rparr>)"
    and "sa_list h' (a\<lparr>sa_size := Suc (sa_size a)\<rparr>) = sa_list h a @ [v]"
proof -
  obtain h' where h': "mwrite h (padd (sa_ptr a) (sa_size a)) [v] = Inr h'"
      "\<And>m. sa_wf h (a\<lparr>sa_size := m\<rparr>) \<longleftrightarrow> sa_wf h' (a\<lparr>sa_size := m\<rparr>)"
      "sa_list h' (a\<lparr>sa_size := Suc (sa_size a)\<rparr>) = sa_list h (a\<lparr>sa_size := sa_size a\<rparr>) @ [v]"
    using mwrite_tail [OF assms(1), of "sa_size a" "[v]"] assms(2) by auto
  have "sa_wf h' (a\<lparr>sa_size := Suc (sa_size a)\<rparr>)"
    using h'(2) [of "Suc (sa_size a)"] assms by (simp add: sa_wf_shrink)
  then show ?thesis
    using that [of h'] h'(1,3) assms(2) by (simp add: sa_push_back_def)
qed

lemma sa_push_back_full:
  fixes h :: "'v::zero mem"
  assumes "sa_wf h a" and "sa_size a = sa_cap a"
  obtains h' a' where "sa_push_back h a v = Inr (h', a')" and "sa_wf h' a'" and "mem_ext h h'"
    and "sa_list h' a' = sa_list h a @ [v]"
proof -
  obtain h1 a1 where r: "sa_reserve h a (sa_size a * 2 + 5) = Inr (h1, a1)" "sa_wf h1 a1"
      "mem_ext h h1" "sa_cap a1 = sa_size a * 2 + 5" "sa_size a1 = sa_size a"
      "sa_list h1 a1 = sa_list h a"
    using sa_reserve_full [OF assms(1), of "sa_size a * 2 + 5"] assms(2) by auto
  obtain h2 where p: "sa_push_back h1 a1 v = Inr (h2, a1\<lparr>sa_size := Suc (sa_size a1)\<rparr>)"
      "sa_wf h2 (a1\<lparr>sa_size := Suc (sa_size a1)\<rparr>)"
      "sa_list h2 (a1\<lparr>sa_size := Suc (sa_size a1)\<rparr>) = sa_list h1 a1 @ [v]"
    using sa_push_back_room [OF r(2), of v] r(4,5) by auto
  have same: "sa_push_back h a v = sa_push_back h1 a1 v"
    using r assms(2) by (simp add: sa_push_back_def)
  have "\<exists>i. sa_ptr a1 = Some (length h, i)"
    using r(1) assms
    by (auto simp: sa_reserve_def sa_resize_def sa_reset_def mread_sa split: if_splits)
  then have "mem_ext h h2"
    using p(1) r(3,4,5)
    by (auto simp: sa_push_back_def mwrite_def padd_def mem_ext_def split: if_splits)
  with that [OF same [THEN trans, OF p(1)] p(2)] p(3) r(6) show ?thesis by simp
qed

lemma sa_push_back_ok:
  fixes h :: "'v::zero mem"
  assumes "sa_wf h a"
  shows "\<exists>h' a'. sa_push_back h a v = Inr (h', a') \<and> sa_wf h' a' \<and> sa_list h' a' = sa_list h a @ [v]"
proof (cases "sa_size a = sa_cap a")
  case True
  then show ?thesis by (metis sa_push_back_full [OF assms])
next
  case False
  then have "sa_size a < sa_cap a" using assms by (simp add: sa_wf_def)
  then show ?thesis by (metis sa_push_back_room [OF assms])
qed

lemma sa_pop_back_ok:
  assumes "sa_wf h a"
  shows "sa_wf h (sa_pop_back a)" and "sa_list h (sa_pop_back a) = butlast (sa_list h a)"
proof -
  have "sa_size a - 1 \<le> sa_cap a" using assms by (auto simp: sa_wf_def)
  then show "sa_wf h (sa_pop_back a)"
    using assms by (simp add: sa_pop_back_def sa_wf_shrink)
  show "sa_list h (sa_pop_back a) = butlast (sa_list h a)"
    using sa_list_length [OF assms]
    by (auto simp: sa_pop_back_def sa_list_shrink butlast_conv_take)
qed

lemma sa_segment_ok:
  assumes "sa_wf h a" and "b \<le> e" and "e \<le> sa_size a"
  obtains s where "sa_segment a b e = Inr s" and "sa_wf h s" and "sa_size s = e - b"
    and "sa_cap s = e - b" and "sa_list h s = seg b e (sa_list h a)"
proof -
  define s where "s = \<lparr>sa_ptr = padd (sa_ptr a) b, sa_size = e - b, sa_cap = e - b\<rparr>"
  have "sa_segment a b e = Inr s" using assms by (simp add: sa_segment_def s_def)
  moreover have "sa_wf h s"
    using assms by (auto simp: sa_wf_def s_def padd_def split: option.splits)
  moreover have "sa_list h s = seg b e (sa_list h a)"
    using assms
    by (auto simp: sa_wf_def sa_list_def s_def padd_def seg_def drop_take min_def add.commute
        split: option.splits)
  ultimately show ?thesis using that [of s] by (simp add: s_def)
qed

lemma sa_get_ok: "sa_wf h a \<Longrightarrow> i < sa_size a \<Longrightarrow> sa_get h a i = Inr (sa_list h a ! i)"
  by (auto simp: sa_wf_def sa_get_def mread_def padd_def sa_list_def seg_def hd_drop_conv_nth
      split: option.splits)

lemma padd_0 [simp]: "padd p 0 = p"
  by (cases p) (auto simp: padd_def)

lemma sa_size_pos: "sa_wf h a \<Longrightarrow> sa_list h a \<noteq> [] \<Longrightarrow> 0 < sa_size a"
  using sa_list_length [of h a] by (cases "sa_list h a") auto

lemma sa_front_ok:
  assumes "sa_wf h a" and "sa_list h a \<noteq> []"
  shows "sa_front h a = Inr (hd (sa_list h a))"
  using sa_get_ok [OF assms(1), of 0] sa_size_pos [OF assms] assms(2)
  by (simp add: sa_front_def sa_get_def hd_conv_nth)

lemma sa_back_ok:
  assumes "sa_wf h a" and "sa_list h a \<noteq> []"
  shows "sa_back h a = Inr (last (sa_list h a))"
  using sa_get_ok [OF assms(1), of "sa_size a - 1"] sa_size_pos [OF assms] assms(2)
    sa_list_length [OF assms(1)]
  by (simp add: sa_back_def sa_get_def last_conv_nth)

lemma sa_of_vector_ok:
  fixes h :: "'v::zero mem"
  obtains h' a where "sa_of_vector h xs = Inr (h', a)" and "sa_wf h' a" and "sa_list h' a = xs"
proof -
  obtain h1 a1 where r: "sa_resize h sa_empty (length xs) 0 = Inr (h1, a1)" "sa_wf h1 a1"
      "sa_size a1 = length xs" "length xs \<le> sa_cap a1"
    by (rule sa_resize_ok [OF sa_wf_empty, of h "length xs" 0])
  show ?thesis
  proof (cases "xs = []")
    case True
    have "sa_list h1 a1 = []" using r(3) True sa_list_length [OF r(2)] by simp
    then show ?thesis
      using that [of h1 a1] r True by (simp add: sa_of_vector_def sa_copy_from_def mwrite_def)
  next
    case False
    obtain h2 where h2: "mwrite h1 (sa_ptr a1) xs = Inr h2"
        "\<And>m. sa_wf h1 (a1\<lparr>sa_size := m\<rparr>) \<longleftrightarrow> sa_wf h2 (a1\<lparr>sa_size := m\<rparr>)"
        "sa_list h2 (a1\<lparr>sa_size := length xs\<rparr>) = sa_list h1 (a1\<lparr>sa_size := 0\<rparr>) @ xs"
      using mwrite_tail [OF r(2), of 0 xs] r(4) False by auto
    have "sa_list h1 (a1\<lparr>sa_size := 0\<rparr>) = []"
      by (simp add: sa_list_shrink)
    moreover have "a1\<lparr>sa_size := length xs\<rparr> = a1" using r(3) by simp
    ultimately show ?thesis
      using that [of h2 a1] r(1,2) h2(1) h2(2) [of "length xs"] h2(3)
      by (simp add: sa_of_vector_def sa_copy_from_def)
  qed
qed

text \<open>
  The interface a growing array offers its clients: a push succeeds, keeps the array well
  formed and appends.  A client that pushes a sequence gets that sequence.
\<close>

locale growing =
  fixes push :: "'s \<Rightarrow> 'v \<Rightarrow> 's res"
    and elems :: "'s \<Rightarrow> 'v list"
    and ok :: "'s \<Rightarrow> bool"
  assumes push_ok: "ok s \<Longrightarrow> \<exists>s'. push s v = Inr s' \<and> ok s' \<and> elems s' = elems s @ [v]"
begin

lemma push_all:
  "ok s \<Longrightarrow> \<exists>s'. rfold (\<lambda>v s. push s v) vs s = Inr s' \<and> ok s' \<and> elems s' = elems s @ vs"
proof (induction vs arbitrary: s)
  case (Cons v vs)
  obtain s1 where s1: "push s v = Inr s1" "ok s1" "elems s1 = elems s @ [v]"
    using push_ok [OF Cons.prems] by blast
  with Cons.IH [OF s1(2)] show ?case by auto
qed simp

end

definition sa_push_state :: "'v::zero mem \<times> sarray \<Rightarrow> 'v \<Rightarrow> ('v mem \<times> sarray) res" where
  "sa_push_state s v = sa_push_back (fst s) (snd s) v"

interpretation sa: growing sa_push_state "\<lambda>s. sa_list (fst s) (snd s)" "\<lambda>s. sa_wf (fst s) (snd s)"
  by unfold_locales (use sa_push_back_ok in \<open>fastforce simp: sa_push_state_def\<close>)

section \<open>Casts\<close>

text \<open>
  The law a trivially copyable element type satisfies: its representation has the fixed size
  and reading it back gives the value.
\<close>

definition codec_ok :: "'v codec \<Rightarrow> bool" where
  "codec_ok c \<longleftrightarrow> 0 < c_size c \<and> (\<forall>v. length (c_enc c v) = c_size c \<and> c_dec c (c_enc c v) = v)"

locale trivially_copyable =
  fixes c :: "'v codec"
  assumes copyable: "codec_ok c"
begin

lemma length_sa_to_bytes: "length (sa_to_bytes c xs) = length xs * c_size c"
  using copyable by (induction xs) (simp_all add: sa_to_bytes_def codec_ok_def)

lemma seg_sa_to_bytes:
  assumes "i < length xs"
  shows "seg (i * c_size c) (i * c_size c + c_size c) (sa_to_bytes c xs) = c_enc c (xs ! i)"
proof -
  have len: "length (c_enc c v) = c_size c" for v
    using copyable by (simp add: codec_ok_def)
  have "sa_to_bytes c xs = sa_to_bytes c (take i xs) @ c_enc c (xs ! i) @ sa_to_bytes c (drop (Suc i) xs)"
    using id_take_nth_drop [OF assms] by (metis concat.simps(2) concat_append list.map(2) map_append sa_to_bytes_def)
  moreover have "length (sa_to_bytes c (take i xs)) = i * c_size c"
    using assms by (simp add: length_sa_to_bytes)
  ultimately show ?thesis by (simp add: seg_def len)
qed

lemma sa_of_bytes_to_bytes: "sa_of_bytes c (sa_to_bytes c xs) = Inr xs"
proof -
  have "c_size c \<noteq> 0" and dec: "c_dec c (c_enc c v) = v" for v
    using copyable by (simp_all add: codec_ok_def)
  then have "sa_of_bytes c (sa_to_bytes c xs) = Inr (map (\<lambda>i. c_dec c (c_enc c (xs ! i))) [0..<length xs])"
    by (auto simp: sa_of_bytes_def length_sa_to_bytes seg_sa_to_bytes)
  then show ?thesis by (simp add: dec map_nth)
qed

end

lemma word_of_nat_bytes:
  assumes "256 ^ n = (2::nat) ^ LENGTH('a::len)"
  shows "word_of_nat (nat_of_bytes (bytes_of_nat n (unat w))) = (w :: 'a word)"
  using assms by (simp add: nat_of_bytes_of_nat unsigned_less)

lemma key_codec_ok: "codec_ok key_codec"
  using word_of_nat_bytes [where 'a = 64 and n = 8] by (simp add: codec_ok_def key_codec_def)

lemma int_codec_ok: "codec_ok int_codec"
  using word_of_nat_bytes [where 'a = 32 and n = 4] by (simp add: codec_ok_def int_codec_def)

interpretation keys: trivially_copyable key_codec
  by unfold_locales (rule key_codec_ok)

interpretation ints: trivially_copyable int_codec
  by unfold_locales (rule int_codec_ok)

section \<open>Properties\<close>

text \<open>C15: A zero-copy segment never writes into the array it was cut from when it grows: a
  \<^verbatim>\<open>push_back\<close> on a segment succeeds, yields the segment's elements followed by the new one,
  and leaves every array of the memory, the parent included, with the elements it had.
\<close>

theorem segment_push_back_isolated:
  fixes h :: "'v::zero mem"
  assumes "sa_wf h a" and "sa_segment a b e = Inr s"
  shows "\<exists>h' s'. sa_push_back h s v = Inr (h', s') \<and> sa_wf h' s'
    \<and> sa_list h' s' = seg b e (sa_list h a) @ [v]
    \<and> (\<forall>c. sa_wf h c \<longrightarrow> sa_wf h' c \<and> sa_list h' c = sa_list h c)"
proof -
  have be: "b \<le> e" "e \<le> sa_size a" using assms(2) by (simp_all add: sa_segment_def)
  obtain s0 where s0: "sa_segment a b e = Inr s0" "sa_wf h s0" "sa_size s0 = e - b"
      "sa_cap s0 = e - b" "sa_list h s0 = seg b e (sa_list h a)"
    by (rule sa_segment_ok [OF assms(1) be])
  then have s: "sa_wf h s" "sa_size s = sa_cap s" "sa_list h s = seg b e (sa_list h a)"
    using assms(2) by simp_all
  obtain h' s' where "sa_push_back h s v = Inr (h', s')" "sa_wf h' s'" "mem_ext h h'"
      "sa_list h' s' = sa_list h s @ [v]"
    by (rule sa_push_back_full [OF s(1,2)])
  with s(3) mem_ext_keeps show ?thesis by metis
qed

theorem segment_push_back_isolated_witness:
  "\<exists>h' s'. sa_push_back [[1, 2, 3::int]] \<lparr>sa_ptr = Some (0, 0), sa_size = 2, sa_cap = 2\<rparr> 9 = Inr (h', s')
    \<and> sa_list h' s' = [1, 2, 9]
    \<and> sa_list h' \<lparr>sa_ptr = Some (0, 0), sa_size = 3, sa_cap = 3\<rparr> = [1, 2, 3]"
proof -
  let ?a = "\<lparr>sa_ptr = Some (0, 0), sa_size = 3, sa_cap = 3\<rparr>"
  have "sa_wf [[1, 2, 3::int]] ?a" by (simp add: sa_wf_def)
  moreover have "sa_segment ?a 0 2 = Inr \<lparr>sa_ptr = Some (0, 0), sa_size = 2, sa_cap = 2\<rparr>"
    by (simp add: sa_segment_def padd_def)
  ultimately show ?thesis
    using segment_push_back_isolated [of "[[1, 2, 3::int]]" ?a 0 2 _ 9]
    by (fastforce simp: sa_list_def seg_def)
qed

text \<open>C22: Building an array by repeated \<^verbatim>\<open>push_back\<close> from the empty one always succeeds and
  gives exactly the pushed elements in order, through all reallocations.
\<close>

theorem push_back_builds_list:
  "\<exists>h' a'. rfold (\<lambda>v s. sa_push_state s v) vs (h, sa_empty) = Inr (h', a')
     \<and> sa_wf h' a' \<and> sa_list h' a' = vs"
  using sa.push_all [of "(h, sa_empty)" vs] by auto

lemma FindRange_spec:
  assumes "sorted arr" and "length arr < 2 ^ 64"
  shows "seg (unat (r_begin (FindRange arr lower upper))) (unat (r_end (FindRange arr lower upper))) arr
      = filter (\<lambda>x. lower \<le> x \<and> x < upper) arr
    \<and> unat (Range_size (FindRange arr lower upper)) = length (filter (\<lambda>x. lower \<le> x \<and> x < upper) arr)"
proof (cases "upper \<le> lower")
  case True
  then have "filter (\<lambda>x. lower \<le> x \<and> x < upper) arr = []"
    by (auto simp: filter_empty_conv)
  with True show ?thesis by (simp add: FindRange_def Range_size_def)
next
  case False
  let ?lb = "lower_bound arr lower" and ?ub = "lower_bound arr upper"
  let ?up = "filter (\<lambda>x. x < upper) arr"
  have bounds: "?lb \<le> length arr" "?ub \<le> length arr"
    using lower_bound_le [OF assms(1)] by auto
  have small: "unat (word_of_nat ?lb :: u64) = ?lb" "unat (word_of_nat ?ub :: u64) = ?ub"
    using bounds assms(2) by (simp_all add: unat_of_nat)
  have pre: "takeWhile (\<lambda>x. x < lower) ?up = filter (\<lambda>x. x < lower) arr"
    using False assms(1) by (subst takeWhile_less_sorted) (auto intro: sorted_wrt_filter filter_cong)
  have take_ub: "take ?ub arr = ?up"
    using assms(1) by (simp only: take_lower_bound takeWhile_less_sorted)
  have lb: "?lb = length (takeWhile (\<lambda>x. x < lower) ?up)"
    using assms(1) pre by (simp only: lower_bound_eq takeWhile_less_sorted)
  have "seg ?lb ?ub arr = drop ?lb (take ?ub arr)"
    by (simp add: seg_def drop_take)
  also have "\<dots> = drop (length (takeWhile (\<lambda>x. x < lower) ?up)) ?up"
    by (simp only: take_ub flip: lb)
  also have "\<dots> = filter (\<lambda>x. \<not> x < lower) ?up"
    using assms(1) by (simp add: dropWhile_eq_drop [symmetric] dropWhile_less_sorted sorted_wrt_filter)
  also have "\<dots> = filter (\<lambda>x. lower \<le> x \<and> x < upper) arr"
    by (simp add: not_less conj_commute)
  finally have eq: "seg ?lb ?ub arr = filter (\<lambda>x. lower \<le> x \<and> x < upper) arr" .
  have "?lb \<le> length (take ?ub arr)"
    by (simp only: take_ub lb length_takeWhile_le)
  then have "?lb \<le> ?ub" by simp
  then have "unat (word_of_nat ?ub - word_of_nat ?lb :: u64) = ?ub - ?lb"
    using small by (simp add: unat_sub word_le_nat_alt)
  moreover have "length (filter (\<lambda>x. lower \<le> x \<and> x < upper) arr) = ?ub - ?lb"
    using eq bounds by (metis length_seg min_absorb1 diff_le_mono)
  ultimately show ?thesis
    using False small eq by (simp add: FindRange_def Range_size_def)
qed

text \<open>C18: \<^verbatim>\<open>FindRange\<close> on a sorted array returns the index range that holds exactly the entries
  \<open>x\<close> with \<open>lower \<le> x < upper\<close>, and the size of the range is their number.
\<close>

theorem FindRange_correct:
  assumes "sorted arr" and "length arr < 2 ^ 64"
  shows "seg (unat (r_begin (FindRange arr lower upper))) (unat (r_end (FindRange arr lower upper))) arr
      = filter (\<lambda>x. lower \<le> x \<and> x < upper) arr
    \<and> unat (Range_size (FindRange arr lower upper)) = length (filter (\<lambda>x. lower \<le> x \<and> x < upper) arr)"
  by (rule FindRange_spec[OF assms])

theorem FindRange_correct_witness:
  "seg (unat (r_begin (FindRange [1, 3, 5, 7, 9::int] 2 7))) (unat (r_end (FindRange [1, 3, 5, 7, 9::int] 2 7)))
     [1, 3, 5, 7, 9::int] = [3, 5]"
  using FindRange_correct [of "[1, 3, 5, 7, 9::int]" 2 7] by simp

end
