(* ===== verification/Ps_Message.thy ===== *)
theory Ps_Message
  imports Ps_SArray
begin

text \<open>
  \<^verbatim>\<open>include/ps/internal/message.h\<close> and \<^verbatim>\<open>include/ps/base.h\<close>: nodes, control commands,
  message headers and messages, with their debug strings and \<^verbatim>\<open>AddData\<close>.  Integers of type
  \<^verbatim>\<open>int\<close> are HOL integers; \<open>kEmpty\<close> is the largest \<^verbatim>\<open>int\<close>.  Members that the C++
  constructors leave uninitialised (\<^verbatim>\<open>Meta::more\<close>, \<^verbatim>\<open>Control::barrier_group\<close>,
  \<^verbatim>\<open>Control::msg_sig\<close>) start as 0 here; the code assigns them before it reads them on the paths
  modelled.
\<close>

section \<open>Constants\<close>

definition kEmpty :: int where
  "kEmpty = 2147483647"

definition kMaxKey :: u64 where
  "kMaxKey = - 1"

definition kScheduler :: int where
  "kScheduler = 1"

definition kServerGroup :: int where
  "kServerGroup = 2"

definition kWorkerGroup :: int where
  "kWorkerGroup = 4"

section \<open>Data types\<close>

datatype DataType = CHAR_t | INT8 | INT16 | INT32 | INT64 | UINT8 | UINT16 | UINT32 | UINT64
  | FLOAT | DOUBLE | OTHER

fun DataTypeName :: "DataType \<Rightarrow> string" where
  "DataTypeName CHAR_t = ''CHAR''"
| "DataTypeName INT8 = ''INT8''"
| "DataTypeName INT16 = ''INT16''"
| "DataTypeName INT32 = ''INT32''"
| "DataTypeName INT64 = ''INT64''"
| "DataTypeName UINT8 = ''UINT8''"
| "DataTypeName UINT16 = ''UINT16''"
| "DataTypeName UINT32 = ''UINT32''"
| "DataTypeName UINT64 = ''UINT64''"
| "DataTypeName FLOAT = ''FLOAT''"
| "DataTypeName DOUBLE = ''DOUBLE''"
| "DataTypeName OTHER = ''OTHER''"

text \<open>The C++ element types \<^verbatim>\<open>GetDataType\<close> distinguishes; any other type is \<open>T_other\<close>.\<close>

datatype ctype = T_int8 | T_int16 | T_int32 | T_int64 | T_uint8 | T_uint16 | T_uint32 | T_uint64
  | T_float | T_double | T_other

definition GetDataType :: "ctype \<Rightarrow> DataType" where
  "GetDataType t =
     (if t = T_int8 then INT8 else if t = T_int16 then INT16 else if t = T_int32 then INT32
      else if t = T_int64 then INT64 else if t = T_uint8 then UINT8 else if t = T_uint16 then UINT16
      else if t = T_uint32 then UINT32 else if t = T_uint64 then UINT64 else if t = T_float then FLOAT
      else if t = T_double then DOUBLE else OTHER)"

section \<open>Nodes\<close>

datatype Role = SERVER | WORKER | SCHEDULER

record Node =
  n_role :: Role
  n_id :: int
  n_customer_id :: int
  n_hostname :: string
  n_port :: int
  n_is_recovery :: bool

definition bool_string :: "bool \<Rightarrow> string" where
  "bool_string b = (if b then ''1'' else ''0'')"

definition Node_DebugString :: "Node \<Rightarrow> string" where
  "Node_DebugString n =
     ''role='' @ (case n_role n of SERVER \<Rightarrow> ''server'' | WORKER \<Rightarrow> ''worker'' | SCHEDULER \<Rightarrow> ''scheduler'')
     @ (if n_id n \<noteq> kEmpty then '', id='' @ to_string (n_id n) else '''')
     @ '', ip='' @ n_hostname n @ '', port='' @ to_string (n_port n)
     @ '', is_recovery='' @ bool_string (n_is_recovery n)"

definition Node_ShortDebugString :: "Node \<Rightarrow> string" where
  "Node_ShortDebugString n =
     (case n_role n of SERVER \<Rightarrow> ''S'' | WORKER \<Rightarrow> ''W'' | SCHEDULER \<Rightarrow> ''H'')
     @ (if n_id n \<noteq> kEmpty then ''['' @ to_string (n_id n) @ '']'' else '''')"

section \<open>Control information\<close>

datatype Command = EMPTY | TERMINATE | ADD_NODE | BARRIER | ACK | HEARTBEAT | CONNECT

fun Command_code :: "Command \<Rightarrow> nat" where
  "Command_code EMPTY = 0"
| "Command_code TERMINATE = 1"
| "Command_code ADD_NODE = 2"
| "Command_code BARRIER = 3"
| "Command_code ACK = 4"
| "Command_code HEARTBEAT = 5"
| "Command_code CONNECT = 6"

record Control =
  ctl_cmd :: Command
  ctl_node :: "Node list"
  ctl_barrier_group :: int
  ctl_msg_sig :: u64

definition Control_init :: Control where
  "Control_init = \<lparr>ctl_cmd = EMPTY, ctl_node = [], ctl_barrier_group = 0, ctl_msg_sig = 0\<rparr>"

definition Control_empty :: "Control \<Rightarrow> bool" where
  "Control_empty c \<longleftrightarrow> ctl_cmd c = EMPTY"

text \<open>The command names of \<^verbatim>\<open>Control::DebugString\<close>; the lookup \<^verbatim>\<open>cmds[cmd]\<close> is unchecked.\<close>

definition cmd_names :: "string list" where
  "cmd_names = [''EMPTY'', ''TERMINATE'', ''ADD_NODE'', ''BARRIER'', ''ACK'', ''HEARTBEAT'']"

definition Control_DebugString :: "Control \<Rightarrow> string res" where
  "Control_DebugString c =
     (if Control_empty c then Inr ''''
      else if Command_code (ctl_cmd c) < length cmd_names
      then Inr (''cmd='' @ cmd_names ! Command_code (ctl_cmd c)
        @ (if ctl_node c \<noteq> [] then '', node={'' @ concat (map (\<lambda>n. '' '' @ Node_DebugString n) (ctl_node c)) @ '' }''
           else '''')
        @ (if ctl_cmd c = BARRIER then '', barrier_group='' @ to_string (ctl_barrier_group c) else '''')
        @ (if ctl_cmd c = ACK then '', msg_sig='' @ to_string (uint (ctl_msg_sig c)) else ''''))
      else Inl OutOfBounds)"

section \<open>Message headers\<close>

record Meta =
  m_head :: int
  m_app_id :: int
  m_customer_id :: int
  m_timestamp :: int
  m_sender :: int
  m_recver :: int
  m_more :: int
  m_request :: bool
  m_push :: bool
  m_pull :: bool
  m_simple_app :: bool
  m_body :: string
  m_data_type :: "DataType list"
  m_control :: Control
  m_data_size :: int
  m_priority :: int

definition Meta_init :: Meta where
  "Meta_init = \<lparr>m_head = kEmpty, m_app_id = kEmpty, m_customer_id = kEmpty, m_timestamp = kEmpty,
     m_sender = kEmpty, m_recver = kEmpty, m_more = 0, m_request = False, m_push = False,
     m_pull = False, m_simple_app = False, m_body = '''', m_data_type = [],
     m_control = Control_init, m_data_size = 0, m_priority = 0\<rparr>"

definition Meta_DebugString :: "Meta \<Rightarrow> string res" where
  "Meta_DebugString m =
     rbind (if Control_empty (m_control m)
            then Inr ('', app_id='' @ to_string (m_app_id m) @ '', customer_id='' @ to_string (m_customer_id m)
              @ '', simple_app='' @ bool_string (m_simple_app m) @ '', push='' @ bool_string (m_push m))
            else rbind (Control_DebugString (m_control m)) (\<lambda>s. Inr ('', control={ '' @ s @ '' }'')))
       (\<lambda>mid. Inr (
          (if m_sender m = kEmpty then ''?'' else to_string (m_sender m))
          @ '' => '' @ to_string (m_recver m)
          @ ''. Meta: request='' @ bool_string (m_request m)
          @ (if m_timestamp m \<noteq> kEmpty then '', timestamp='' @ to_string (m_timestamp m) else '''')
          @ mid
          @ (if m_head m \<noteq> kEmpty then '', head='' @ to_string (m_head m) else '''')
          @ (if m_body m \<noteq> [] then '', body='' @ m_body m else '''')
          @ (if m_data_type m \<noteq> []
             then '', data_type={'' @ concat (map (\<lambda>d. '' '' @ DataTypeName d) (m_data_type m)) @ '' }''
             else '''')))"

section \<open>Messages\<close>

record Message =
  msg_meta :: Meta
  msg_data :: "byte list list"

definition Message_init :: Message where
  "Message_init = \<lparr>msg_meta = Meta_init, msg_data = []\<rparr>"

text \<open>\<^verbatim>\<open>AddData<V>\<close>: \<open>t\<close> is the element type \<^verbatim>\<open>V\<close> and \<open>c\<close> its object representation.\<close>

definition AddData :: "ctype \<Rightarrow> 'v codec \<Rightarrow> 'v list \<Rightarrow> Message \<Rightarrow> Message res" where
  "AddData t c val msg =
     check (length (msg_data msg) = length (m_data_type (msg_meta msg))) ''data.size() == meta.data_type.size()''
       (let bytes = sa_to_bytes c val in
        Inr (msg\<lparr>msg_meta := (msg_meta msg)\<lparr>m_data_type := m_data_type (msg_meta msg) @ [GetDataType t],
                   m_data_size := m_data_size (msg_meta msg) + int (length bytes)\<rparr>,
                 msg_data := msg_data msg @ [bytes]\<rparr>))"

definition Message_DebugString :: "Message \<Rightarrow> string res" where
  "Message_DebugString msg =
     rbind (Meta_DebugString (msg_meta msg)) (\<lambda>s. Inr (s
       @ (if msg_data msg \<noteq> []
          then '' Body:'' @ concat (map (\<lambda>d. '' data_size='' @ to_string (int (length d))) (msg_data msg))
          else '''')))"

text \<open>The header invariant \<^verbatim>\<open>AddData\<close> checks and keeps: one data type per data part.\<close>

definition Message_wf :: "Message \<Rightarrow> bool" where
  "Message_wf msg \<longleftrightarrow> length (msg_data msg) = length (m_data_type (msg_meta msg))
     \<and> m_data_size (msg_meta msg) = int (sum_list (map length (msg_data msg)))"

lemma Message_wf_init [simp]: "Message_wf Message_init"
  by (simp add: Message_wf_def Message_init_def Meta_init_def)

lemma AddData_ok:
  assumes "Message_wf msg"
  obtains msg' where "AddData t c val msg = Inr msg'" and "Message_wf msg'"
    and "msg_data msg' = msg_data msg @ [sa_to_bytes c val]"
  using assms by (auto simp: AddData_def Message_wf_def Let_def)

text \<open>The data parts are what \<^verbatim>\<open>AddData\<close> changes beside the bookkeeping of the header.\<close>

lemma AddData_meta:
  assumes "AddData t c val msg = Inr msg'"
  shows "msg_meta msg' = (msg_meta msg)
    \<lparr>m_data_type := m_data_type (msg_meta msg'), m_data_size := m_data_size (msg_meta msg')\<rparr>"
  using assms by (auto simp: AddData_def Let_def)

section \<open>Properties\<close>

text \<open>C32: \<^verbatim>\<open>Message::DebugString\<close> is defined exactly for the messages whose command is not
  \<^verbatim>\<open>CONNECT\<close>: the table of command names has six entries and \<^verbatim>\<open>CONNECT\<close> is command number
  six, so printing a \<^verbatim>\<open>CONNECT\<close> message reads past the end of the table.
\<close>

theorem DebugString_defined_iff:
  "(\<exists>s. Message_DebugString msg = Inr s) \<longleftrightarrow> ctl_cmd (m_control (msg_meta msg)) \<noteq> CONNECT"
proof -
  have "(\<exists>s. Control_DebugString c = Inr s) \<longleftrightarrow> ctl_cmd c \<noteq> CONNECT" for c
    by (cases "ctl_cmd c") (simp_all add: Control_DebugString_def Control_empty_def cmd_names_def)
  then show ?thesis
    by (auto simp: Message_DebugString_def Meta_DebugString_def Control_empty_def)
qed

end
