(* ===== verification/Ps_Env.thy ===== *)
theory Ps_Env
  imports Ps_Prelude
begin

text \<open>
  The settings a node starts from: \<^verbatim>\<open>Environment\<close> of \<^verbatim>\<open>include/ps/internal/env.h\<close> and the two
  \<^verbatim>\<open>GetEnv\<close> of \<^verbatim>\<open>include/ps/internal/utils.h\<close>.  The process environment, read with
  \<^verbatim>\<open>getenv\<close>, is the argument \<open>sys\<close>.  \<open>atoi\<close> is the C library's: white space, an optional sign,
  digits, and anything after them ignored.
\<close>

record Environment =
  env_kvs :: "(string, string) um"

definition Environment_Init :: "(string, string) um \<Rightarrow> Environment \<Rightarrow> Environment" where
  "Environment_Init envs e = e\<lparr>env_kvs := envs\<rparr>"

definition env_find :: "(string \<Rightarrow> string option) \<Rightarrow> Environment \<Rightarrow> string \<Rightarrow> string option" where
  "env_find sys e k = (case um_find (env_kvs e) k of None \<Rightarrow> sys k | Some v \<Rightarrow> Some v)"

definition is_space :: "char \<Rightarrow> bool" where
  "is_space c \<longleftrightarrow> (of_char c :: nat) = 32 \<or> (9 \<le> (of_char c :: nat) \<and> (of_char c :: nat) \<le> 13)"

definition atoi :: "string \<Rightarrow> int" where
  "atoi s = (case dropWhile is_space s of
       [] \<Rightarrow> 0
     | c # cs \<Rightarrow>
         if c = CHR ''-'' then - int (read_digits (takeWhile is_digit cs))
         else if c = CHR ''+'' then int (read_digits (takeWhile is_digit cs))
         else int (read_digits (takeWhile is_digit (c # cs))))"

definition GetEnv :: "(string \<Rightarrow> string option) \<Rightarrow> Environment \<Rightarrow> string \<Rightarrow> string \<Rightarrow> string" where
  "GetEnv sys e key default_val = (case env_find sys e key of None \<Rightarrow> default_val | Some v \<Rightarrow> v)"

definition GetEnv_int :: "(string \<Rightarrow> string option) \<Rightarrow> Environment \<Rightarrow> string \<Rightarrow> int \<Rightarrow> int" where
  "GetEnv_int sys e key default_val = (case env_find sys e key of None \<Rightarrow> default_val | Some v \<Rightarrow> atoi v)"

lemma digit_not_space: "is_digit c \<Longrightarrow> \<not> is_space c"
  by (auto simp: is_digit_def is_space_def)

lemma plus_not_digit: "\<not> is_digit (CHR ''+'')"
  by (simp add: is_digit_def)

lemma takeWhile_digits [simp]: "takeWhile is_digit (digits n) = digits n"
  using digits_is_digit[of n] by (simp add: list_all_iff)

lemma dropWhile_digits [simp]: "dropWhile is_space (digits n) = digits n"
  using digits_is_digit[of n] digits_nonempty[of n]
  by (cases "digits n") (auto simp: digit_not_space)

lemma atoi_digits: "atoi (digits n) = int n"
proof (cases "digits n")
  case (Cons c cs)
  then have "is_digit c" using digits_is_digit[of n] by simp
  then have "c \<noteq> CHR ''-''" "c \<noteq> CHR ''+''" using minus_not_digit plus_not_digit by auto
  then show ?thesis using Cons takeWhile_digits[of n] dropWhile_digits[of n] read_digits_digits[of n]
    by (simp add: atoi_def del: takeWhile_digits dropWhile_digits read_digits_digits)
qed (simp add: digits_nonempty)

lemma atoi_to_string: "atoi (to_string i) = i"
proof (cases "i < 0")
  case True
  have "\<not> is_space (CHR ''-'')" by (simp add: is_space_def)
  then show ?thesis using True by (simp add: to_string_def atoi_def)
qed (simp add: to_string_def atoi_digits)

end
