(* ===== verification/Ps_Postoffice.thy ===== *)
theory Ps_Postoffice
  imports Ps_SArray Ps_Message Ps_Env
begin

text \<open>
  The per-node directory of \<^verbatim>\<open>src/postoffice.cc\<close> and \<^verbatim>\<open>include/ps/internal/postoffice.h\<close>: the
  table from node groups to node ids, the registry of customers, the key ranges of the servers,
  the barrier flags and the heartbeat times.  A customer is a pointer, the type variable \<open>'c\<close>.
  What the office reads of its van (its role, its readiness, its next timestamp) and of the clock
  is an argument.  \<^verbatim>\<open>Barrier\<close> blocks, so it is the request it sends (\<open>Barrier\<close>) and the
  condition it waits for (\<open>Barrier_wait\<close>).
\<close>

section \<open>State\<close>

record 'c Postoffice =
  po_customers :: "(int, (int, 'c) um) um"
  po_node_ids :: "(int, int list) um"
  po_server_key_ranges :: "Range list"
  po_is_worker :: bool
  po_is_server :: bool
  po_is_scheduler :: bool
  po_num_servers :: int
  po_num_workers :: int
  po_barrier_done :: "(int, (int, bool) um) um"
  po_verbose :: int
  po_van_type :: string
  po_init_stage :: int
  po_heartbeats :: "(int, int) um"
  po_exit_callback :: bool
  po_start_time :: int

definition Postoffice_init :: "'c Postoffice" where
  "Postoffice_init = \<lparr>po_customers = [], po_node_ids = [], po_server_key_ranges = [],
     po_is_worker = False, po_is_server = False, po_is_scheduler = False,
     po_num_servers = 0, po_num_workers = 0, po_barrier_done = [], po_verbose = 0, po_van_type = '''',
     po_init_stage = 0, po_heartbeats = [], po_exit_callback = False, po_start_time = 0\<rparr>"

section \<open>Node ids\<close>

definition WorkerRankToID :: "int \<Rightarrow> int" where
  "WorkerRankToID rank = rank * 2 + 9"

definition ServerRankToID :: "int \<Rightarrow> int" where
  "ServerRankToID rank = rank * 2 + 8"

text \<open>C++ division truncates towards zero.\<close>

definition IDtoRank :: "int \<Rightarrow> int" where
  "IDtoRank nid = max (if nid < 8 then - ((8 - nid) div 2) else (nid - 8) div 2) 0"

definition my_rank :: "Node \<Rightarrow> int" where
  "my_rank my_node = IDtoRank (n_id my_node)"

definition GetNodeIDs :: "'c Postoffice \<Rightarrow> int \<Rightarrow> int list res" where
  "GetNodeIDs po node_id = (case um_find (po_node_ids po) node_id of
      None \<Rightarrow> Inl (Check ''node doesn't exist'')
    | Some ids \<Rightarrow> Inr ids)"

section \<open>Start and Finalize\<close>

definition Van_Create :: "string \<Rightarrow> string res" where
  "Van_Create ty =
     (if ty = ''zmq'' then Inr ty
      else if ty = ''p3'' then Inr ty
      else if ty = ''quic'' then Inr ty
      else Inl (Check ''Unsupported van type''))"

definition InitEnvironment ::
  "(string \<Rightarrow> string option) \<Rightarrow> Environment \<Rightarrow> 'c Postoffice \<Rightarrow> 'c Postoffice res" where
  "InitEnvironment sys env po =
     rbind (Van_Create (GetEnv sys env ''DMLC_PS_VAN_TYPE'' ''quic'')) (\<lambda>van.
     case env_find sys env ''DMLC_NUM_WORKER'' of None \<Rightarrow> Inl (Check ''DMLC_NUM_WORKER not null'') | Some nw \<Rightarrow>
     case env_find sys env ''DMLC_NUM_SERVER'' of None \<Rightarrow> Inl (Check ''DMLC_NUM_SERVER not null'') | Some ns \<Rightarrow>
     case env_find sys env ''DMLC_ROLE'' of None \<Rightarrow> Inl (Check ''DMLC_ROLE not null'') | Some role \<Rightarrow>
     Inr (po\<lparr>po_van_type := van, po_num_workers := atoi nw, po_num_servers := atoi ns,
             po_is_worker := (role = ''worker''), po_is_server := (role = ''server''),
             po_is_scheduler := (role = ''scheduler''),
             po_verbose := GetEnv_int sys env ''PS_VERBOSE'' 0\<rparr>))"

definition push_id :: "int \<Rightarrow> int \<Rightarrow> (int, int list) um \<Rightarrow> (int, int list) um" where
  "push_id nid g m = um_set g (um_get [] m g @ [nid]) m"

definition worker_groups :: "int \<Rightarrow> int list" where
  "worker_groups nid = [nid, kWorkerGroup, kWorkerGroup + kServerGroup, kWorkerGroup + kScheduler,
     kWorkerGroup + kServerGroup + kScheduler]"

definition server_groups :: "int \<Rightarrow> int list" where
  "server_groups nid = [nid, kServerGroup, kWorkerGroup + kServerGroup, kServerGroup + kScheduler,
     kWorkerGroup + kServerGroup + kScheduler]"

definition scheduler_groups :: "int list" where
  "scheduler_groups = [kScheduler, kScheduler + kServerGroup + kWorkerGroup,
     kScheduler + kWorkerGroup, kScheduler + kServerGroup]"

definition Start_node_ids :: "'c Postoffice \<Rightarrow> 'c Postoffice" where
  "Start_node_ids po =
     (let m1 = fold (\<lambda>i. let nid = WorkerRankToID i in fold (push_id nid) (worker_groups nid))
                 [0..po_num_workers po - 1] (po_node_ids po);
          m2 = fold (\<lambda>i. let nid = ServerRankToID i in fold (push_id nid) (server_groups nid))
                 [0..po_num_servers po - 1] m1;
          m3 = fold (push_id kScheduler) scheduler_groups m2
      in po\<lparr>po_node_ids := m3\<rparr>)"

text \<open>The part of \<^verbatim>\<open>Start\<close> before \<^verbatim>\<open>van_->Start\<close>, and the part between it and the barrier.\<close>

definition Start_init ::
  "(string \<Rightarrow> string option) \<Rightarrow> Environment \<Rightarrow> 'c Postoffice \<Rightarrow> 'c Postoffice res" where
  "Start_init sys env po =
     (if po_init_stage po = 0
      then rbind (InitEnvironment sys env po) (\<lambda>po'.
             Inr ((Start_node_ids po')\<lparr>po_init_stage := po_init_stage po' + 1\<rparr>))
      else Inr po)"

definition Start_finish :: "int \<Rightarrow> 'c Postoffice \<Rightarrow> 'c Postoffice" where
  "Start_finish now po =
     (if po_init_stage po = 1 then po\<lparr>po_start_time := now, po_init_stage := po_init_stage po + 1\<rparr> else po)"

text \<open>What \<^verbatim>\<open>Finalize\<close> does after its barrier; the result says whether the exit callback ran.\<close>

definition Finalize_rest :: "int \<Rightarrow> 'c Postoffice \<Rightarrow> 'c Postoffice \<times> bool" where
  "Finalize_rest customer_id po =
     (if customer_id = 0
      then (po\<lparr>po_num_workers := 0, po_num_servers := 0, po_init_stage := 0, po_customers := [],
               po_node_ids := [], po_barrier_done := [], po_server_key_ranges := [],
               po_heartbeats := []\<rparr>, po_exit_callback po)
      else (po, False))"

definition RegisterExitCallback :: "'c Postoffice \<Rightarrow> 'c Postoffice" where
  "RegisterExitCallback po = po\<lparr>po_exit_callback := True\<rparr>"

section \<open>Customers\<close>

definition AddCustomer :: "int \<Rightarrow> int \<Rightarrow> 'c \<Rightarrow> 'c Postoffice \<Rightarrow> 'c Postoffice res" where
  "AddCustomer app_id customer_id c po =
     (let cs = um_get [] (po_customers po) app_id in
      check (um_find cs customer_id = None) ''customer_id already exists''
        (Inr (po\<lparr>po_customers := um_set app_id (um_insert customer_id c cs) (po_customers po),
                 po_barrier_done := um_set app_id
                   (um_insert customer_id False (um_get [] (po_barrier_done po) app_id))
                   (po_barrier_done po)\<rparr>)))"

definition RemoveCustomer :: "int \<Rightarrow> int \<Rightarrow> 'c Postoffice \<Rightarrow> 'c Postoffice" where
  "RemoveCustomer app_id customer_id po =
     (let cs = um_erase customer_id (um_get [] (po_customers po) app_id) in
      po\<lparr>po_customers := (if cs = [] then um_erase app_id (po_customers po)
                           else um_set app_id cs (po_customers po))\<rparr>)"

text \<open>
  \<^verbatim>\<open>GetCustomer\<close> takes the lock once per poll; \<open>polls\<close> are the registries it sees, at most
  \<^verbatim>\<open>timeout * 1000 + 1\<close> of them.
\<close>

fun GetCustomer_loop :: "int \<Rightarrow> int \<Rightarrow> (int, (int, 'c) um) um list \<Rightarrow> 'c option" where
  "GetCustomer_loop app_id customer_id [] = None"
| "GetCustomer_loop app_id customer_id (cs # polls) = (case um_find cs app_id of
      Some in_app \<Rightarrow> um_find in_app customer_id
    | None \<Rightarrow> GetCustomer_loop app_id customer_id polls)"

definition GetCustomer :: "int \<Rightarrow> int \<Rightarrow> int \<Rightarrow> (nat \<Rightarrow> 'c Postoffice) \<Rightarrow> 'c option" where
  "GetCustomer app_id customer_id timeout po =
     GetCustomer_loop app_id customer_id
       (map (\<lambda>i. po_customers (po i)) [0..<nat (timeout * 1000 + 1)])"

section \<open>Barriers\<close>

text \<open>The bit tests \<^verbatim>\<open>node_group & kWorkerGroup\<close> and \<^verbatim>\<open>node_group & kServerGroup\<close>.\<close>

definition in_worker_group :: "int \<Rightarrow> bool" where
  "in_worker_group g \<longleftrightarrow> and g kWorkerGroup \<noteq> 0"

definition in_server_group :: "int \<Rightarrow> bool" where
  "in_server_group g \<longleftrightarrow> and g kServerGroup \<noteq> 0"

definition Barrier_request :: "int \<Rightarrow> int \<Rightarrow> int \<Rightarrow> Message" where
  "Barrier_request customer_id node_group ts =
     Message_init\<lparr>msg_meta := Meta_init\<lparr>m_recver := kScheduler, m_request := True,
       m_control := Control_init\<lparr>ctl_cmd := BARRIER, ctl_barrier_group := node_group\<rparr>,
       m_app_id := 0, m_customer_id := customer_id, m_timestamp := ts\<rparr>\<rparr>"

text \<open>
  The result is \<open>None\<close> when \<^verbatim>\<open>Barrier\<close> returns at once, and otherwise the office it waits in
  with the request it sent, which the scheduler does not send.
\<close>

definition Barrier ::
  "Role \<Rightarrow> int \<Rightarrow> int \<Rightarrow> int \<Rightarrow> 'c Postoffice \<Rightarrow> ('c Postoffice \<times> Message option) option res" where
  "Barrier role ts customer_id node_group po =
     rbind (GetNodeIDs po node_group) (\<lambda>ids.
       if ids = [] then Inr None
       else
         check (role = WORKER \<longrightarrow> in_worker_group node_group) ''node_group & kWorkerGroup''
        (check (role = SERVER \<longrightarrow> in_server_group node_group) ''node_group & kServerGroup''
          (let po' = po\<lparr>po_barrier_done :=
                 um_set 0 (um_set customer_id False (um_get [] (po_barrier_done po) 0)) (po_barrier_done po)\<rparr>;
               req = Barrier_request customer_id node_group ts
           in Inr (Some (po', if role = SERVER \<or> role = WORKER then Some req else None)))))"

definition Barrier_wait :: "int \<Rightarrow> 'c Postoffice \<Rightarrow> bool" where
  "Barrier_wait customer_id po = um_get False (um_get [] (po_barrier_done po) 0) customer_id"

text \<open>The loop \<^verbatim>\<open>for customer_id in 0..size-1: barrier_done_[app_id][customer_id] = true\<close>.\<close>

definition release_all :: "(int, bool) um \<Rightarrow> (int, bool) um" where
  "release_all m = fold (\<lambda>i. um_set (int i) True) [0..<um_size m] m"

definition ManageForScheduler :: "int \<Rightarrow> 'c Postoffice \<Rightarrow> 'c Postoffice" where
  "ManageForScheduler app_id po =
     po\<lparr>po_barrier_done := um_set app_id (release_all (um_get [] (po_barrier_done po) app_id))
          (po_barrier_done po)\<rparr>"

definition Manage :: "Message \<Rightarrow> 'c Postoffice \<Rightarrow> 'c Postoffice res" where
  "Manage recv po =
     (let meta = msg_meta recv; ctrl = m_control meta in
      check (\<not> Control_empty ctrl) ''!recv.meta.control.empty()''
        (Inr (if ctl_cmd ctrl = BARRIER \<and> \<not> m_request meta
              then po\<lparr>po_barrier_done := um_set (m_app_id meta)
                        (release_all (um_get [] (po_barrier_done po) (m_app_id meta))) (po_barrier_done po)\<rparr>
              else po)))"

section \<open>Server key ranges\<close>

definition GetServerKeyRanges :: "'c Postoffice \<Rightarrow> 'c Postoffice \<times> Range list" where
  "GetServerKeyRanges po =
     (let rs = (if po_server_key_ranges po = []
                then map (\<lambda>i. \<lparr>r_begin = kMaxKey div of_int (po_num_servers po) * of_int i,
                               r_end = kMaxKey div of_int (po_num_servers po) * of_int (i + 1)\<rparr>)
                       [0..po_num_servers po - 1]
                else po_server_key_ranges po)
      in (po\<lparr>po_server_key_ranges := rs\<rparr>, rs))"

section \<open>Heartbeats\<close>

definition UpdateHeartbeat :: "int \<Rightarrow> int \<Rightarrow> 'c Postoffice \<Rightarrow> 'c Postoffice" where
  "UpdateHeartbeat node_id t po = po\<lparr>po_heartbeats := um_set node_id t (po_heartbeats po)\<rparr>"

definition GetDeadNodes :: "bool \<Rightarrow> int \<Rightarrow> int \<Rightarrow> 'c Postoffice \<Rightarrow> int list res" where
  "GetDeadNodes ready now t po =
     (if \<not> ready \<or> t = 0 then Inr []
      else rbind (GetNodeIDs po (if po_is_scheduler po then kWorkerGroup + kServerGroup else kScheduler))
        (\<lambda>nodes. Inr (filter (\<lambda>r.
            (case um_find (po_heartbeats po) r of None \<Rightarrow> True | Some h \<Rightarrow> h + t < now)
            \<and> po_start_time po + t < now) nodes)))"

section \<open>The node table\<close>

text \<open>
  What a group stands for: a number below 8 is a set of roles, one bit per role, and a greater
  number is one node.
\<close>

definition worker_ids :: "int \<Rightarrow> int list" where
  "worker_ids w = map WorkerRankToID [0..w - 1]"

definition server_ids :: "int \<Rightarrow> int list" where
  "server_ids s = map ServerRankToID [0..s - 1]"

definition group_members :: "int \<Rightarrow> int \<Rightarrow> int \<Rightarrow> int list" where
  "group_members w s g =
     (if g < 8
      then if 0 < g
           then (if bit g 2 then worker_ids w else []) @ (if bit g 1 then server_ids s else [])
                @ (if bit g 0 then [kScheduler] else [])
           else []
      else if g \<in> set (worker_ids w) \<or> g \<in> set (server_ids s) then [g] else [])"

lemmas group_consts = kWorkerGroup_def kServerGroup_def kScheduler_def

definition node_pushes :: "int \<Rightarrow> int \<Rightarrow> (int \<times> int) list" where
  "node_pushes w s =
     concat (map (\<lambda>nid. map (Pair nid) (worker_groups nid)) (worker_ids w))
     @ concat (map (\<lambda>nid. map (Pair nid) (server_groups nid)) (server_ids s))
     @ map (Pair kScheduler) scheduler_groups"

lemma fold_concat_map: "fold f (concat (map g xs)) s = fold (\<lambda>x. fold f (g x)) xs s"
  by (induction xs arbitrary: s) simp_all

lemma Start_node_ids_pushes:
  "po_node_ids (Start_node_ids po) =
     fold (\<lambda>(nid, g). push_id nid g) (node_pushes (po_num_workers po) (po_num_servers po)) (po_node_ids po)"
  by (simp add: Start_node_ids_def node_pushes_def fold_concat_map fold_map worker_ids_def server_ids_def
      comp_def Let_def)

lemma um_get_pushes:
  "um_get [] (fold (\<lambda>(nid, g). push_id nid g) ps m) g = um_get [] m g @ map fst (filter (\<lambda>p. snd p = g) ps)"
  by (induction ps arbitrary: m) (auto simp: push_id_def)

lemma um_find_pushes:
  "um_find (fold (\<lambda>(nid, g). push_id nid g) ps m) g = None \<longleftrightarrow> um_find m g = None \<and> g \<notin> snd ` set ps"
proof (induction ps arbitrary: m)
  case (Cons p ps)
  show ?case unfolding fold_Cons comp_apply Cons
    by (cases p) (simp add: push_id_def)
qed simp

lemma filter_eq_distinct: "distinct xs \<Longrightarrow> filter (\<lambda>x. x = a) xs = (if a \<in> set xs then [a] else [])"
  by (induction xs) (auto simp: filter_empty_conv)

lemma distinct_ids: "distinct (worker_ids w)" "distinct (server_ids s)"
  by (auto simp: worker_ids_def server_ids_def distinct_map inj_on_def WorkerRankToID_def ServerRankToID_def)

lemma ids_ge: "nid \<in> set (worker_ids w) \<Longrightarrow> 8 < nid" "nid \<in> set (server_ids s) \<Longrightarrow> 8 \<le> nid"
  by (auto simp: worker_ids_def server_ids_def WorkerRankToID_def ServerRankToID_def)

lemma ids_parity: "nid \<in> set (worker_ids w) \<Longrightarrow> odd nid" "nid \<in> set (server_ids s) \<Longrightarrow> even nid"
  by (auto simp: worker_ids_def server_ids_def WorkerRankToID_def ServerRankToID_def)

lemma ids_disjoint: "nid \<in> set (worker_ids w) \<Longrightarrow> nid \<notin> set (server_ids s)"
  using ids_parity by blast

lemma members_of_pushes:
  fixes ids gs :: "int list"
  assumes "\<And>nid. nid \<in> set ids \<Longrightarrow> 8 \<le> nid" and "distinct ids" and "distinct gs \<and> (\<forall>x \<in> set gs. x < 8)"
  shows "map fst (filter (\<lambda>p. snd p = g) (concat (map (\<lambda>nid. map (Pair nid) (nid # gs)) ids)))
    = (if g < 8 then if g \<in> set gs then ids else [] else if g \<in> set ids then [g] else [])"
proof -
  have one: "map fst (filter (\<lambda>p. snd p = g) (map (Pair nid) (nid # gs)))
    = (if g < 8 then if g \<in> set gs then [nid] else [] else if nid = g then [nid] else [])"
    if "8 \<le> nid" for nid
  proof -
    have "filter (\<lambda>x. x = g) (nid # gs) = (if g \<in> set (nid # gs) then [g] else [])"
      using assms(3) that by (intro filter_eq_distinct) auto
    then show ?thesis using assms(3) that by (auto simp: filter_map comp_def split: if_splits)
  qed
  have "map fst (filter (\<lambda>p. snd p = g) (concat (map (\<lambda>nid. map (Pair nid) (nid # gs)) ids)))
    = concat (map (\<lambda>nid. map fst (filter (\<lambda>p. snd p = g) (map (Pair nid) (nid # gs)))) ids)"
    by (simp add: filter_concat map_concat comp_def)
  also have "\<dots> = concat (map (\<lambda>nid. if g < 8 then if g \<in> set gs then [nid] else []
      else if nid = g then [nid] else []) ids)"
    using one assms(1) by (intro arg_cong[of _ _ concat] map_cong) auto
  also have "\<dots> = (if g < 8 then if g \<in> set gs then ids else [] else filter (\<lambda>x. x = g) ids)"
    by (induction ids) auto
  finally show ?thesis using filter_eq_distinct[OF assms(2), of g] by simp
qed

lemma members_of_node_pushes:
  "map fst (filter (\<lambda>p. snd p = g) (node_pushes w s)) = group_members w s g"
proof -
  have small: "g = 1 \<or> g = 2 \<or> g = 3 \<or> g = 4 \<or> g = 5 \<or> g = 6 \<or> g = 7" if "0 < g" "g < 8"
    using that by presburger
  have W: "map fst (filter (\<lambda>p. snd p = g) (concat (map (\<lambda>nid. map (Pair nid) (worker_groups nid)) (worker_ids w))))
    = (if g < 8 then if g \<in> {4, 6, 5, 7} then worker_ids w else [] else if g \<in> set (worker_ids w) then [g] else [])"
    using members_of_pushes[of "worker_ids w" "[4, 6, 5, 7]" g, OF less_imp_le[OF ids_ge(1)] distinct_ids(1)]
    by (simp add: worker_groups_def group_consts)
  have S: "map fst (filter (\<lambda>p. snd p = g) (concat (map (\<lambda>nid. map (Pair nid) (server_groups nid)) (server_ids s))))
    = (if g < 8 then if g \<in> {2, 6, 3, 7} then server_ids s else [] else if g \<in> set (server_ids s) then [g] else [])"
    using members_of_pushes[of "server_ids s" "[2, 6, 3, 7]" g, OF ids_ge(2) distinct_ids(2)]
    by (simp add: server_groups_def group_consts)
  have H: "map fst (filter (\<lambda>p. snd p = g) (map (Pair kScheduler) scheduler_groups))
    = (if g \<in> {1, 7, 5, 3} then [1] else [])"
    by (simp add: scheduler_groups_def group_consts)
  have "group_members w s g =
    (if g < 8 then if g \<in> {4, 6, 5, 7} then worker_ids w else [] else if g \<in> set (worker_ids w) then [g] else [])
    @ (if g < 8 then if g \<in> {2, 6, 3, 7} then server_ids s else [] else if g \<in> set (server_ids s) then [g] else [])
    @ (if g \<in> {1, 7, 5, 3} then [1] else [])"
  proof (cases "0 < g \<and> g < 8")
    case True
    then have "g = 1 \<or> g = 2 \<or> g = 3 \<or> g = 4 \<or> g = 5 \<or> g = 6 \<or> g = 7" using small by blast
    then show ?thesis by (elim disjE) (simp_all add: group_members_def kScheduler_def)
  next
    case False
    then show ?thesis using ids_disjoint[of g w s] by (simp add: group_members_def)
  qed
  then show ?thesis by (simp only: node_pushes_def filter_append map_append W S H)
qed

lemma GetNodeIDs_Start:
  assumes "po_node_ids po = []"
  shows "GetNodeIDs (Start_node_ids po) g =
    (let ids = group_members (po_num_workers po) (po_num_servers po) g in
     if ids = [] then Inl (Check ''node doesn't exist'') else Inr ids)"
proof -
  let ?m = "po_node_ids (Start_node_ids po)"
  let ?ids = "group_members (po_num_workers po) (po_num_servers po) g"
  have get: "um_get [] ?m g = ?ids"
    by (simp add: Start_node_ids_pushes um_get_pushes assms members_of_node_pushes) (simp add: um_get_def)
  have "um_find ?m g = None \<longleftrightarrow> g \<notin> snd ` set (node_pushes (po_num_workers po) (po_num_servers po))"
    by (simp add: Start_node_ids_pushes um_find_pushes assms)
  also have "\<dots> \<longleftrightarrow> ?ids = []"
    by (auto simp: members_of_node_pushes[symmetric] filter_empty_conv)
  finally show ?thesis using get by (auto simp: GetNodeIDs_def um_get_def split: option.splits)
qed

section \<open>Key ranges\<close>

text \<open>
  \<open>ranges_ok\<close> is what a client of the ranges relies on: there is one, none is inverted, and each
  starts where the one before it ends.
\<close>

definition ranges_ok :: "Range list \<Rightarrow> bool" where
  "ranges_ok rs \<longleftrightarrow> rs \<noteq> [] \<and> list_all (\<lambda>r. r_begin r \<le> r_end r) rs
     \<and> list_all (\<lambda>i. r_end (rs ! i) = r_begin (rs ! Suc i)) [0..<length rs - 1]"

definition key_ranges :: "int \<Rightarrow> Range list" where
  "key_ranges n = map (\<lambda>i. \<lparr>r_begin = kMaxKey div of_int n * of_int i,
     r_end = kMaxKey div of_int n * of_int (i + 1)\<rparr>) [0..n - 1]"

definition key_quota :: "int \<Rightarrow> nat" where
  "key_quota n = (2 ^ 64 - 1) div nat n"

lemma unat_of_int_small: "0 \<le> n \<Longrightarrow> n < 2 ^ 64 \<Longrightarrow> unat (of_int n :: u64) = nat n"
  by (simp add: unat_eq_nat_uint uint_word_of_int_eq take_bit_int_eq_self)

lemma range_bound_unat:
  assumes n: "0 < n" "n < 2 ^ 31" and i: "0 \<le> i" "i \<le> n"
  shows "unat (kMaxKey div of_int n * of_int i) = key_quota n * nat i"
proof -
  have un: "unat (of_int n :: u64) = nat n" "unat (of_int i :: u64) = nat i"
    using n i by (auto intro!: unat_of_int_small)
  have mx: "unat kMaxKey = 2 ^ 64 - 1" by (simp add: kMaxKey_def unsigned_minus_1_eq_mask mask_eq_exp_minus_1)
  have d: "unat (kMaxKey div of_int n) = key_quota n"
    by (simp add: unat_div un mx key_quota_def)
  have "key_quota n * nat i \<le> key_quota n * nat n" using i by (intro mult_le_mono2) auto
  also have "\<dots> \<le> 2 ^ 64 - 1" unfolding key_quota_def by (rule div_times_less_eq_dividend)
  also have "\<dots> < 2 ^ LENGTH(64)" by simp
  finally have "unat (kMaxKey div of_int n) * unat (of_int i :: u64) < 2 ^ LENGTH(64)"
    using d un by simp
  then have "unat (kMaxKey div of_int n * of_int i :: u64) = unat (kMaxKey div of_int n) * unat (of_int i :: u64)"
    by (rule unat_mult_lem[THEN iffD1])
  then show ?thesis by (simp only: d un)
qed

lemma length_key_ranges [simp]: "length (key_ranges n) = nat n"
  by (simp add: key_ranges_def)

lemma nth_key_ranges:
  assumes "i < nat n"
  shows "key_ranges n ! i = \<lparr>r_begin = kMaxKey div of_int n * of_int (int i),
     r_end = kMaxKey div of_int n * of_int (int i + 1)\<rparr>"
  using assms by (simp add: key_ranges_def)

lemma key_range_unat:
  assumes "0 < n" "n < 2 ^ 31" "i < nat n"
  shows "unat (r_begin (key_ranges n ! i)) = key_quota n * i"
    and "unat (r_end (key_ranges n ! i)) = key_quota n * Suc i"
proof -
  have "unat (kMaxKey div of_int n * of_int (int i)) = key_quota n * nat (int i)"
    using assms by (intro range_bound_unat) auto
  then show "unat (r_begin (key_ranges n ! i)) = key_quota n * i"
    using assms by (simp add: nth_key_ranges)
  have "unat (kMaxKey div of_int n * of_int (int i + 1)) = key_quota n * nat (int i + 1)"
    using assms by (intro range_bound_unat) auto
  then show "unat (r_end (key_ranges n ! i)) = key_quota n * Suc i"
    using assms by (simp add: nth_key_ranges nat_add_distrib)
qed

lemma key_quota_pos: "0 < n \<Longrightarrow> n < 2 ^ 31 \<Longrightarrow> 0 < key_quota n"
  by (simp add: key_quota_def div_greater_zero_iff)

lemma key_ranges_ok:
  assumes "0 < n" "n < 2 ^ 31"
  shows "ranges_ok (key_ranges n)"
proof -
  have "r_begin (key_ranges n ! i) \<le> r_end (key_ranges n ! i)" if "i < nat n" for i
    using key_range_unat[OF assms that] by (simp add: word_le_nat_alt)
  moreover have "r_end (key_ranges n ! i) = r_begin (key_ranges n ! Suc i)" if "Suc i < nat n" for i
  proof -
    have "i < nat n" using that by simp
    then show ?thesis
      using key_range_unat(2)[OF assms, of i] key_range_unat(1)[OF assms that] by (simp add: word_unat_eq_iff)
  qed
  ultimately show ?thesis using assms
    by (auto simp: ranges_ok_def list_all_iff list_all_length all_set_conv_all_nth)
       (metis length_key_ranges less_nat_zero_code list.size(3) zero_less_nat_eq)
qed

text \<open>The key \<open>k\<close> is in the range of server \<open>i\<close>.\<close>

definition in_range :: "u64 \<Rightarrow> Range \<Rightarrow> bool" where
  "in_range k r \<longleftrightarrow> r_begin r \<le> k \<and> k < r_end r"

lemma in_key_range:
  assumes "0 < n" "n < 2 ^ 31" "i < nat n"
  shows "in_range k (key_ranges n ! i) \<longleftrightarrow> unat k div key_quota n = i"
proof -
  have "in_range k (key_ranges n ! i) \<longleftrightarrow> key_quota n * i \<le> unat k \<and> unat k < key_quota n * Suc i"
    using key_range_unat[OF assms] by (simp add: in_range_def word_le_nat_alt word_less_nat_alt)
  also have "\<dots> \<longleftrightarrow> unat k div key_quota n = i"
    using key_quota_pos[OF assms(1,2)]
    by (metis div_nat_eqI dividend_less_times_div times_div_less_eq_dividend mult_Suc_right add.commute)
  finally show ?thesis .
qed

section \<open>Barrier flags\<close>

lemma um_get_fold_set:
  "um_get False (fold (\<lambda>i. um_set (int i) True) is m) c = (c \<in> int ` set is \<or> um_get False m c)"
  by (induction "is" arbitrary: m) auto

lemma release_all_get:
  "um_get False (release_all m) c \<longleftrightarrow> (0 \<le> c \<and> c < int (um_size m)) \<or> um_get False m c"
proof -
  have "c \<in> int ` {0..<um_size m} \<longleftrightarrow> 0 \<le> c \<and> c < int (um_size m)"
    by (auto simp: image_iff intro: bexI[of _ "nat c"])
  then show ?thesis by (simp add: release_all_def um_get_fold_set)
qed

lemma um_wf_release_all [simp]: "um_wf m \<Longrightarrow> um_wf (release_all m)"
  unfolding release_all_def by (induction "[0..<um_size m]" arbitrary: m rule: rev_induct)
    (auto intro: fold_invariant[where Q = "\<lambda>_. True" and P = um_wf])

lemma um_keys_release_all: "um_keys m \<subseteq> um_keys (release_all m)"
proof -
  have "um_keys m \<subseteq> um_keys (fold (\<lambda>i. um_set (int i) True) is m)" for "is" and m :: "(int, bool) um"
    by (induction "is" arbitrary: m) (simp, force)
  then show ?thesis by (simp add: release_all_def)
qed

section \<open>Reachable offices\<close>

text \<open>One step per operation of the office, with any arguments.\<close>

inductive po_step ::
  "(string \<Rightarrow> string option) \<Rightarrow> Environment \<Rightarrow> 'c Postoffice \<Rightarrow> 'c Postoffice \<Rightarrow> bool"
  for sys :: "string \<Rightarrow> string option" and env :: Environment where
  start_init: "Start_init sys env po = Inr po' \<Longrightarrow> po_step sys env po po'"
| start_finish: "po_step sys env po (Start_finish now po)"
| finalize: "po_step sys env po (fst (Finalize_rest customer_id po))"
| register_exit: "po_step sys env po (RegisterExitCallback po)"
| add_customer: "AddCustomer app_id customer_id c po = Inr po' \<Longrightarrow> po_step sys env po po'"
| remove_customer: "po_step sys env po (RemoveCustomer app_id customer_id po)"
| barrier: "Barrier role ts customer_id g po = Inr (Some (po', req)) \<Longrightarrow> po_step sys env po po'"
| manage: "Manage msg po = Inr po' \<Longrightarrow> po_step sys env po po'"
| manage_scheduler: "po_step sys env po (ManageForScheduler app_id po)"
| key_ranges: "po_step sys env po (fst (GetServerKeyRanges po))"
| heartbeat: "po_step sys env po (UpdateHeartbeat node_id t po)"

inductive po_reachable :: "(string \<Rightarrow> string option) \<Rightarrow> Environment \<Rightarrow> 'c Postoffice \<Rightarrow> bool"
  for sys :: "string \<Rightarrow> string option" and env :: Environment where
  reach_init: "po_reachable sys env Postoffice_init"
| reach_step: "po_reachable sys env po \<Longrightarrow> po_step sys env po po' \<Longrightarrow> po_reachable sys env po'"

definition table_inv :: "'c Postoffice \<Rightarrow> bool" where
  "table_inv po \<longleftrightarrow>
     0 \<le> po_init_stage po
     \<and> (po_init_stage po = 0 \<longrightarrow> po_num_workers po = 0 \<and> po_num_servers po = 0 \<and> po_node_ids po = []
          \<and> po_server_key_ranges po = [])
     \<and> (0 < po_init_stage po \<longrightarrow> (\<forall>g. GetNodeIDs po g =
          (let ids = group_members (po_num_workers po) (po_num_servers po) g in
           if ids = [] then Inl (Check ''node doesn't exist'') else Inr ids)))
     \<and> (po_server_key_ranges po = [] \<or> po_server_key_ranges po = key_ranges (po_num_servers po))"

text \<open>Per application: its barrier flags cover its customers, and it has customers if it is listed.\<close>

definition app_ok :: "(int, 'c) um option \<Rightarrow> (int, bool) um \<Rightarrow> bool" where
  "app_ok cs bs \<longleftrightarrow> um_wf bs \<and>
     (case cs of None \<Rightarrow> True | Some cs \<Rightarrow> um_wf cs \<and> cs \<noteq> [] \<and> um_keys cs \<subseteq> um_keys bs)"

definition registry_inv :: "'c Postoffice \<Rightarrow> bool" where
  "registry_inv po \<longleftrightarrow>
     um_wf (po_customers po) \<and> um_wf (po_barrier_done po)
     \<and> (\<forall>app. app_ok (um_find (po_customers po) app) (um_get [] (po_barrier_done po) app))"

lemma table_inv_init: "table_inv Postoffice_init"
  by (simp add: table_inv_def Postoffice_init_def)

lemma registry_inv_init: "registry_inv Postoffice_init"
  by (simp add: registry_inv_def app_ok_def um_get_def Postoffice_init_def)

lemma InitEnvironment_fields:
  "InitEnvironment sys env po = Inr po' \<Longrightarrow>
     po_init_stage po' = po_init_stage po \<and> po_node_ids po' = po_node_ids po
     \<and> po_server_key_ranges po' = po_server_key_ranges po \<and> po_customers po' = po_customers po
     \<and> po_barrier_done po' = po_barrier_done po"
  by (cases "env_find sys env ''DMLC_NUM_WORKER''"; cases "env_find sys env ''DMLC_NUM_SERVER''";
      cases "env_find sys env ''DMLC_ROLE''") (auto simp: InitEnvironment_def)

lemma Start_node_ids_fields [simp]:
  "po_init_stage (Start_node_ids po) = po_init_stage po"
  "po_num_workers (Start_node_ids po) = po_num_workers po"
  "po_num_servers (Start_node_ids po) = po_num_servers po"
  "po_server_key_ranges (Start_node_ids po) = po_server_key_ranges po"
  "po_customers (Start_node_ids po) = po_customers po"
  "po_barrier_done (Start_node_ids po) = po_barrier_done po"
  by (simp_all add: Start_node_ids_def Let_def)

lemma GetNodeIDs_cong: "po_node_ids po' = po_node_ids po \<Longrightarrow> GetNodeIDs po' = GetNodeIDs po"
  by (simp add: fun_eq_iff GetNodeIDs_def)

text \<open>An operation that leaves the table and the ranges alone keeps the invariant.\<close>

lemma table_inv_frame:
  assumes "table_inv po" and "po_init_stage po' = po_init_stage po \<or> 0 < po_init_stage po \<and> 0 < po_init_stage po'"
    and "po_node_ids po' = po_node_ids po" and "po_num_workers po' = po_num_workers po"
    and "po_num_servers po' = po_num_servers po" and "po_server_key_ranges po' = po_server_key_ranges po"
  shows "table_inv po'"
  using assms GetNodeIDs_cong[OF assms(3)] unfolding table_inv_def by auto

lemma registry_inv_frame:
  assumes "registry_inv po" and "po_customers po' = po_customers po" and "po_barrier_done po' = po_barrier_done po"
  shows "registry_inv po'"
  using assms unfolding registry_inv_def by simp

lemma table_inv_Start_init:
  assumes inv: "table_inv po" and st: "Start_init sys env po = Inr po'"
  shows "table_inv po'"
proof (cases "po_init_stage po = 0")
  case True
  then obtain q where q: "InitEnvironment sys env po = Inr q"
    and po': "po' = (Start_node_ids q)\<lparr>po_init_stage := po_init_stage q + 1\<rparr>"
    using st by (auto simp: Start_init_def)
  have q0: "po_node_ids q = []" "po_init_stage q = 0" "po_server_key_ranges q = []"
    using InitEnvironment_fields[OF q] inv True by (auto simp: table_inv_def)
  have "GetNodeIDs po' = GetNodeIDs (Start_node_ids q)" by (rule GetNodeIDs_cong) (simp add: po')
  then show ?thesis using GetNodeIDs_Start[OF q0(1)] q0 by (simp add: table_inv_def po')
next
  case False
  then show ?thesis using inv st by (simp add: Start_init_def)
qed

lemma table_inv_step: "po_step sys env po po' \<Longrightarrow> table_inv po \<Longrightarrow> table_inv po'"
proof (induction rule: po_step.induct)
  case (start_init po po')
  then show ?case by (blast intro: table_inv_Start_init)
next
  case (finalize po customer_id)
  then show ?case by (auto simp: Finalize_rest_def table_inv_def)
next
  case (key_ranges po)
  then show ?case
    by (cases "po_num_servers po = 0")
       (auto simp: GetServerKeyRanges_def Let_def table_inv_def key_ranges_def GetNodeIDs_def)
next
  case (start_finish po now)
  then show ?case by (auto simp: Start_finish_def elim!: table_inv_frame)
next
  case (barrier role ts customer_id g po po' req)
  then show ?case
    by (auto simp: Barrier_def Let_def split: if_splits elim!: table_inv_frame)
next
  case (manage msg po po')
  then show ?case by (auto simp: Manage_def Let_def split: if_splits elim!: table_inv_frame)
next
  case (add_customer app_id customer_id c po po')
  then show ?case by (auto simp: AddCustomer_def Let_def elim!: table_inv_frame)
qed (auto simp: RegisterExitCallback_def RemoveCustomer_def ManageForScheduler_def UpdateHeartbeat_def Let_def
      elim!: table_inv_frame)

lemma app_ok_None: "app_ok None bs \<longleftrightarrow> um_wf bs"
  by (simp add: app_ok_def)

lemma app_okD:
  assumes "registry_inv po"
  shows "um_wf (um_get [] (po_barrier_done po) app)" and "um_wf (um_get [] (po_customers po) app)"
    and "um_keys (um_get [] (po_customers po) app) \<subseteq> um_keys (um_get [] (po_barrier_done po) app)"
proof -
  have "app_ok (um_find (po_customers po) app) (um_get [] (po_barrier_done po) app)"
    using assms by (simp add: registry_inv_def)
  then show "um_wf (um_get [] (po_barrier_done po) app)" "um_wf (um_get [] (po_customers po) app)"
    "um_keys (um_get [] (po_customers po) app) \<subseteq> um_keys (um_get [] (po_barrier_done po) app)"
    unfolding app_ok_def um_get_def[of _ "po_customers po"] by (auto split: option.splits)
qed

lemma registry_inv_flags:
  assumes "registry_inv po" and "um_wf bs" and "um_keys (um_get [] (po_barrier_done po) app) \<subseteq> um_keys bs"
  shows "registry_inv (po\<lparr>po_barrier_done := um_set app bs (po_barrier_done po)\<rparr>)"
proof -
  have "app_ok (um_find (po_customers po) app) bs"
    using assms unfolding registry_inv_def app_ok_def by (metis (no_types, lifting) option.case_eq_if subset_trans)
  then show ?thesis using assms(1) by (simp add: registry_inv_def)
qed

lemma registry_inv_AddCustomer:
  assumes inv: "registry_inv po" and add: "AddCustomer app_id customer_id c po = Inr po'"
  shows "registry_inv po'"
proof -
  let ?cs = "um_get [] (po_customers po) app_id" and ?bs = "um_get [] (po_barrier_done po) app_id"
  have cs': "po_customers po' = um_set app_id (um_set customer_id c ?cs) (po_customers po)"
    and bs': "po_barrier_done po' = um_set app_id (um_insert customer_id False ?bs) (po_barrier_done po)"
    using add by (auto simp: AddCustomer_def Let_def um_insert_def)
  have "um_keys (um_insert customer_id False ?bs) = insert customer_id (um_keys ?bs)"
    by (cases "um_find ?bs customer_id") (auto simp: um_insert_def dest: map_of_SomeD intro: rev_image_eqI)
  then have "app_ok (Some (um_set customer_id c ?cs)) (um_insert customer_id False ?bs)"
    using app_okD[OF inv, of app_id] by (cases ?cs) (auto simp: app_ok_def)
  then show ?thesis using inv by (simp add: registry_inv_def cs' bs')
qed

lemma registry_inv_RemoveCustomer:
  assumes inv: "registry_inv po"
  shows "registry_inv (RemoveCustomer app_id customer_id po)"
proof -
  let ?cs = "um_erase customer_id (um_get [] (po_customers po) app_id)"
  have "?cs \<noteq> [] \<Longrightarrow> app_ok (Some ?cs) (um_get [] (po_barrier_done po) app_id)"
    using app_okD[OF inv, of app_id] by (auto simp: app_ok_def)
  then show ?thesis using inv app_okD(1)[OF inv, of app_id]
    by (simp add: RemoveCustomer_def Let_def registry_inv_def app_ok_None)
qed

lemma registry_inv_step: "po_step sys env po po' \<Longrightarrow> registry_inv po \<Longrightarrow> registry_inv po'"
proof (induction rule: po_step.induct)
  case (start_init po po')
  then show ?case
    by (auto simp: Start_init_def dest!: InitEnvironment_fields split: if_splits elim!: registry_inv_frame)
next
  case (finalize po customer_id)
  then show ?case
    by (cases "customer_id = 0") (simp_all add: Finalize_rest_def registry_inv_def app_ok_None um_get_def)
next
  case (barrier role ts customer_id g po po' req)
  let ?bs = "um_set customer_id False (um_get [] (po_barrier_done po) 0)"
  have "po' = po\<lparr>po_barrier_done := um_set 0 ?bs (po_barrier_done po)\<rparr>"
    using barrier(1) by (auto simp: Barrier_def Let_def split: if_splits)
  moreover have "um_keys (um_get [] (po_barrier_done po) 0) \<subseteq> um_keys ?bs"
    unfolding um_keys_set by (rule subset_insertI)
  ultimately show ?case using app_okD(1)[OF barrier(2), of 0] registry_inv_flags[OF barrier(2)] by simp
next
  case (manage msg po po')
  then show ?case using app_okD(1)[of po "m_app_id (msg_meta msg)"] um_keys_release_all
    by (auto simp: Manage_def Let_def split: if_splits intro!: registry_inv_flags)
next
  case (add_customer app_id customer_id c po po')
  then show ?case by (blast intro: registry_inv_AddCustomer)
next
  case (remove_customer po app_id customer_id)
  then show ?case by (rule registry_inv_RemoveCustomer)
next
  case (manage_scheduler po app_id)
  then show ?case using app_okD(1)[of po app_id] um_keys_release_all
    by (auto simp: ManageForScheduler_def intro!: registry_inv_flags)
qed (auto simp: Start_finish_def RegisterExitCallback_def GetServerKeyRanges_def UpdateHeartbeat_def Let_def
      elim!: registry_inv_frame)

lemma reachable_table_inv: "po_reachable sys env po \<Longrightarrow> table_inv po"
  by (induction rule: po_reachable.induct) (auto intro: table_inv_init table_inv_step)

lemma reachable_registry_inv: "po_reachable sys env po \<Longrightarrow> registry_inv po"
  by (induction rule: po_reachable.induct) (auto intro: registry_inv_init registry_inv_step)

section \<open>The registry contract\<close>

text \<open>What a van relies on when it hands a message to a customer.\<close>

locale registry =
  fixes add :: "'k \<Rightarrow> 'c \<Rightarrow> 's \<Rightarrow> 's res" and remove :: "'k \<Rightarrow> 's \<Rightarrow> 's" and lookup :: "'k \<Rightarrow> 's \<Rightarrow> 'c option"
  assumes add_new: "lookup k s = None \<Longrightarrow>
      \<exists>s'. add k c s = Inr s' \<and> (\<forall>k'. lookup k' s' = (if k' = k then Some c else lookup k' s))"
    and add_old: "lookup k s \<noteq> None \<Longrightarrow> \<exists>e. add k c s = Inl e"
    and lookup_remove: "lookup k' (remove k s) = (if k' = k then None else lookup k' s)"
begin

lemma adds_lookup:
  "\<lbrakk>distinct (map fst kcs); \<forall>k \<in> set (map fst kcs). lookup k s = None\<rbrakk> \<Longrightarrow>
   \<exists>s'. rfold (\<lambda>(k, c). add k c) kcs s = Inr s'
     \<and> (\<forall>k. lookup k s' = (case map_of kcs k of Some c \<Rightarrow> Some c | None \<Rightarrow> lookup k s))"
proof (induction kcs arbitrary: s)
  case (Cons kc kcs)
  obtain k c where kc: "kc = (k, c)" by (rule prod.exhaust)
  obtain s1 where s1: "add k c s = Inr s1" "\<forall>k'. lookup k' s1 = (if k' = k then Some c else lookup k' s)"
    using add_new[of k s c] Cons.prems(2) kc by auto
  have new: "\<forall>k \<in> set (map fst kcs). lookup k s1 = None" using Cons.prems kc s1(2) by auto
  obtain s' where s': "rfold (\<lambda>(k, c). add k c) kcs s1 = Inr s'"
    "\<forall>k. lookup k s' = (case map_of kcs k of Some c \<Rightarrow> Some c | None \<Rightarrow> lookup k s1)"
    using Cons.IH[OF _ new] Cons.prems(1) by auto
  have "map_of kcs k = None" using Cons.prems(1) kc by (simp add: map_of_eq_None_iff)
  then show ?case using s1 s' kc by (auto split: option.splits)
qed simp

lemma add_again: "\<exists>s'. add k c (remove k s) = Inr s' \<and> lookup k s' = Some c"
  using add_new[of k "remove k s" c] by (auto simp: lookup_remove)

end

definition po_add :: "int \<times> int \<Rightarrow> 'c \<Rightarrow> 'c Postoffice \<Rightarrow> 'c Postoffice res" where
  "po_add k c = AddCustomer (fst k) (snd k) c"

definition po_remove :: "int \<times> int \<Rightarrow> 'c Postoffice \<Rightarrow> 'c Postoffice" where
  "po_remove k = RemoveCustomer (fst k) (snd k)"

definition po_lookup :: "int \<times> int \<Rightarrow> 'c Postoffice \<Rightarrow> 'c option" where
  "po_lookup k po = GetCustomer (fst k) (snd k) 0 (\<lambda>_. po)"

lemma um_get_erase [simp]: "um_get d (um_erase k m) k' = (if k' = k then d else um_get d m k')"
  by (simp add: um_get_def)

lemma po_lookup_find: "po_lookup (app, cid) po = um_find (um_get [] (po_customers po) app) cid"
  by (simp add: po_lookup_def GetCustomer_def um_get_def split: option.splits)

interpretation offices: registry po_add po_remove po_lookup
proof unfold_locales
  fix k :: "int \<times> int" and c and po :: "'c Postoffice"
  obtain app cid where k: "k = (app, cid)" by (rule prod.exhaust)
  show "po_lookup k po = None \<Longrightarrow> \<exists>po'. po_add k c po = Inr po' \<and>
      (\<forall>k'. po_lookup k' po' = (if k' = k then Some c else po_lookup k' po))"
    by (auto simp: k po_add_def AddCustomer_def po_lookup_find Let_def)
  show "po_lookup k po \<noteq> None \<Longrightarrow> \<exists>e. po_add k c po = Inl e"
    by (auto simp: k po_add_def AddCustomer_def po_lookup_find Let_def check_def)
next
  fix k' k :: "int \<times> int" and po :: "'c Postoffice"
  obtain app cid where k: "k = (app, cid)" by (rule prod.exhaust)
  obtain app' cid' where k': "k' = (app', cid')" by (rule prod.exhaust)
  let ?cs = "um_get [] (po_customers po) app"
  have "um_erase cid ?cs = [] \<Longrightarrow> cid' \<noteq> cid \<Longrightarrow> um_find ?cs cid' = None"
    by (metis um_find_erase map_of.simps(1))
  then show "po_lookup k' (po_remove k po) = (if k' = k then None else po_lookup k' po)"
    by (auto simp: k k' po_remove_def RemoveCustomer_def po_lookup_find Let_def)
qed

section \<open>Properties of the office\<close>

text \<open>C13: in every reachable office that has started, \<^verbatim>\<open>GetNodeIDs\<close> of a group number below 8
  lists the workers, the servers and the scheduler whose bits it has, and of a greater number that
  node alone; a group with no node, or a number that is no node's, fails the check.\<close>

theorem GetNodeIDs_table:
  assumes "po_reachable sys env po" and "0 < po_init_stage po"
  shows "GetNodeIDs po g =
    (let ids = group_members (po_num_workers po) (po_num_servers po) g in
     if ids = [] then Inl (Check ''node doesn't exist'') else Inr ids)"
  using reachable_table_inv[OF assms(1)] assms(2) by (simp add: table_inv_def)

definition demo_env :: Environment where
  "demo_env = \<lparr>env_kvs = [(''DMLC_NUM_WORKER'', ''2''), (''DMLC_NUM_SERVER'', ''1''), (''DMLC_ROLE'', ''worker'')]\<rparr>"

definition demo_office :: "nat Postoffice" where
  "demo_office = (case Start_init (\<lambda>_. None) demo_env Postoffice_init of Inr po \<Rightarrow> po | Inl _ \<Rightarrow> Postoffice_init)"

lemma demo_Start: "Start_init (\<lambda>_. None) demo_env Postoffice_init = Inr demo_office"
  by (simp add: demo_office_def Start_init_def InitEnvironment_def Van_Create_def GetEnv_def env_find_def
      demo_env_def Postoffice_init_def)

lemma demo_reachable: "po_reachable (\<lambda>_. None) demo_env demo_office"
  by (rule reach_step[OF reach_init start_init[OF demo_Start]])

lemma demo_fields: "po_init_stage demo_office = 1" "po_num_workers demo_office = 2" "po_num_servers demo_office = 1"
  by (simp_all add: demo_office_def Start_init_def InitEnvironment_def Van_Create_def GetEnv_def env_find_def
      demo_env_def Postoffice_init_def atoi_def is_space_def is_digit_def
      read_digits_def digit_val_def)

theorem GetNodeIDs_table_witness:
  "GetNodeIDs demo_office 6 = Inr [9, 11, 8] \<and> GetNodeIDs demo_office 11 = Inr [11]
   \<and> GetNodeIDs demo_office 13 = Inl (Check ''node doesn't exist'')"
  using GetNodeIDs_table[OF demo_reachable, of 6] GetNodeIDs_table[OF demo_reachable, of 11]
    GetNodeIDs_table[OF demo_reachable, of 13]
  by (simp add: demo_fields group_members_def worker_ids_def server_ids_def WorkerRankToID_def
      ServerRankToID_def upto_rec1)



text \<open>C5: the server key ranges of a reachable office with \<open>n\<close> servers are consecutive, start at
  0 and give every server the same number of keys; a key is in exactly one range, that of server
  \<open>k div quota\<close>, when it is below \<open>quota * n\<close>, and in none otherwise.\<close>

theorem GetServerKeyRanges_partition:
  assumes "po_reachable sys env po" and "po_num_servers po = n" and "0 < n" and "n < 2 ^ 31"
    and rs_def: "rs = snd (GetServerKeyRanges po)"
  shows "length rs = nat n \<and> ranges_ok rs \<and> r_begin (rs ! 0) = 0
    \<and> (\<forall>i. i < nat n \<longrightarrow> unat (Range_size (rs ! i)) = key_quota n)
    \<and> (\<forall>k i. i < nat n \<longrightarrow> in_range k (rs ! i) = (unat k div key_quota n = i))
    \<and> (\<forall>k. (\<exists>i. i < nat n \<and> in_range k (rs ! i)) = (unat k < key_quota n * nat n))"
proof -
  have rs: "rs = key_ranges n"
    using reachable_table_inv[OF assms(1)] assms(2)
    by (auto simp: rs_def table_inv_def GetServerKeyRanges_def Let_def key_ranges_def)
  note ku = key_range_unat[OF assms(3,4)] and pos = key_quota_pos[OF assms(3,4)]
  have n0: "0 < nat n" using assms(3) by simp
  have first: "r_begin (rs ! 0) = 0" using ku(1)[OF n0] by (simp add: rs unat_eq_0)
  have size: "unat (Range_size (rs ! i)) = key_quota n" if "i < nat n" for i
    using ku[OF that] by (simp add: rs Range_size_def unat_sub word_le_nat_alt)
  have mem: "in_range k (rs ! i) = (unat k div key_quota n = i)" if "i < nat n" for k i
    using in_key_range[OF assms(3,4) that] by (simp add: rs)
  have "(\<exists>i. i < nat n \<and> in_range k (rs ! i)) = (unat k < key_quota n * nat n)" for k
  proof -
    have "(\<exists>i. i < nat n \<and> in_range k (rs ! i)) = (unat k div key_quota n < nat n)"
      by (simp add: mem cong: conj_cong)
    then show ?thesis using div_less_iff_less_mult[OF pos, of "unat k" "nat n"] by (simp only: mult.commute)
  qed
  then show ?thesis using first size mem key_ranges_ok[OF assms(3,4)] by (simp add: rs)
qed

theorem GetServerKeyRanges_partition_witness:
  "length (snd (GetServerKeyRanges demo_office)) = 1
   \<and> (\<exists>i. i < nat 1 \<and> in_range 5 (snd (GetServerKeyRanges demo_office) ! i))
   \<and> \<not> (\<exists>i. i < nat 1 \<and> in_range kMaxKey (snd (GetServerKeyRanges demo_office) ! i))"
proof -
  have "unat kMaxKey = 2 ^ 64 - 1" by (simp add: kMaxKey_def unsigned_minus_1_eq_mask mask_eq_exp_minus_1)
  then show ?thesis using GetServerKeyRanges_partition[OF demo_reachable demo_fields(3) _ _ refl]
    by (simp add: key_quota_def)
qed

text \<open>C20: customers with distinct (application, customer) ids can all be registered, and the office
  then finds exactly the registered ones, each under its ids.\<close>

theorem customers_registered:
  assumes "distinct (map fst kcs)" and "po_customers po = []"
  shows "\<exists>po'. rfold (\<lambda>((app, cid), c). AddCustomer app cid c) kcs po = Inr po'
    \<and> (\<forall>app cid. GetCustomer app cid 0 (\<lambda>_. po') = map_of kcs (app, cid))"
proof -
  have none: "po_lookup k po = None" for k
    using assms(2) by (cases k) (simp add: po_lookup_find um_get_def)
  have eq: "(\<lambda>(k, c). po_add k c) = (\<lambda>((app, cid), c). AddCustomer app cid c)"
    by (auto simp: fun_eq_iff po_add_def)
  have "\<exists>po'. rfold (\<lambda>(k, c). po_add k c) kcs po = Inr po'
      \<and> (\<forall>k. po_lookup k po' = (case map_of kcs k of Some c \<Rightarrow> Some c | None \<Rightarrow> po_lookup k po))"
    using none by (intro offices.adds_lookup assms(1)) simp
  then obtain po' where po': "rfold (\<lambda>(k, c). po_add k c) kcs po = Inr po'"
    "\<forall>k. po_lookup k po' = (case map_of kcs k of Some c \<Rightarrow> Some c | None \<Rightarrow> po_lookup k po)" by blast
  have "GetCustomer app cid 0 (\<lambda>_. po') = map_of kcs (app, cid)" for app cid
    using po'(2)[rule_format, of "(app, cid)"] none[of "(app, cid)"] by (simp add: po_lookup_def split: option.splits)
  then show ?thesis using po'(1) unfolding eq by blast
qed

theorem customers_registered_witness:
  "\<exists>po'. rfold (\<lambda>((app, cid), c). AddCustomer app cid c) [((0, 0), 5), ((0, 1), 6), ((1, 0), 7)]
     (Postoffice_init :: nat Postoffice) = Inr po' \<and> GetCustomer 0 1 0 (\<lambda>_. po') = Some 6"
  using customers_registered[of "[((0, 0), 5), ((0, 1), 6), ((1, 0), 7)]" "Postoffice_init :: nat Postoffice"]
  by (auto simp: Postoffice_init_def)

lemma GetCustomer_loop_first:
  "\<lbrakk>j < length polls; \<forall>i < j. um_find (polls ! i) app = None; um_find (polls ! j) app = Some cs\<rbrakk>
   \<Longrightarrow> GetCustomer_loop app cid polls = um_find cs cid"
proof (induction polls arbitrary: j)
  case (Cons p polls)
  show ?case
  proof (cases j)
    case 0
    then show ?thesis using Cons.prems by simp
  next
    case (Suc j')
    have "um_find p app = None" using Cons.prems(2) Suc by auto
    moreover have "\<forall>i < j'. um_find (polls ! i) app = None" using Cons.prems(2) Suc by auto
    ultimately show ?thesis using Cons Suc by simp
  qed
qed simp

text \<open>\<^verbatim>\<open>GetCustomer\<close> stops polling at the first poll that finds the application, and its
  answer is what that poll holds: a customer of the application registered later, although
  within the timeout, is not found.\<close>

theorem GetCustomer_first_poll:
  assumes "j < nat (timeout * 1000 + 1)" and "\<forall>i < j. um_find (po_customers (po i)) app = None"
    and "um_find (po_customers (po j)) app = Some cs"
  shows "GetCustomer app cid timeout po = um_find cs cid"
  unfolding GetCustomer_def using assms by (intro GetCustomer_loop_first[of j]) auto

theorem GetCustomer_first_poll_witness:
  "GetCustomer 0 1 5 (\<lambda>i. Postoffice_init\<lparr>po_customers := [(0, if i = 0 then [(0, 7::nat)] else [(0, 7), (1, 8)])]\<rparr>) = None"
  using GetCustomer_first_poll[of 0 5 "\<lambda>i. Postoffice_init\<lparr>po_customers := [(0, if i = 0 then [(0, 7::nat)] else [(0, 7), (1, 8)])]\<rparr>"
      0 "[(0, 7)]" 1] by simp

text \<open>C21: a customer that waits in a barrier is released by the scheduler's answer exactly when
  its id is below the number of barrier flags of application 0.  With customer ids
  \<open>0, 1, ..\<close> every customer is released; a customer with a greater id waits for ever.\<close>

theorem Barrier_released_iff:
  assumes "Barrier role ts cid g po = Inr (Some (po', req))"
    and "ctl_cmd (m_control (msg_meta res)) = BARRIER" and "\<not> m_request (msg_meta res)"
    and "m_app_id (msg_meta res) = 0" and "Manage res po' = Inr po''"
  shows "\<not> Barrier_wait cid po'
    \<and> (Barrier_wait cid po'' \<longleftrightarrow> 0 \<le> cid \<and> cid < int (um_size (um_get [] (po_barrier_done po') 0)))"
proof -
  have "um_get [] (po_barrier_done po') 0 = um_set cid False (um_get [] (po_barrier_done po) 0)"
    using assms(1) by (auto simp: Barrier_def Let_def split: if_splits)
  then show ?thesis using assms(2-5)
    by (auto simp: Barrier_wait_def Manage_def Let_def release_all_get)
qed

theorem Barrier_released_iff_witness:
  "\<exists>po' req po''. Barrier WORKER 0 7 4 demo_office = Inr (Some (po', req))
   \<and> Manage (Message_init\<lparr>msg_meta := Meta_init\<lparr>m_app_id := 0, m_control := Control_init\<lparr>ctl_cmd := BARRIER\<rparr>\<rparr>\<rparr>) po' = Inr po''
   \<and> \<not> Barrier_wait 7 po''"
proof -
  have "table_inv demo_office" by (rule reachable_table_inv[OF demo_reachable])
  then have ids: "GetNodeIDs demo_office 4 = Inr [9, 11]"
    by (simp add: table_inv_def demo_fields group_members_def worker_ids_def WorkerRankToID_def upto_rec1)
  have bd: "po_barrier_done demo_office = []"
    by (simp add: demo_office_def Start_init_def InitEnvironment_def Van_Create_def GetEnv_def env_find_def
      demo_env_def Postoffice_init_def)
  let ?po' = "demo_office\<lparr>po_barrier_done := [(0, [(7, False)])]\<rparr>"
  let ?res = "Message_init\<lparr>msg_meta := Meta_init\<lparr>m_app_id := 0, m_control := Control_init\<lparr>ctl_cmd := BARRIER\<rparr>\<rparr>\<rparr>"
  have b: "Barrier WORKER 0 7 4 demo_office = Inr (Some (?po', Some (Barrier_request 7 4 0)))"
    by (simp add: Barrier_def ids bd Let_def in_worker_group_def kWorkerGroup_def um_get_def)
  moreover have r: "ctl_cmd (m_control (msg_meta ?res)) = BARRIER" "\<not> m_request (msg_meta ?res)"
    "m_app_id (msg_meta ?res) = 0"
    by (simp_all add: Message_init_def Meta_init_def)
  moreover obtain po'' where m: "Manage ?res ?po' = Inr po''"
    by (simp add: Manage_def Let_def Control_empty_def Control_init_def)
  ultimately show ?thesis using Barrier_released_iff[OF b r m] by (auto simp: um_get_def)
qed

end
