(* ===== verification/Ps_KVSlicer.thy ===== *)
theory Ps_KVSlicer
  imports Ps_Postoffice
begin

text \<open>
  Key-value pairs and \<^verbatim>\<open>KVWorker::DefaultSlicer\<close> of \<^verbatim>\<open>include/ps/kv_app.h\<close>: how a request's keys
  and values are cut into one part per server.  Arrays are their lists of elements, and
  \<open>lseg\<close> is \<^verbatim>\<open>SArray::segment\<close> with its bounds checks.  The running value offsets are
  \<^verbatim>\<open>size_t\<close>, so adding a length wraps at \<open>2 ^ 64\<close>; a length is a 32-bit integer.
\<close>

record 'v KVPairs =
  kv_keys :: "u64 list"
  kv_vals :: "'v list"
  kv_lens :: "i32 list"
  kv_priority :: int

definition KVPairs_empty :: "'v KVPairs" where
  "KVPairs_empty = \<lparr>kv_keys = [], kv_vals = [], kv_lens = [], kv_priority = 0\<rparr>"

type_synonym 'v SlicedKVs = "(bool \<times> 'v KVPairs) list"

definition lseg :: "nat \<Rightarrow> nat \<Rightarrow> 'b list \<Rightarrow> 'b list res" where
  "lseg b e xs = check (b \<le> e) ''end >= begin'' (check (e \<le> length xs) ''end <= size()'' (Inr (seg b e xs)))"

text \<open>The first loop of the slicer: the end position of each server's keys.\<close>

fun slice_pos :: "u64 list \<Rightarrow> nat \<Rightarrow> Range option \<Rightarrow> Range list \<Rightarrow> nat list res" where
  "slice_pos keys p prev [] = Inr []"
| "slice_pos keys p prev (r # rs) =
     check (case prev of None \<Rightarrow> True | Some r0 \<Rightarrow> r_end r0 = r_begin r) ''ranges[i-1].end() == ranges[i].begin()''
       (let q = p + lower_bound (drop p keys) (r_end r) in
        rbind (slice_pos keys q (Some r) rs) (\<lambda>ps. Inr (q # ps)))"

text \<open>\<^verbatim>\<open>val_end += l\<close>, an \<^verbatim>\<open>int\<close> added to a \<^verbatim>\<open>size_t\<close>.\<close>

definition add_len :: "i32 \<Rightarrow> nat \<Rightarrow> nat" where
  "add_len l v = nat ((int v + sint l) mod 2 ^ 64)"

text \<open>The second loop: the part of each server, for \<open>pos[i] = p\<close> and \<open>pos[i + 1] = q\<close>.\<close>

fun slice_loop :: "'v KVPairs \<Rightarrow> nat \<Rightarrow> nat \<Rightarrow> nat \<Rightarrow> nat \<Rightarrow> nat list \<Rightarrow> 'v SlicedKVs res" where
  "slice_loop send k vb ve p [] = Inr []"
| "slice_loop send k vb ve p (q # qs) =
     (if q = p
      then rbind (slice_loop send k vb ve q qs) (\<lambda>sl. Inr ((False, KVPairs_empty) # sl))
      else rbind (lseg p q (kv_keys send)) (\<lambda>ks.
        if kv_lens send \<noteq> []
        then rbind (lseg p q (kv_lens send)) (\<lambda>ls.
             let ve' = fold add_len ls ve in
             rbind (lseg vb ve' (kv_vals send)) (\<lambda>vs.
             rbind (slice_loop send k ve' ve' q qs) (\<lambda>sl.
               Inr ((True, KVPairs_empty\<lparr>kv_keys := ks, kv_vals := vs, kv_lens := ls\<rparr>) # sl))))
        else rbind (lseg (p * k) (q * k) (kv_vals send)) (\<lambda>vs.
             rbind (slice_loop send k vb ve q qs) (\<lambda>sl.
               Inr ((True, KVPairs_empty\<lparr>kv_keys := ks, kv_vals := vs\<rparr>) # sl)))))"

definition DefaultSlicer :: "'v KVPairs \<Rightarrow> Range list \<Rightarrow> 'v SlicedKVs res" where
  "DefaultSlicer send ranges =
     (let p0 = (case ranges of [] \<Rightarrow> 0 | r # _ \<Rightarrow> lower_bound (kv_keys send) (r_begin r)) in
      rbind (slice_pos (kv_keys send) p0 None ranges) (\<lambda>ps.
      check (last (p0 # ps) = length (kv_keys send)) ''pos[n] == send.keys.size()''
       (if kv_keys send = []
        then Inr (replicate (length ranges) (False, KVPairs_empty))
        else let k = (if kv_lens send = [] then length (kv_vals send) div length (kv_keys send) else 0) in
          check (if kv_lens send = [] then k * length (kv_keys send) = length (kv_vals send)
                 else length (kv_keys send) = length (kv_lens send)) ''lengths of keys, vals and lens''
            (slice_loop send k 0 0 p0 ps))))"

section \<open>Positions\<close>

lemma lower_bound_filter: "sorted xs \<Longrightarrow> lower_bound xs v = length (filter (\<lambda>x. x < v) xs)"
  by (simp add: lower_bound_eq takeWhile_less_sorted)

lemma lower_bound_add:
  assumes "sorted keys" and "b \<le> e"
  shows "lower_bound keys b + lower_bound (drop (lower_bound keys b) keys) e = lower_bound keys e"
proof -
  have "drop (lower_bound keys b) keys = filter (\<lambda>x. \<not> x < b) keys"
    using assms(1) by (simp add: drop_lower_bound dropWhile_less_sorted)
  then have "lower_bound (drop (lower_bound keys b) keys) e = length (filter (\<lambda>x. x < e \<and> \<not> x < b) keys)"
    using assms(1) by (simp add: lower_bound_filter sorted_wrt_filter conj_commute)
  moreover have "length (filter (\<lambda>x. x < b) keys) + length (filter (\<lambda>x. x < e \<and> \<not> x < b) keys)
      = length (filter (\<lambda>x. x < e) keys)"
    using assms(2) by (induction keys) auto
  ultimately show ?thesis using assms(1) by (simp add: lower_bound_filter)
qed

fun consecutive :: "u64 \<Rightarrow> Range list \<Rightarrow> bool" where
  "consecutive b [] = True"
| "consecutive b (r # rs) = (r_begin r = b \<and> b \<le> r_end r \<and> consecutive (r_end r) rs)"

lemma list_all_upt: "list_all P [0..<n] \<longleftrightarrow> (\<forall>i < n. P i)"
  by (auto simp: list_all_iff)

lemma ranges_ok_Cons:
  "ranges_ok (r # r' # rs) \<longleftrightarrow> r_begin r \<le> r_end r \<and> r_end r = r_begin r' \<and> ranges_ok (r' # rs)"
  unfolding ranges_ok_def list_all_upt by (auto simp: All_less_Suc2)

lemma ranges_ok_consecutive: "ranges_ok rs \<Longrightarrow> consecutive (r_begin (hd rs)) rs"
proof (induction rs rule: induct_list012)
  case (3 r r' rs)
  then show ?case using ranges_ok_Cons[of r r' rs] by auto
qed (simp_all add: ranges_ok_def)

lemma slice_pos_ok:
  assumes "sorted keys" and "consecutive b rs" and "case prev of None \<Rightarrow> True | Some r \<Rightarrow> r_end r = b"
  shows "slice_pos keys (lower_bound keys b) prev rs = Inr (map (\<lambda>r. lower_bound keys (r_end r)) rs)"
  using assms(2,3)
proof (induction rs arbitrary: b prev)
  case (Cons r rs)
  have "lower_bound keys b + lower_bound (drop (lower_bound keys b) keys) (r_end r) = lower_bound keys (r_end r)"
    using lower_bound_add[OF assms(1)] Cons.prems(1) by simp
  moreover have "slice_pos keys (lower_bound keys (r_end r)) (Some r) rs
      = Inr (map (\<lambda>r. lower_bound keys (r_end r)) rs)"
    using Cons by simp
  ultimately show ?case using Cons.prems by (auto simp: Let_def split: option.splits)
qed simp

section \<open>The parts\<close>

text \<open>The values that fit a request: equally many per key, or as many as the lengths say.\<close>

definition lens_sum :: "i32 list \<Rightarrow> nat" where
  "lens_sum ls = sum_list (map (\<lambda>l. nat (sint l)) ls)"

definition vals_fit :: "'v KVPairs \<Rightarrow> bool" where
  "vals_fit kv \<longleftrightarrow>
     (if kv_lens kv = [] then length (kv_keys kv) dvd length (kv_vals kv)
      else length (kv_lens kv) = length (kv_keys kv) \<and> list_all (\<lambda>l. 0 \<le> sint l) (kv_lens kv)
           \<and> lens_sum (kv_lens kv) = length (kv_vals kv) \<and> length (kv_vals kv) < 2 ^ 64)"

text \<open>The offset in the values of the key at position \<open>p\<close>.\<close>

definition val_off :: "'v KVPairs \<Rightarrow> nat \<Rightarrow> nat" where
  "val_off kv p =
     (if kv_lens kv = [] then p * (length (kv_vals kv) div length (kv_keys kv)) else lens_sum (take p (kv_lens kv)))"

definition part :: "'v KVPairs \<Rightarrow> nat \<Rightarrow> nat \<Rightarrow> 'v KVPairs" where
  "part kv p q = \<lparr>kv_keys = seg p q (kv_keys kv), kv_vals = seg (val_off kv p) (val_off kv q) (kv_vals kv),
     kv_lens = seg p q (kv_lens kv), kv_priority = 0\<rparr>"

lemma part_same: "part kv p p = KVPairs_empty"
  by (simp add: part_def KVPairs_empty_def)

lemma lens_sum_append [simp]: "lens_sum (xs @ ys) = lens_sum xs + lens_sum ys"
  by (simp add: lens_sum_def)

lemma fold_add_len:
  "\<lbrakk>list_all (\<lambda>l. 0 \<le> sint l) ls; v + lens_sum ls < 2 ^ 64\<rbrakk> \<Longrightarrow> fold add_len ls v = v + lens_sum ls"
proof (induction ls arbitrary: v)
  case (Cons l ls)
  have "add_len l v = v + nat (sint l)"
    using Cons.prems by (simp add: add_len_def lens_sum_def nat_add_distrib mod_pos_pos_trivial)
  then show ?case using Cons by (simp add: lens_sum_def)
qed (simp add: lens_sum_def)

lemma take_eq_seg: "p \<le> q \<Longrightarrow> take q xs = take p xs @ seg p q xs"
  by (metis append_take_drop_id le_add_diff_inverse seg_def take_add)

lemma val_off_mono: "p \<le> q \<Longrightarrow> val_off kv p \<le> val_off kv q"
  using take_eq_seg[of p q "kv_lens kv"] by (simp add: val_off_def)

lemma val_off_full: "vals_fit kv \<Longrightarrow> val_off kv (length (kv_keys kv)) = length (kv_vals kv)"
  by (auto simp: vals_fit_def val_off_def split: if_splits)

lemma val_off_le: "vals_fit kv \<Longrightarrow> q \<le> length (kv_keys kv) \<Longrightarrow> val_off kv q \<le> length (kv_vals kv)"
  using val_off_mono[of q "length (kv_keys kv)" kv] val_off_full[of kv] by simp

lemma val_off_0 [simp]: "val_off kv 0 = 0"
  by (simp add: val_off_def lens_sum_def)

fun pairs :: "nat \<Rightarrow> nat list \<Rightarrow> (nat \<times> nat) list" where
  "pairs p [] = []"
| "pairs p (q # qs) = (p, q) # pairs q qs"

lemma length_pairs [simp]: "length (pairs p qs) = length qs"
  by (induction qs arbitrary: p) simp_all

lemma slice_loop_ok:
  assumes fit: "vals_fit send" and ne: "kv_keys send \<noteq> []"
    and k: "k = (if kv_lens send = [] then length (kv_vals send) div length (kv_keys send) else 0)"
  shows "\<lbrakk>sorted (p # qs); \<forall>q \<in> set qs. q \<le> length (kv_keys send);
      v = (if kv_lens send = [] then 0 else val_off send p)\<rbrakk> \<Longrightarrow>
    slice_loop send k v v p qs = Inr (map (\<lambda>(p, q). (p \<noteq> q, part send p q)) (pairs p qs))"
proof (induction qs arbitrary: p v)
  case (Cons q qs)
  have pq: "p \<le> q" "q \<le> length (kv_keys send)" using Cons.prems by auto
  have rest: "slice_loop send k v' v' q qs = Inr (map (\<lambda>(p, q). (p \<noteq> q, part send p q)) (pairs q qs))"
    if "v' = (if kv_lens send = [] then 0 else val_off send q)" for v'
    using Cons that by (intro Cons.IH) auto
  have vo: "val_off send p \<le> val_off send q" "val_off send q \<le> length (kv_vals send)"
    using val_off_mono[OF pq(1)] val_off_le[OF fit pq(2)] by auto
  show ?case
  proof (cases "p = q")
    case True
    then show ?thesis using rest[OF Cons.prems(3)[unfolded True]] by (simp add: part_same)
  next
    case False
    show ?thesis
    proof (cases "kv_lens send = []")
      case True
      then show ?thesis using False pq vo rest[of v] k Cons.prems(3)
        by (simp add: lseg_def part_def KVPairs_empty_def val_off_def seg_def)
    next
      case lens: False
      have len: "length (kv_lens send) = length (kv_keys send)" "length (kv_vals send) < 2 ^ 64"
        "list_all (\<lambda>l. 0 \<le> sint l) (kv_lens send)" using fit lens by (auto simp: vals_fit_def)
      have off: "val_off send q = v + lens_sum (seg p q (kv_lens send))"
        using lens Cons.prems(3) take_eq_seg[OF pq(1), of "kv_lens send"] by (simp add: val_off_def)
      have "fold add_len (seg p q (kv_lens send)) v = val_off send q"
        using fold_add_len[of "seg p q (kv_lens send)" v] off vo(2) len set_seg[of p q "kv_lens send"]
        by (auto simp: list_all_iff)
      then show ?thesis using False pq vo lens rest[of "val_off send q"] Cons.prems(3) len
        by (simp add: lseg_def part_def KVPairs_empty_def Let_def)
    qed
  qed
qed simp

lemma seg_lower_bounds:
  assumes "sorted keys" and "b \<le> e"
  shows "seg (lower_bound keys b) (lower_bound keys e) keys = filter (\<lambda>k. b \<le> k \<and> k < e) keys"
proof -
  let ?ys = "filter (\<lambda>k. k < e) keys"
  have le: "lower_bound keys b \<le> lower_bound keys e" using lower_bound_add[OF assms] by linarith
  have "filter (\<lambda>x. x < e \<and> x < b) keys = filter (\<lambda>x. x < b) keys"
    using assms(2) by (intro filter_cong) auto
  then have "filter (\<lambda>k. k < b) keys @ filter (\<lambda>k. b \<le> k \<and> k < e) keys
      = takeWhile (\<lambda>k. k < b) ?ys @ dropWhile (\<lambda>k. k < b) ?ys"
    using assms by (simp add: takeWhile_less_sorted dropWhile_less_sorted sorted_wrt_filter not_less conj_commute)
  also have "\<dots> = take (lower_bound keys e) keys"
    using assms(1) by (simp add: take_lower_bound takeWhile_less_sorted)
  also have "\<dots> = filter (\<lambda>k. k < b) keys @ seg (lower_bound keys b) (lower_bound keys e) keys"
    using take_eq_seg[OF le, of keys] assms(1) by (simp add: take_lower_bound takeWhile_less_sorted)
  finally show ?thesis by simp
qed

lemma concat_pairs:
  assumes "sorted (p # qs)" and "\<And>a b. a \<le> b \<Longrightarrow> f a \<le> f b"
  shows "concat (map (\<lambda>(p, q). seg (f p) (f q) xs) (pairs p qs)) = seg (f p) (f (last (p # qs))) xs"
  using assms(1)
proof (induction qs arbitrary: p)
  case (Cons q qs)
  have "q \<le> last (q # qs)" using Cons.prems by (cases qs) (auto simp: last_in_set)
  then show ?case using Cons assms(2) by (simp add: seg_append)
qed simp

lemma nth_pairs:
  "i < length qs \<Longrightarrow> pairs p qs ! i = ((p # qs) ! i, qs ! i)"
  by (induction qs arbitrary: p i) (auto simp: nth_Cons split: nat.splits)

lemma consecutive_mono: "consecutive b rs \<Longrightarrow> r \<in> set rs \<Longrightarrow> b \<le> r_begin r \<and> r_begin r \<le> r_end r"
  by (induction rs arbitrary: b) (auto intro: order_trans)

lemma lower_bound_mono: "sorted keys \<Longrightarrow> b \<le> e \<Longrightarrow> lower_bound keys b \<le> lower_bound keys e"
  using lower_bound_add[of keys b e] by linarith

lemma sorted_positions:
  "\<lbrakk>sorted keys; consecutive b rs\<rbrakk> \<Longrightarrow>
   sorted (lower_bound keys b # map (\<lambda>r. lower_bound keys (r_end r)) rs)"
proof (induction rs arbitrary: b)
  case (Cons r rs)
  then show ?case using lower_bound_mono[of keys b "r_end r"] by (auto intro: order_trans)
qed simp

lemma consecutive_begin:
  "consecutive b rs \<Longrightarrow> i < length rs \<Longrightarrow> (b # map r_end rs) ! i = r_begin (rs ! i)"
  by (induction rs arbitrary: b i) (auto simp: nth_Cons split: nat.splits)

text \<open>The slicer computes the parts between the positions of the range bounds.\<close>

lemma DefaultSlicer_parts:
  assumes keys: "sorted (kv_keys send)" and rs: "ranges_ok rs" and fit: "vals_fit send"
    and cover: "\<forall>k \<in> set (kv_keys send). r_begin (hd rs) \<le> k \<and> k < r_end (last rs)"
  shows "DefaultSlicer send rs = Inr (map (\<lambda>(p, q). (p \<noteq> q, part send p q))
           (pairs 0 (map (\<lambda>r. lower_bound (kv_keys send) (r_end r)) rs)))"
proof -
  let ?ks = "kv_keys send" and ?b = "r_begin (hd rs)"
  let ?ps = "map (\<lambda>r. lower_bound ?ks (r_end r)) rs"
  have ne: "rs \<noteq> []" using rs by (simp add: ranges_ok_def)
  have con: "consecutive ?b rs" by (rule ranges_ok_consecutive[OF rs])
  have p0: "lower_bound ?ks ?b = 0"
    using keys cover by (auto simp: lower_bound_filter filter_empty_conv)
  have pos: "slice_pos ?ks 0 None rs = Inr ?ps" using slice_pos_ok[OF keys con, of None] p0 by simp
  have p0': "(case rs of [] \<Rightarrow> 0 | r # _ \<Rightarrow> lower_bound ?ks (r_begin r)) = 0" using p0 ne by (cases rs) auto
  have "last (0 # ?ps) = lower_bound ?ks (r_end (last rs))" using ne by (simp add: last_map)
  also have "\<dots> = length ?ks" using keys cover by (auto simp: lower_bound_filter intro: filter_True)
  finally have last: "last (0 # ?ps) = length ?ks" .
  have srt: "sorted (0 # ?ps)" using sorted_positions[OF keys con] p0 by simp
  have le: "\<forall>q \<in> set ?ps. q \<le> length ?ks" using lower_bound_le[OF keys] by auto
  show ?thesis
  proof (cases "?ks = []")
    case True
    have "pairs 0 (replicate n 0) = replicate n (0, 0)" for n by (induction n) simp_all
    moreover have "lower_bound ([]::u64 list) v = 0" for v by (simp add: lower_bound_filter)
    then have ps: "?ps = replicate (length rs) 0" by (simp add: True map_replicate_const)
    ultimately have "map (\<lambda>(p, q). (p \<noteq> q, part send p q)) (pairs 0 ?ps) = replicate (length rs) (False, KVPairs_empty)"
      by (simp only: ps map_replicate prod.case part_same simp_thms)
    moreover have "DefaultSlicer send rs = Inr (replicate (length rs) (False, KVPairs_empty))"
      unfolding DefaultSlicer_def p0' Let_def pos rbind_simps check_def last if_P[OF refl] if_P[OF True] ..
    ultimately show ?thesis by simp
  next
    case False
    let ?k = "if kv_lens send = [] then length (kv_vals send) div length ?ks else 0"
    have "slice_loop send ?k 0 0 0 ?ps = Inr (map (\<lambda>(p, q). (p \<noteq> q, part send p q)) (pairs 0 ?ps))"
      by (rule slice_loop_ok[OF fit False refl srt le]) simp
    moreover have "if kv_lens send = [] then ?k * length ?ks = length (kv_vals send) else length ?ks = length (kv_lens send)"
      using fit by (auto simp: vals_fit_def)
    ultimately show ?thesis using pos p0' last False by (simp add: DefaultSlicer_def Let_def)
  qed
qed

lemma length_part:
  assumes "vals_fit kv" and "p \<le> q" and "q \<le> length (kv_keys kv)"
  shows "length (kv_keys (part kv p q)) = q - p"
    and "length (kv_vals (part kv p q)) = (if kv_lens kv = []
           then (q - p) * (length (kv_vals kv) div length (kv_keys kv)) else lens_sum (kv_lens (part kv p q)))"
    and "kv_lens kv \<noteq> [] \<Longrightarrow> length (kv_lens (part kv p q)) = q - p"
proof -
  have "val_off kv q \<le> length (kv_vals kv)" by (rule val_off_le[OF assms(1,3)])
  moreover have "kv_lens kv \<noteq> [] \<Longrightarrow> val_off kv q = val_off kv p + lens_sum (seg p q (kv_lens kv))"
    using take_eq_seg[OF assms(2), of "kv_lens kv"] by (simp add: val_off_def)
  ultimately show "length (kv_vals (part kv p q)) = (if kv_lens kv = []
           then (q - p) * (length (kv_vals kv) div length (kv_keys kv)) else lens_sum (kv_lens (part kv p q)))"
    by (auto simp: part_def val_off_def diff_mult_distrib)
qed (use assms in \<open>auto simp: part_def vals_fit_def split: if_splits\<close>)

lemma map_snd_parts:
  "map (g \<circ> snd) (map (\<lambda>(p, q). (p \<noteq> q, part send p q)) pqs) = map (\<lambda>(p, q). g (part send p q)) pqs"
  by auto

lemma slices_facts:
  assumes keys: "sorted (kv_keys send)" and rs: "ranges_ok rs" and fit: "vals_fit send"
    and cover: "\<forall>k \<in> set (kv_keys send). r_begin (hd rs) \<le> k \<and> k < r_end (last rs)"
    and sl: "sl = map (\<lambda>(p, q). (p \<noteq> q, part send p q))
           (pairs 0 (map (\<lambda>r. lower_bound (kv_keys send) (r_end r)) rs))"
  shows "i < length rs \<Longrightarrow> \<exists>p q. sl ! i = (p \<noteq> q, part send p q) \<and> p \<le> q \<and> q \<le> length (kv_keys send)
           \<and> kv_keys (part send p q) = filter (\<lambda>k. in_range k (rs ! i)) (kv_keys send)"
    and "concat (map (kv_keys \<circ> snd) sl) = kv_keys send" and "concat (map (kv_vals \<circ> snd) sl) = kv_vals send"
    and "concat (map (kv_lens \<circ> snd) sl) = kv_lens send"
proof -
  let ?ks = "kv_keys send" and ?b = "r_begin (hd rs)"
  let ?ps = "map (\<lambda>r. lower_bound ?ks (r_end r)) rs"
  have ne: "rs \<noteq> []" using rs by (simp add: ranges_ok_def)
  have con: "consecutive ?b rs" by (rule ranges_ok_consecutive[OF rs])
  have p0: "lower_bound ?ks ?b = 0" using keys cover by (auto simp: lower_bound_filter filter_empty_conv)
  have "last (0 # ?ps) = lower_bound ?ks (r_end (last rs))" using ne by (simp add: last_map)
  also have "\<dots> = length ?ks" using keys cover by (auto simp: lower_bound_filter intro: filter_True)
  finally have last: "last (0 # ?ps) = length ?ks" .
  have srt: "sorted (0 # ?ps)" using sorted_positions[OF keys con] p0 by simp
  show "concat (map (kv_keys \<circ> snd) sl) = ?ks"
    unfolding sl map_snd_parts unfolding part_def using concat_pairs[OF srt, where f = id and xs = ?ks] last by (simp add: id_def)
  show "concat (map (kv_vals \<circ> snd) sl) = kv_vals send"
    unfolding sl map_snd_parts unfolding part_def
    using concat_pairs[OF srt, where f = "val_off send" and xs = "kv_vals send", OF val_off_mono] last val_off_full[OF fit] by simp
  have "kv_lens send = [] \<or> length (kv_lens send) = length ?ks" using fit by (auto simp: vals_fit_def split: if_splits)
  then show "concat (map (kv_lens \<circ> snd) sl) = kv_lens send"
    unfolding sl map_snd_parts unfolding part_def using concat_pairs[OF srt, where f = id and xs = "kv_lens send"] last
    by (auto simp: id_def seg_def)
  show "\<exists>p q. sl ! i = (p \<noteq> q, part send p q) \<and> p \<le> q \<and> q \<le> length ?ks
      \<and> kv_keys (part send p q) = filter (\<lambda>k. in_range k (rs ! i)) ?ks" if i: "i < length rs" for i
  proof -
    let ?p = "lower_bound ?ks (r_begin (rs ! i))" and ?q = "lower_bound ?ks (r_end (rs ! i))"
    have "(0 # ?ps) ! i = ?p"
      using consecutive_begin[OF con i] i p0 by (cases i) auto
    then have "sl ! i = (?p \<noteq> ?q, part send ?p ?q)" using i unfolding sl by (simp add: nth_pairs)
    moreover have le: "r_begin (rs ! i) \<le> r_end (rs ! i)" using consecutive_mono[OF con nth_mem[OF i]] by simp
    moreover have "kv_keys (part send ?p ?q) = filter (\<lambda>k. in_range k (rs ! i)) ?ks"
      by (simp add: part_def seg_lower_bounds[OF keys le] in_range_def)
    ultimately show ?thesis using lower_bound_mono[OF keys le] lower_bound_le[OF keys] by blast
  qed
qed

section \<open>Properties of the slicer\<close>


definition demo_send :: "int KVPairs" where
  "demo_send = \<lparr>kv_keys = [1, 3, 7], kv_vals = [10, 11, 30, 70], kv_lens = [2, 1, 1], kv_priority = 0\<rparr>"

definition demo_ranges :: "Range list" where
  "demo_ranges = [\<lparr>r_begin = 0, r_end = 2\<rparr>, \<lparr>r_begin = 2, r_end = 5\<rparr>, \<lparr>r_begin = 5, r_end = 10\<rparr>]"


text \<open>C31: a request with a key at or above the end of the last range is not sent but fails a
  check.  As the ranges of an office end at \<open>quota * n\<close>, this includes \<^verbatim>\<open>kMaxKey\<close> itself.\<close>

theorem DefaultSlicer_rejects_high_key:
  assumes "sorted (kv_keys send)" and "ranges_ok rs" and "k \<in> set (kv_keys send)" and "r_end (last rs) \<le> k"
  shows "\<exists>e. DefaultSlicer send rs = Inl e"
proof -
  let ?ks = "kv_keys send"
  obtain r rs' where r: "rs = r # rs'" using assms(2) by (cases rs) (auto simp: ranges_ok_def)
  have pos: "slice_pos ?ks (lower_bound ?ks (r_begin r)) None rs = Inr (map (\<lambda>r. lower_bound ?ks (r_end r)) rs)"
    using slice_pos_ok[OF assms(1) ranges_ok_consecutive[OF assms(2)], of None] r by simp
  have "length (filter (\<lambda>x. x < r_end (last rs)) ?ks) < length ?ks"
    using assms(3,4) by (intro length_filter_less[of k]) auto
  then have "last (map (\<lambda>r. lower_bound ?ks (r_end r)) rs) \<noteq> length ?ks"
    using assms(1) r by (subst last_map) (simp_all only: lower_bound_filter, simp_all)
  then have "last (lower_bound ?ks (r_begin r) # map (\<lambda>r. lower_bound ?ks (r_end r)) rs) \<noteq> length ?ks"
    using r by simp
  moreover have "(case rs of [] \<Rightarrow> 0 | r # _ \<Rightarrow> lower_bound ?ks (r_begin r)) = lower_bound ?ks (r_begin r)"
    by (simp add: r)
  ultimately show ?thesis unfolding DefaultSlicer_def Let_def by (simp only: pos rbind_simps check_def if_False) blast
qed

theorem DefaultSlicer_rejects_high_key_witness:
  "\<exists>e. DefaultSlicer (demo_send\<lparr>kv_keys := [1, 3, kMaxKey]\<rparr>) (key_ranges 2) = Inl e"
  by (rule DefaultSlicer_rejects_high_key[where k = kMaxKey])
     (simp_all add: demo_send_def kMaxKey_def key_ranges_ok)

end
