(* ===== verification/Ps_Queue.thy ===== *)
theory Ps_Queue
  imports Ps_Message
begin

text \<open>
  The message queues of \<^verbatim>\<open>include/ps/internal/threadsafe_queue.h\<close>,
  \<^verbatim>\<open>threadsafe_pqueue.h\<close> and \<^verbatim>\<open>threadsafe_priority_queues.h\<close>.  Each operation runs under the
  queue's mutex, so an operation is one step; a pop on an empty blocking queue waits, which is
  the value \<open>None\<close>.  \<^verbatim>\<open>std::priority_queue\<close> is the array heap of the standard library:
  \<open>sift_up\<close> is the loop of \<^verbatim>\<open>push_heap\<close> and \<open>sift_down\<close> the hole-moving loop of \<^verbatim>\<open>pop_heap\<close>,
  with the comparison a parameter.  \<^verbatim>\<open>ThreadsafePriorityQueues::Pop\<close> takes its mutexes twice,
  first to find a queue and then to pop from it, so it is also given as two separate steps.
\<close>

section \<open>ThreadsafeQueue\<close>

definition tq_Push :: "'a \<Rightarrow> 'a list \<Rightarrow> 'a list" where
  "tq_Push v q = q @ [v]"

definition tq_WaitAndPop :: "'a list \<Rightarrow> ('a \<times> 'a list) option" where
  "tq_WaitAndPop q = (case q of [] \<Rightarrow> None | x # q' \<Rightarrow> Some (x, q'))"

section \<open>Array heaps\<close>

function sift_up :: "('a \<Rightarrow> 'a \<Rightarrow> bool) \<Rightarrow> 'a list \<Rightarrow> nat \<Rightarrow> 'a \<Rightarrow> 'a list" where
  "sift_up cmp xs hole v =
     (if 0 < hole \<and> cmp (xs ! ((hole - 1) div 2)) v
      then sift_up cmp (xs[hole := xs ! ((hole - 1) div 2)]) ((hole - 1) div 2) v
      else xs[hole := v])"
  by pat_completeness auto
termination
  by (relation "measure (\<lambda>(cmp, xs, hole, v). hole)") auto

declare sift_up.simps [simp del]

text \<open>
  \<open>sift_down cmp xs hole\<close> moves the hole to a leaf, pulling the greater child up at each level,
  and returns the array with the hole's final position.
\<close>

function sift_down :: "('a \<Rightarrow> 'a \<Rightarrow> bool) \<Rightarrow> 'a list \<Rightarrow> nat \<Rightarrow> 'a list \<times> nat" where
  "sift_down cmp xs hole =
     (if hole < (length xs - 1) div 2
      then let r = 2 * (hole + 1);
               c = (if cmp (xs ! r) (xs ! (r - 1)) then r - 1 else r)
           in sift_down cmp (xs[hole := xs ! c]) c
      else if even (length xs) \<and> hole = (length xs - 2) div 2
      then let r = 2 * (hole + 1) in (xs[hole := xs ! (r - 1)], r - 1)
      else (xs, hole))"
  by pat_completeness auto
termination
  by (relation "measure (\<lambda>(cmp, xs, hole). length xs - hole)") (auto simp: Let_def)

declare sift_down.simps [simp del]

definition heap_push :: "('a \<Rightarrow> 'a \<Rightarrow> bool) \<Rightarrow> 'a \<Rightarrow> 'a list \<Rightarrow> 'a list" where
  "heap_push cmp v xs = sift_up cmp (xs @ [v]) (length xs) v"

definition heap_pop :: "('a \<Rightarrow> 'a \<Rightarrow> bool) \<Rightarrow> 'a list \<Rightarrow> 'a list" where
  "heap_pop cmp xs =
     (if length xs \<le> 1 then []
      else let (ys, hole) = sift_down cmp (butlast xs) 0 in sift_up cmp ys hole (last xs))"

section \<open>ThreadsafePQueue\<close>

definition pq_Compare :: "Message \<Rightarrow> Message \<Rightarrow> bool" where
  "pq_Compare l r \<longleftrightarrow> m_priority (msg_meta l) \<le> m_priority (msg_meta r)"

definition pq_Push :: "Message \<Rightarrow> Message list \<Rightarrow> Message list" where
  "pq_Push v q = heap_push pq_Compare v q"

definition pq_WaitAndPop :: "Message list \<Rightarrow> (Message \<times> Message list) option" where
  "pq_WaitAndPop q = (case q of [] \<Rightarrow> None | x # _ \<Rightarrow> Some (x, heap_pop pq_Compare q))"

section \<open>ThreadsafePriorityQueues\<close>

record 'a tpq =
  tpq_queues :: "'a list list"
  tpq_num :: int

definition tpq_empty :: "'a tpq" where
  "tpq_empty = \<lparr>tpq_queues = [], tpq_num = 0\<rparr>"

definition tpq_Init :: "int \<Rightarrow> 'a tpq \<Rightarrow> 'a tpq" where
  "tpq_Init num q = \<lparr>tpq_queues = tpq_queues q @ replicate (nat num) [], tpq_num = num\<rparr>"

definition tpq_Push :: "'a \<Rightarrow> int \<Rightarrow> 'a tpq \<Rightarrow> 'a tpq res" where
  "tpq_Push v priority q =
     check (priority \<le> 0) ''priority <= 0''
       (let index = - priority in
        check (index \<le> tpq_num q - 1) ''index <= num_ - 1''
          (if nat index < length (tpq_queues q)
           then Inr (q\<lparr>tpq_queues := (tpq_queues q)[nat index := tpq_queues q ! nat index @ [v]]\<rparr>)
           else Inl OutOfBounds))"

text \<open>The scan of \<^verbatim>\<open>Pop\<close>: the index of the first queue that is not empty.\<close>

fun tpq_scan :: "'a list list \<Rightarrow> nat \<Rightarrow> nat \<Rightarrow> nat option" where
  "tpq_scan [] i n = None"
| "tpq_scan (q # qs) i n = (if n = 0 then None else if q \<noteq> [] then Some i else tpq_scan qs (Suc i) (n - 1))"

definition tpq_find :: "'a tpq \<Rightarrow> nat option" where
  "tpq_find q = tpq_scan (tpq_queues q) 0 (nat (tpq_num q))"

text \<open>The second half of \<^verbatim>\<open>Pop\<close>: \<^verbatim>\<open>front()\<close> and \<^verbatim>\<open>pop()\<close> on the queue found before.\<close>

definition tpq_take :: "nat \<Rightarrow> 'a tpq \<Rightarrow> ('a \<times> 'a tpq) res" where
  "tpq_take i q =
     (if i < length (tpq_queues q)
      then case tpq_queues q ! i of [] \<Rightarrow> Inl OutOfBounds
        | x # xs \<Rightarrow> Inr (x, q\<lparr>tpq_queues := (tpq_queues q)[i := xs]\<rparr>)
      else Inl OutOfBounds)"

definition tpq_Pop :: "'a tpq \<Rightarrow> ('a \<times> 'a tpq) option res" where
  "tpq_Pop q =
     (case tpq_find q of None \<Rightarrow> Inr None
      | Some i \<Rightarrow> rbind (tpq_take i q) (\<lambda>r. Inr (Some r)))"

section \<open>The heap loops\<close>

text \<open>\<open>f\<close> is the priority an element is compared by.\<close>

definition heap_inv :: "('a \<Rightarrow> int) \<Rightarrow> 'a list \<Rightarrow> bool" where
  "heap_inv f xs \<longleftrightarrow> (\<forall>i. 0 < i \<and> i < length xs \<longrightarrow> f (xs ! i) \<le> f (xs ! ((i - 1) div 2)))"

text \<open>
  \<open>heap_hole f xs h\<close>: every element but the one at \<open>h\<close> is in order with its parent, where a
  child of \<open>h\<close> is compared with the parent of \<open>h\<close>.
\<close>

definition heap_hole :: "('a \<Rightarrow> int) \<Rightarrow> 'a list \<Rightarrow> nat \<Rightarrow> bool" where
  "heap_hole f xs h \<longleftrightarrow>
     (\<forall>i. 0 < i \<and> i < length xs \<and> i \<noteq> h \<and> (i - 1) div 2 \<noteq> h \<longrightarrow> f (xs ! i) \<le> f (xs ! ((i - 1) div 2)))
     \<and> (0 < h \<longrightarrow> (\<forall>i. 0 < i \<and> i < length xs \<and> (i - 1) div 2 = h \<longrightarrow> f (xs ! i) \<le> f (xs ! ((h - 1) div 2))))"

definition hole_bound :: "('a \<Rightarrow> int) \<Rightarrow> 'a list \<Rightarrow> nat \<Rightarrow> 'a \<Rightarrow> bool" where
  "hole_bound f xs h v \<longleftrightarrow> (\<forall>i. 0 < i \<and> i < length xs \<and> (i - 1) div 2 = h \<longrightarrow> f (xs ! i) \<le> f v)"

lemma length_sift_up [simp]: "length (sift_up cmp xs h v) = length xs"
  by (induction cmp xs h v rule: sift_up.induct) (simp add: sift_up.simps)

lemma sift_up_stop:
  "\<not> (0 < h \<and> cmp (xs ! ((h - 1) div 2)) v) \<Longrightarrow> sift_up cmp xs h v = xs[h := v]"
  by (subst sift_up.simps) (rule if_not_P)

lemma mset_move:
  assumes "h < length xs" and "p < length xs" and "p \<noteq> h"
  shows "mset ((xs[h := xs ! p])[p := v]) = mset (xs[h := v])"
  using assms by (simp add: mset_update nth_list_update multiset_eq_iff in_set_conv_nth)

lemma mset_sift_up:
  "h < length xs \<Longrightarrow> mset (sift_up cmp xs h v) = mset (xs[h := v])"
proof (induction cmp xs h v rule: sift_up.induct)
  case (1 cmp xs h v)
  show ?case
  proof (cases "0 < h \<and> cmp (xs ! ((h - 1) div 2)) v")
    case True
    then have p: "(h - 1) div 2 < length xs" "(h - 1) div 2 \<noteq> h" using 1(2) by auto
    show ?thesis using 1(1)[OF True] 1(2) True p mset_move[OF 1(2) p]
      by (simp add: sift_up.simps[of cmp xs h v])
  next
    case False
    show ?thesis unfolding sift_up_stop[of h cmp xs v, OF False] ..
  qed
qed

lemma heap_hole_up:
  assumes hole: "heap_hole f xs h" and "0 < h" "h < length xs" and p: "p = (h - 1) div 2"
  shows "heap_hole f (xs[h := xs ! p]) p"
proof -
  have ph: "p < h" "p \<noteq> h" using assms by auto
  have ppar: "0 < p \<Longrightarrow> f (xs ! p) \<le> f (xs ! ((p - 1) div 2))"
    using hole ph assms(3) unfolding heap_hole_def by auto
  have sib: "f (xs ! i) \<le> f (xs ! p)" if "0 < i" "i < length xs" "(i - 1) div 2 = p" "i \<noteq> h" for i
    using hole that ph unfolding heap_hole_def by auto
  have chi: "f (xs ! i) \<le> f (xs ! p)" if "0 < i" "i < length xs" "(i - 1) div 2 = h" for i
    using hole that assms(2) p unfolding heap_hole_def by auto
  have oth: "f (xs ! i) \<le> f (xs ! ((i - 1) div 2))"
    if "0 < i" "i < length xs" "i \<noteq> h" "(i - 1) div 2 \<noteq> h" for i
    using hole that unfolding heap_hole_def by auto
  show ?thesis unfolding heap_hole_def
  proof (intro conjI impI allI; elim conjE)
    fix i assume i: "0 < i" "i < length (xs[h := xs ! p])" "i \<noteq> p" "(i - 1) div 2 \<noteq> p"
    then have "i \<noteq> h" using p by auto
    then show "f (xs[h := xs ! p] ! i) \<le> f (xs[h := xs ! p] ! ((i - 1) div 2))"
      using i chi[of i] oth[of i] assms(3) by (cases "(i - 1) div 2 = h") auto
  next
    fix i assume i: "0 < p" "0 < i" "i < length (xs[h := xs ! p])" "(i - 1) div 2 = p"
    have "(p - 1) div 2 \<noteq> h" using ph by auto
    then show "f (xs[h := xs ! p] ! i) \<le> f (xs[h := xs ! p] ! ((p - 1) div 2))"
      using i ppar sib[of i] assms(3) by (cases "i = h") auto
  qed
qed

lemma hole_bound_up:
  assumes hole: "heap_hole f xs h" and "0 < h" "h < length xs" and p: "p = (h - 1) div 2"
    and v: "f (xs ! p) \<le> f v"
  shows "hole_bound f (xs[h := xs ! p]) p v"
proof -
  have sib: "f (xs ! i) \<le> f (xs ! p)" if "0 < i" "i < length xs" "(i - 1) div 2 = p" "i \<noteq> h" for i
    using hole that assms(2) p unfolding heap_hole_def by auto
  show ?thesis unfolding hole_bound_def
  proof (intro allI impI; elim conjE)
    fix i assume i: "0 < i" "i < length (xs[h := xs ! p])" "(i - 1) div 2 = p"
    then show "f (xs[h := xs ! p] ! i) \<le> f v"
      using v sib[of i] assms(3) by (cases "i = h") auto
  qed
qed

lemma heap_hole_fill:
  assumes "heap_hole f xs h" and "hole_bound f xs h v" and "h < length xs"
    and "0 < h \<longrightarrow> f v \<le> f (xs ! ((h - 1) div 2))"
  shows "heap_inv f (xs[h := v])"
  unfolding heap_inv_def
proof (intro allI impI; elim conjE)
  fix i assume i: "0 < i" "i < length (xs[h := v])"
  have ne: "(i - 1) div 2 \<noteq> i" using i by auto
  show "f (xs[h := v] ! i) \<le> f (xs[h := v] ! ((i - 1) div 2))"
  proof (cases "i = h")
    case True
    then show ?thesis using assms(3,4) i ne by auto
  next
    case False
    then show ?thesis using assms(1,2,3) i ne unfolding heap_hole_def hole_bound_def
      by (cases "(i - 1) div 2 = h") auto
  qed
qed

lemma heap_inv_sift_up:
  "\<lbrakk>heap_hole f xs h; hole_bound f xs h v; h < length xs; cmp = (\<lambda>l r. f l \<le> f r)\<rbrakk>
   \<Longrightarrow> heap_inv f (sift_up cmp xs h v)"
proof (induction cmp xs h v rule: sift_up.induct)
  case (1 cmp xs h v)
  show ?case
  proof (cases "0 < h \<and> cmp (xs ! ((h - 1) div 2)) v")
    case True
    have "heap_inv f (sift_up cmp (xs[h := xs ! ((h - 1) div 2)]) ((h - 1) div 2) v)"
      using 1 True by (intro 1(1)) (auto intro!: heap_hole_up hole_bound_up)
    then show ?thesis using True by (simp add: sift_up.simps[of cmp xs h v])
  next
    case False
    then have "heap_inv f (xs[h := v])" using 1(2-5) by (intro heap_hole_fill) auto
    then show ?thesis unfolding sift_up_stop[of h cmp xs v, OF False] .
  qed
qed

lemma sift_up_to_front:
  "\<lbrakk>h < length xs; \<forall>x \<in> set xs. cmp x v\<rbrakk> \<Longrightarrow> sift_up cmp xs h v ! 0 = v"
proof (induction cmp xs h v rule: sift_up.induct)
  case (1 cmp xs h v)
  show ?case
  proof (cases "0 < h")
    case True
    have p: "(h - 1) div 2 < length xs" using 1(2) by auto
    then have c: "0 < h \<and> cmp (xs ! ((h - 1) div 2)) v" using 1(3) True by auto
    have "\<forall>x \<in> set (xs[h := xs ! ((h - 1) div 2)]). cmp x v"
      using 1(3) p set_update_subset_insert by fastforce
    then show ?thesis using 1(1)[OF c] p c by (simp add: sift_up.simps[of cmp xs h v])
  next
    case False
    then show ?thesis using 1(2) by (simp add: sift_up_stop)
  qed
qed

lemma heap_inv_down:
  assumes "heap_hole f xs h" and "h < length xs" and c: "c < length xs" "0 < c" "(c - 1) div 2 = h"
    and max: "\<And>i. \<lbrakk>0 < i; i < length xs; (i - 1) div 2 = h\<rbrakk> \<Longrightarrow> f (xs ! i) \<le> f (xs ! c)"
  shows "heap_hole f (xs[h := xs ! c]) c"
proof -
  have hc: "h < c" "h \<noteq> c" using c by auto
  have oth: "f (xs ! i) \<le> f (xs ! ((i - 1) div 2))"
    if "0 < i" "i < length xs" "i \<noteq> h" "(i - 1) div 2 \<noteq> h" for i
    using assms(1) that unfolding heap_hole_def by auto
  have cpar: "0 < h \<Longrightarrow> f (xs ! c) \<le> f (xs ! ((h - 1) div 2))"
    using assms(1) c unfolding heap_hole_def by auto
  show ?thesis unfolding heap_hole_def
  proof (intro conjI impI allI; elim conjE)
    fix i assume i: "0 < i" "i < length (xs[h := xs ! c])" "i \<noteq> c" "(i - 1) div 2 \<noteq> c"
    have "(i - 1) div 2 \<noteq> i" using i by auto
    then show "f (xs[h := xs ! c] ! i) \<le> f (xs[h := xs ! c] ! ((i - 1) div 2))"
      using i max[of i] oth[of i] cpar assms(2)
      by (cases "i = h"; cases "(i - 1) div 2 = h") auto
  next
    fix i assume i: "0 < c" "0 < i" "i < length (xs[h := xs ! c])" "(i - 1) div 2 = c"
    have "c < i" using i by auto
    then show "f (xs[h := xs ! c] ! i) \<le> f (xs[h := xs ! c] ! ((c - 1) div 2))"
      using i oth[of i] hc c by auto
  qed
qed

lemma children:
  "(0 < i \<and> (i - 1) div 2 = h) \<longleftrightarrow> (i = 2 * (h + 1) - 1 \<or> i = 2 * (h + 1))" for i h :: nat
  by auto

lemma sift_down_spec:
  assumes "sift_down cmp xs h = (ys, k)" and "heap_hole f xs h" and "h < length xs"
    and "cmp = (\<lambda>l r. f l \<le> f r)"
  shows "heap_hole f ys k \<and> k < length ys \<and> length ys = length xs \<and>
    (\<forall>i. 0 < i \<and> i < length ys \<longrightarrow> (i - 1) div 2 \<noteq> k) \<and> (\<forall>v. mset (ys[k := v]) = mset (xs[h := v]))"
  using assms
proof (induction cmp xs h arbitrary: ys k rule: sift_down.induct)
  case (1 cmp xs h)
  let ?r = "2 * (h + 1)"
  let ?c = "if cmp (xs ! ?r) (xs ! (?r - 1)) then ?r - 1 else ?r"
  consider (two) "h < (length xs - 1) div 2"
    | (one) "\<not> h < (length xs - 1) div 2" "even (length xs)" "h = (length xs - 2) div 2"
    | (none) "\<not> h < (length xs - 1) div 2" "\<not> (even (length xs) \<and> h = (length xs - 2) div 2)" by blast
  then show ?case
  proof cases
    case two
    have c: "?c < length xs" "0 < ?c" "(?c - 1) div 2 = h" "?c \<noteq> h" using two by auto
    have hole: "heap_hole f (xs[h := xs ! ?c]) ?c"
    proof (rule heap_inv_down[OF 1(3) 1(4) c(1-3)])
      fix i assume "0 < i" "i < length xs" "(i - 1) div 2 = h"
      then have "i = ?r - 1 \<or> i = ?r" using children by blast
      then show "f (xs ! i) \<le> f (xs ! ?c)" using 1(5) by auto
    qed
    have eq: "sift_down cmp (xs[h := xs ! ?c]) ?c = (ys, k)"
      using 1(2) unfolding sift_down.simps[of cmp xs h] Let_def if_P[OF two] .
    show ?thesis using 1(1)[OF two refl refl eq hole _ 1(5)] c mset_move[OF 1(4) c(1) c(4)] by simp
  next
    case one
    then have r: "?r = length xs" using 1(4) by presburger
    then have c: "?r - 1 < length xs" "0 < ?r - 1" "(?r - 1 - 1) div 2 = h" "?r - 1 \<noteq> h" "?r = length xs"
      by auto
    have "heap_hole f (xs[h := xs ! (?r - 1)]) (?r - 1)"
    proof (rule heap_inv_down[OF 1(3) 1(4) c(1-3)])
      fix i assume i: "0 < i" "i < length xs" "(i - 1) div 2 = h"
      then have "i = ?r - 1" using r children[of i h] by linarith
      then show "f (xs ! i) \<le> f (xs ! (?r - 1))" by simp
    qed
    moreover have "ys = xs[h := xs ! (?r - 1)]" "k = ?r - 1"
      using 1(2) unfolding sift_down.simps[of cmp xs h] Let_def if_not_P[OF one(1)]
        if_P[OF conjI[OF one(2,3)]] by auto
    moreover have "(i - 1) div 2 \<noteq> ?r - 1" if "i < length xs" for i using that r by presburger
    ultimately show ?thesis using c(1) mset_move[OF 1(4) c(1) c(4)] by simp
  next
    case none
    have "ys = xs" "k = h" using 1(2) none by (auto simp add: sift_down.simps[of cmp xs h])
    moreover have "(i - 1) div 2 \<noteq> h" if "0 < i" "i < length xs" for i
      using none that by presburger
    ultimately show ?thesis using 1(3,4) by blast
  qed
qed

lemma heap_hole_of_inv: "heap_inv f xs \<Longrightarrow> heap_hole f xs 0"
  unfolding heap_inv_def heap_hole_def by auto

lemma heap_inv_butlast: "heap_inv f xs \<Longrightarrow> heap_inv f (butlast xs)"
  unfolding heap_inv_def
proof (intro allI impI; elim conjE)
  fix i assume inv: "\<forall>i. 0 < i \<and> i < length xs \<longrightarrow> f (xs ! i) \<le> f (xs ! ((i - 1) div 2))"
    and i: "0 < i" "i < length (butlast xs)"
  have "(i - 1) div 2 < length (butlast xs)" using i by linarith
  then show "f (butlast xs ! i) \<le> f (butlast xs ! ((i - 1) div 2))"
    using inv i by (simp add: nth_butlast)
qed

lemma heap_push_spec:
  assumes "heap_inv f xs"
  shows "heap_inv f (heap_push (\<lambda>l r. f l \<le> f r) v xs)"
    and "mset (heap_push (\<lambda>l r. f l \<le> f r) v xs) = add_mset v (mset xs)"
proof -
  have "heap_hole f (xs @ [v]) (length xs)"
    unfolding heap_hole_def
  proof (intro conjI allI impI; elim conjE)
    fix i assume i: "0 < i" "i < length (xs @ [v])" "i \<noteq> length xs"
    then have "i < length xs" "(i - 1) div 2 < length xs" by auto
    then show "f ((xs @ [v]) ! i) \<le> f ((xs @ [v]) ! ((i - 1) div 2))"
      using assms i(1) unfolding heap_inv_def by (simp add: nth_append)
  next
    fix i assume "i < length (xs @ [v])" "0 < i" "(i - 1) div 2 = length xs"
    then show "f ((xs @ [v]) ! i) \<le> f ((xs @ [v]) ! ((length xs - 1) div 2))" by auto
  qed
  moreover have "hole_bound f (xs @ [v]) (length xs) v" unfolding hole_bound_def by auto
  ultimately show "heap_inv f (heap_push (\<lambda>l r. f l \<le> f r) v xs)"
    unfolding heap_push_def by (intro heap_inv_sift_up) auto
  show "mset (heap_push (\<lambda>l r. f l \<le> f r) v xs) = add_mset v (mset xs)"
    by (simp add: heap_push_def mset_sift_up)
qed

lemma heap_pop_spec:
  assumes inv: "heap_inv f (x # xs)"
  shows "heap_inv f (heap_pop (\<lambda>l r. f l \<le> f r) (x # xs))"
    and "mset (heap_pop (\<lambda>l r. f l \<le> f r) (x # xs)) = mset xs"
proof -
  let ?cmp = "\<lambda>l r. f l \<le> f r"
  let ?goal = "heap_inv f (heap_pop ?cmp (x # xs)) \<and> mset (heap_pop ?cmp (x # xs)) = mset xs"
  have ?goal
  proof (cases "xs = []")
    case True
    then show ?thesis by (simp add: heap_pop_def heap_inv_def)
  next
    case False
    let ?bs = "butlast (x # xs)"
    obtain ys k where sd: "sift_down ?cmp ?bs 0 = (ys, k)" by (rule prod.exhaust)
    have bs: "?bs = x # butlast xs" "0 < length ?bs" using False by auto
    have sp: "heap_hole f ys k" "k < length ys" "\<forall>i. 0 < i \<and> i < length ys \<longrightarrow> (i - 1) div 2 \<noteq> k"
      "mset (ys[k := last xs]) = mset (?bs[0 := last xs])"
      using sift_down_spec[OF sd heap_hole_of_inv[OF heap_inv_butlast[OF inv]] bs(2) refl] by auto
    have pop: "heap_pop ?cmp (x # xs) = sift_up ?cmp ys k (last xs)"
      using False sd by (simp add: heap_pop_def Suc_le_eq)
    have "hole_bound f ys k (last xs)" using sp(3) unfolding hole_bound_def by blast
    then have "heap_inv f (sift_up ?cmp ys k (last xs))" by (rule heap_inv_sift_up[OF sp(1) _ sp(2) refl])
    moreover have "add_mset (last xs) (mset (butlast xs)) = mset xs"
      using arg_cong[OF append_butlast_last_id[OF False], of mset] by simp
    then have "mset (sift_up ?cmp ys k (last xs)) = mset xs"
      using sp(2,4) bs False by (simp add: mset_sift_up)
    ultimately show ?thesis using pop by simp
  qed
  then show "heap_inv f (heap_pop ?cmp (x # xs))" "mset (heap_pop ?cmp (x # xs)) = mset xs" by auto
qed

lemma heap_inv_max:
  assumes "heap_inv f xs" and "i < length xs"
  shows "f (xs ! i) \<le> f (xs ! 0)"
  using assms(2)
proof (induction i rule: less_induct)
  case (less i)
  show ?case
  proof (cases "i = 0")
    case False
    then have "f (xs ! i) \<le> f (xs ! ((i - 1) div 2))"
      using assms(1) less.prems unfolding heap_inv_def by auto
    also have "\<dots> \<le> f (xs ! 0)" using False less.prems by (intro less.IH) auto
    finally show ?thesis .
  qed simp
qed

section \<open>Queue contracts\<close>

text \<open>
  What a receiving loop relies on: a first-in first-out queue, and a queue that hands out an
  element of maximal priority.  \<open>popn\<close> is the sequence of \<open>n\<close> successive pops.
\<close>

fun popn :: "('q \<Rightarrow> ('a \<times> 'q) option) \<Rightarrow> nat \<Rightarrow> 'q \<Rightarrow> 'a list" where
  "popn p 0 q = []"
| "popn p (Suc n) q = (case p q of None \<Rightarrow> [] | Some (x, q') \<Rightarrow> x # popn p n q')"

locale fifo_queue =
  fixes push :: "'a \<Rightarrow> 'q \<Rightarrow> 'q" and pop :: "'q \<Rightarrow> ('a \<times> 'q) option" and view :: "'q \<Rightarrow> 'a list"
  assumes view_push: "view (push x q) = view q @ [x]"
    and pop_None: "view q = [] \<Longrightarrow> pop q = None"
    and pop_Some: "view q = y # ys \<Longrightarrow> \<exists>q'. pop q = Some (y, q') \<and> view q' = ys"
begin

lemma popn_view: "popn pop n q = take n (view q)"
proof (induction n arbitrary: q)
  case (Suc n)
  show ?case
  proof (cases "view q")
    case Nil
    then show ?thesis by (simp add: pop_None)
  next
    case (Cons y ys)
    then show ?thesis using pop_Some[OF Cons] Suc by fastforce
  qed
qed simp

lemma view_pushes: "view (fold push xs q) = view q @ xs"
  by (induction xs arbitrary: q) (simp_all add: view_push)

lemma delivery_order: "view q = [] \<Longrightarrow> popn pop (length xs) (fold push xs q) = xs"
  by (simp add: popn_view view_pushes)

end

locale max_queue =
  fixes push :: "'a \<Rightarrow> 'q \<Rightarrow> 'q" and pop :: "'q \<Rightarrow> ('a \<times> 'q) option"
    and bag :: "'q \<Rightarrow> 'a multiset" and ok :: "'q \<Rightarrow> bool" and prio :: "'a \<Rightarrow> int"
  assumes push_ok: "ok q \<Longrightarrow> ok (push x q)"
    and push_bag: "ok q \<Longrightarrow> bag (push x q) = add_mset x (bag q)"
    and pop_empty: "ok q \<Longrightarrow> pop q = None \<longleftrightarrow> bag q = {#}"
    and pop_max: "ok q \<Longrightarrow> pop q = Some (x, q') \<Longrightarrow>
      ok q' \<and> bag q = add_mset x (bag q') \<and> (\<forall>y \<in># bag q. prio y \<le> prio x)"
begin

lemma popn_drains:
  "\<lbrakk>ok q; size (bag q) = n\<rbrakk>
   \<Longrightarrow> mset (popn pop n q) = bag q \<and> sorted_wrt (\<lambda>a b. prio b \<le> prio a) (popn pop n q)"
proof (induction n arbitrary: q)
  case (Suc n)
  then have "bag q \<noteq> {#}" by auto
  then obtain x q' where p: "pop q = Some (x, q')" using pop_empty[OF Suc.prems(1)] by fastforce
  from pop_max[OF Suc.prems(1) p]
  have q': "ok q'" "bag q = add_mset x (bag q')" "\<forall>y \<in># bag q. prio y \<le> prio x" by auto
  have IH: "mset (popn pop n q') = bag q'" "sorted_wrt (\<lambda>a b. prio b \<le> prio a) (popn pop n q')"
    using Suc.IH[OF q'(1)] Suc.prems(2) q'(2) by auto
  have "\<forall>y \<in> set (popn pop n q'). prio y \<le> prio x"
    using q'(2,3) IH(1) by (metis set_mset_mset union_iff add_mset_add_single)
  then show ?case using p q' IH by simp
qed simp

lemma pushes_ok: "ok q \<Longrightarrow> ok (fold push xs q) \<and> bag (fold push xs q) = bag q + mset xs"
  by (induction xs arbitrary: q) (simp_all add: push_ok push_bag)

lemma drains_pushes:
  assumes "ok q" and "bag q = {#}"
  shows "mset (popn pop (length xs) (fold push xs q)) = mset xs
    \<and> sorted_wrt (\<lambda>a b. prio b \<le> prio a) (popn pop (length xs) (fold push xs q))"
  using popn_drains[of "fold push xs q" "length xs"] pushes_ok[OF assms(1), of xs] assms(2) by simp

end

interpretation tq: fifo_queue tq_Push tq_WaitAndPop "\<lambda>q. q"
  by unfold_locales (auto simp: tq_Push_def tq_WaitAndPop_def)

abbreviation msg_prio :: "Message \<Rightarrow> int" where
  "msg_prio m \<equiv> m_priority (msg_meta m)"

lemma pq_Compare_prio: "pq_Compare = (\<lambda>l r. msg_prio l \<le> msg_prio r)"
  by (simp add: fun_eq_iff pq_Compare_def)

interpretation pq: max_queue pq_Push pq_WaitAndPop mset "heap_inv msg_prio" msg_prio
proof unfold_locales
  fix q x q' assume inv: "heap_inv msg_prio q" and p: "pq_WaitAndPop q = Some (x, q')"
  then obtain xs where q: "q = x # xs" and q': "q' = heap_pop pq_Compare (x # xs)"
    by (auto simp: pq_WaitAndPop_def split: list.splits)
  have "msg_prio y \<le> msg_prio x" if "y \<in> set q" for y
    using that heap_inv_max[OF inv] q by (metis in_set_conv_nth nth_Cons_0)
  then show "heap_inv msg_prio q' \<and> mset q = add_mset x (mset q') \<and> (\<forall>y\<in>#mset q. msg_prio y \<le> msg_prio x)"
    using heap_pop_spec[of msg_prio x xs] inv q q' by (simp add: pq_Compare_prio)
qed (auto simp: pq_Push_def pq_Compare_prio heap_push_spec pq_WaitAndPop_def split: list.splits)

section \<open>ThreadsafePriorityQueues\<close>

text \<open>The invariant: the queues in use exist.  The view: the queues in index order.\<close>

definition tpq_ok :: "'a tpq \<Rightarrow> bool" where
  "tpq_ok q \<longleftrightarrow> nat (tpq_num q) \<le> length (tpq_queues q)"

definition tpq_view :: "'a tpq \<Rightarrow> 'a list" where
  "tpq_view q = concat (take (nat (tpq_num q)) (tpq_queues q))"

lemma tpq_scan_None: "tpq_scan qs i n = None \<Longrightarrow> concat (take n qs) = []"
  by (induction qs i n rule: tpq_scan.induct) (auto simp: take_Cons split: nat.splits if_splits)

lemma tpq_scan_Some:
  "tpq_scan qs i n = Some k \<Longrightarrow>
   \<exists>d. k = i + d \<and> d < n \<and> d < length qs \<and> qs ! d \<noteq> [] \<and> (\<forall>j < d. qs ! j = [])"
proof (induction qs i n rule: tpq_scan.induct)
  case (2 q qs i n)
  show ?case
  proof (cases "q \<noteq> []")
    case True
    then show ?thesis using 2(2) by (intro exI[of _ 0]) (auto split: if_splits)
  next
    case False
    then obtain d where "k = Suc i + d" "d < n - 1" "d < length qs" "qs ! d \<noteq> []" "\<forall>j < d. qs ! j = []"
      using 2 by (auto split: if_splits)
    then show ?thesis using False
      by (intro exI[of _ "Suc d"]) (auto simp: less_Suc_eq_0_disj)
  qed
qed simp

lemma concat_first_nonempty:
  assumes "d < length qs" and "\<forall>j < d. qs ! j = []"
  shows "concat qs = qs ! d @ concat (drop (Suc d) qs)"
proof -
  have "concat (take d qs) = []" using assms by (auto simp: in_set_conv_nth)
  then show ?thesis using id_take_nth_drop[OF assms(1)]
    by (metis append_Nil concat.simps(2) concat_append)
qed

lemma concat_update_first:
  assumes "d < length qs" and "\<forall>j < d. qs ! j = []"
  shows "concat (qs[d := xs]) = xs @ concat (drop (Suc d) qs)"
  using concat_first_nonempty[of d "qs[d := xs]"] assms by simp

lemma tpq_Pop_view:
  assumes ok: "tpq_ok q"
  shows "tpq_Pop q = Inr None \<and> tpq_view q = [] \<or>
    (\<exists>x q'. tpq_Pop q = Inr (Some (x, q')) \<and> tpq_ok q' \<and> tpq_view q = x # tpq_view q')"
proof (cases "tpq_find q")
  case None
  then show ?thesis using tpq_scan_None by (auto simp: tpq_Pop_def tpq_find_def tpq_view_def)
next
  case (Some k)
  let ?n = "nat (tpq_num q)" and ?qs = "tpq_queues q"
  have k: "k < ?n" "k < length ?qs" "?qs ! k \<noteq> []" "\<forall>j < k. ?qs ! j = []"
    using tpq_scan_Some[of ?qs 0 ?n k] Some by (auto simp: tpq_find_def)
  obtain x xs where x: "?qs ! k = x # xs" using k(3) by (cases "?qs ! k") auto
  have t: "k < length (take ?n ?qs)" "\<forall>j < k. take ?n ?qs ! j = []" using k by auto
  have "concat (take ?n ?qs) = x # concat (take ?n (?qs[k := xs]))"
    using concat_first_nonempty[OF t] concat_update_first[OF t, of xs] k x by (simp add: take_update_swap)
  then show ?thesis using Some x k ok by (simp add: tpq_Pop_def tpq_take_def tpq_view_def tpq_ok_def)
qed

definition tpq_pop_some :: "'a tpq \<Rightarrow> ('a \<times> 'a tpq) option" where
  "tpq_pop_some q = (case tpq_Pop q of Inr r \<Rightarrow> r | Inl _ \<Rightarrow> None)"

lemma tpq_popn_view: "tpq_ok q \<Longrightarrow> popn tpq_pop_some n q = take n (tpq_view q)"
proof (induction n arbitrary: q)
  case (Suc n)
  then show ?case using tpq_Pop_view[OF Suc.prems] by (auto simp: tpq_pop_some_def)
qed simp

lemma tpq_Push_ok:
  assumes "tpq_ok q" and "p \<le> 0" and "- p < tpq_num q"
  shows "tpq_Push v p q = Inr (q\<lparr>tpq_queues := (tpq_queues q)[nat (- p) := tpq_queues q ! nat (- p) @ [v]]\<rparr>)"
  using assms by (auto simp: tpq_Push_def tpq_ok_def Let_def)

lemma tpq_pushes:
  assumes "\<forall>vp \<in> set vps. snd vp \<le> 0 \<and> - snd vp < n"
  shows "rfold (\<lambda>(v, p). tpq_Push v p) vps (tpq_Init n tpq_empty) =
    Inr \<lparr>tpq_queues = map (\<lambda>i. map fst (filter (\<lambda>vp. - snd vp = int i) vps)) [0..<nat n], tpq_num = n\<rparr>"
  using assms
proof (induction vps rule: rev_induct)
  case Nil
  then show ?case by (simp add: tpq_Init_def tpq_empty_def map_replicate_const)
next
  case (snoc vp vps)
  obtain v p where vp: "vp = (v, p)" by (rule prod.exhaust)
  let ?qs = "\<lambda>vps. map (\<lambda>i. map fst (filter (\<lambda>vp. - snd vp = int i) vps)) [0..<nat n]"
  have "p \<le> 0" "- p < n" using snoc.prems vp by auto
  then obtain k where p: "p = - int k" "k < nat n" by (intro that[of "nat (- p)"]) auto
  have "tpq_Push v p \<lparr>tpq_queues = ?qs vps, tpq_num = n\<rparr>
    = Inr \<lparr>tpq_queues = (?qs vps)[nat (- p) := ?qs vps ! nat (- p) @ [v]], tpq_num = n\<rparr>"
    using p by (subst tpq_Push_ok) (auto simp: tpq_ok_def)
  moreover have "(?qs vps)[nat (- p) := ?qs vps ! nat (- p) @ [v]] = ?qs (vps @ [vp])"
    unfolding p vp using p(2) by - (rule nth_equalityI, auto simp: nth_list_update)
  ultimately show ?case using snoc vp by (simp add: rfold_append)
qed

lemma concat_buckets:
  fixes f :: "'a \<Rightarrow> nat"
  assumes "\<forall>x \<in> set xs. f x < n"
  shows "concat (map (\<lambda>i. filter (\<lambda>x. f x = i) xs) [0..<n]) = sort_key f xs"
proof -
  let ?ys = "\<lambda>n. concat (map (\<lambda>i. filter (\<lambda>x. f x = i) xs) [0..<n])"
  have fil: "filter (\<lambda>x. k = f x) (?ys n) = (if k < n then filter (\<lambda>x. k = f x) xs else [])" for k n
    by (induction n) (auto simp: filter_empty_conv intro: filter_cong)
  have set_ys: "set (?ys n) = {x \<in> set xs. f x < n}" for n by auto
  have sorted: "sorted (map f (?ys n))" for n
  proof (induction n)
    case (Suc n)
    have "sorted (map f (filter (\<lambda>x. f x = n) xs))" by (rule sorted_map_same)
    moreover have "\<forall>x \<in> set (?ys n). \<forall>y \<in> set (filter (\<lambda>x. f x = n) xs). f x \<le> f y"
      unfolding set_ys by auto
    ultimately show ?case using Suc by (simp add: sorted_append)
  qed simp
  have "mset (?ys n) = mset xs"
  proof (rule multiset_eqI)
    fix x
    have "count (mset (filter (\<lambda>y. f x = f y) (?ys n))) x = count (mset (filter (\<lambda>y. f x = f y) xs)) x"
      using assms unfolding fil by (auto simp: count_eq_zero_iff)
    then show "count (mset (?ys n)) x = count (mset xs) x" by (simp only: mset_filter count_filter_mset simp_thms if_True)
  qed
  moreover have "\<forall>k \<in> set (?ys n). filter (\<lambda>x. f k = f x) (?ys n) = filter (\<lambda>x. f k = f x) xs"
    unfolding fil set_ys by simp
  ultimately show ?thesis using sorted[of n] by (intro properties_for_sort_key[symmetric]) auto
qed

section \<open>Properties of the queues\<close>

text \<open>C16: whatever batch of messages is pushed on an empty \<^verbatim>\<open>ThreadsafePQueue\<close>, popping as many
  times returns every message exactly once, the greater priorities first.\<close>

theorem pq_delivers_by_priority:
  "mset (popn pq_WaitAndPop (length ms) (fold pq_Push ms [])) = mset ms
   \<and> sorted_wrt (\<lambda>a b. msg_prio b \<le> msg_prio a) (popn pq_WaitAndPop (length ms) (fold pq_Push ms []))"
  by (rule pq.drains_pushes) (simp_all add: heap_inv_def)



text \<open>C17: \<^verbatim>\<open>ThreadsafePriorityQueues\<close> used by one consumer is a strict-priority scheduler.  After
  \<^verbatim>\<open>Init\<close>, every push with a priority in range succeeds, and popping returns the pushed values
  by decreasing priority and first-in first-out within a priority.\<close>

theorem tpq_strict_priority_fifo:
  assumes "\<forall>vp \<in> set vps. snd vp \<le> 0 \<and> - snd vp < n"
  shows "\<exists>q. rfold (\<lambda>(v, p). tpq_Push v p) vps (tpq_Init n tpq_empty) = Inr q
    \<and> popn tpq_pop_some (length vps) q = map fst (sort_key (\<lambda>vp. nat (- snd vp)) vps)"
proof -
  let ?q = "\<lparr>tpq_queues = map (\<lambda>i. map fst (filter (\<lambda>vp. - snd vp = int i) vps)) [0..<nat n], tpq_num = n\<rparr>"
  have "filter (\<lambda>vp. - snd vp = int i) vps = filter (\<lambda>vp. nat (- snd vp) = i) vps" for i
    using assms by (auto intro!: filter_cong)
  then have "tpq_view ?q = map fst (concat (map (\<lambda>i. filter (\<lambda>vp. nat (- snd vp) = i) vps) [0..<nat n]))"
    by (simp add: tpq_view_def map_concat comp_def)
  also have "\<dots> = map fst (sort_key (\<lambda>vp. nat (- snd vp)) vps)"
    using assms by (subst concat_buckets) auto
  finally have "popn tpq_pop_some (length vps) ?q = map fst (sort_key (\<lambda>vp. nat (- snd vp)) vps)"
    by (subst tpq_popn_view) (simp_all add: tpq_ok_def)
  then show ?thesis using tpq_pushes[OF assms] by blast
qed

theorem tpq_strict_priority_fifo_witness:
  "\<exists>q. rfold (\<lambda>(v, p). tpq_Push v p) [(CHR ''a'', - 1), (CHR ''b'', 0), (CHR ''c'', - 1)] (tpq_Init 2 tpq_empty) = Inr q
    \<and> popn tpq_pop_some 3 q = [CHR ''b'', CHR ''a'', CHR ''c'']"
  using tpq_strict_priority_fifo[of "[(CHR ''a'', - 1), (CHR ''b'', 0), (CHR ''c'', - 1)]" 2]
  by (simp add: numeral_3_eq_3 del: rfold.simps popn.simps)



end
