(* ===== verification/Ps_Customer.thy ===== *)
theory Ps_Customer
  imports Ps_Queue Ps_Postoffice
begin

text \<open>
  A customer of a node (\<^verbatim>\<open>src/customer.cc\<close>, \<^verbatim>\<open>include/ps/internal/customer.h\<close>): the queue of
  received messages, the tracker that counts the responses of each request, and the receiving
  thread.  The application behind the customer is its receive handle, a parameter over the
  application's state \<open>'a\<close> and the customer.  \<open>Receiving_step\<close> is one round of the receiving
  loop; \<^verbatim>\<open>WaitRequest\<close> blocks, so it is the condition it waits for.
\<close>

record Customer =
  c_app_id :: int
  c_customer_id :: int
  c_recv_queue :: "Message list"
  c_tracker :: "(int \<times> int) list"
  c_running :: bool

type_synonym 'a world = "'a \<times> Customer"

type_synonym 'a recv_handle = "Message \<Rightarrow> 'a world \<Rightarrow> 'a world res"

definition Customer_new :: "int \<Rightarrow> int \<Rightarrow> Customer" where
  "Customer_new app_id customer_id = \<lparr>c_app_id = app_id, c_customer_id = customer_id,
     c_recv_queue = [], c_tracker = [], c_running = True\<rparr>"

text \<open>The constructor registers the customer; the destructor removes it and queues the stop message.\<close>

definition Customer_ctor ::
  "int \<Rightarrow> int \<Rightarrow> Customer Postoffice \<Rightarrow> (Customer \<times> Customer Postoffice) res" where
  "Customer_ctor app_id customer_id po =
     (let c = Customer_new app_id customer_id in
      rbind (AddCustomer app_id customer_id c po) (\<lambda>po'. Inr (c, po')))"

definition Accept :: "Message \<Rightarrow> Customer \<Rightarrow> Customer" where
  "Accept recved c = c\<lparr>c_recv_queue := pq_Push recved (c_recv_queue c)\<rparr>"

definition terminate_msg :: Message where
  "terminate_msg = Message_init\<lparr>msg_meta := Meta_init\<lparr>m_control := Control_init\<lparr>ctl_cmd := TERMINATE\<rparr>\<rparr>\<rparr>"

definition Customer_dtor :: "Customer \<Rightarrow> 'c Postoffice \<Rightarrow> Customer \<times> 'c Postoffice" where
  "Customer_dtor c po =
     (c\<lparr>c_recv_queue := pq_Push terminate_msg (c_recv_queue c)\<rparr>,
      RemoveCustomer (c_app_id c) (c_customer_id c) po)"

definition NewRequest :: "'c Postoffice \<Rightarrow> int \<Rightarrow> Customer \<Rightarrow> (int \<times> Customer) res" where
  "NewRequest po recver c =
     rbind (GetNodeIDs po recver) (\<lambda>ids.
       let t = c_tracker c @ [(int (length ids), 0)]
       in Inr (int (length t) - 1, c\<lparr>c_tracker := t\<rparr>))"

definition tracker_at :: "Customer \<Rightarrow> int \<Rightarrow> (int \<times> int) res" where
  "tracker_at c ts =
     (if 0 \<le> ts \<and> nat ts < length (c_tracker c) then Inr (c_tracker c ! nat ts) else Inl OutOfBounds)"

definition WaitRequest :: "Customer \<Rightarrow> int \<Rightarrow> bool res" where
  "WaitRequest c ts = rbind (tracker_at c ts) (\<lambda>(first, second). Inr (first = second))"

definition NumResponse :: "Customer \<Rightarrow> int \<Rightarrow> int res" where
  "NumResponse c ts = rbind (tracker_at c ts) (\<lambda>(first, second). Inr second)"

definition AddResponse :: "int \<Rightarrow> int \<Rightarrow> Customer \<Rightarrow> Customer res" where
  "AddResponse ts num c =
     rbind (tracker_at c ts) (\<lambda>(first, second).
       Inr (c\<lparr>c_tracker := (c_tracker c)[nat ts := (first, second + num)]\<rparr>))"

text \<open>One round of \<^verbatim>\<open>Receiving\<close>; \<open>None\<close> when it waits on an empty queue or has stopped.\<close>

definition Receiving_step :: "'a recv_handle \<Rightarrow> 'a world \<Rightarrow> 'a world option res" where
  "Receiving_step handle w =
     (case w of (a, c) \<Rightarrow>
      if \<not> c_running c then Inr None
      else case pq_WaitAndPop (c_recv_queue c) of None \<Rightarrow> Inr None
      | Some (recv, q) \<Rightarrow>
          let c1 = c\<lparr>c_recv_queue := q\<rparr> in
          if \<not> Control_empty (m_control (msg_meta recv)) \<and> ctl_cmd (m_control (msg_meta recv)) = TERMINATE
          then Inr (Some (a, c1\<lparr>c_running := False\<rparr>))
          else rbind (handle recv (a, c1)) (\<lambda>(a2, c2).
            if \<not> m_request (msg_meta recv)
            then rbind (AddResponse (m_timestamp (msg_meta recv)) 1 c2) (\<lambda>c3. Inr (Some (a2, c3)))
            else Inr (Some (a2, c2))))"

fun Receiving :: "'a recv_handle \<Rightarrow> nat \<Rightarrow> 'a world \<Rightarrow> 'a world res" where
  "Receiving handle 0 w = Inr w"
| "Receiving handle (Suc n) w =
     rbind (Receiving_step handle w) (\<lambda>r. case r of None \<Rightarrow> Inr w | Some w' \<Rightarrow> Receiving handle n w')"

section \<open>The tracker\<close>

lemma tracker_at_new:
  "NewRequest po recver c = Inr (ts, c') \<Longrightarrow>
     \<exists>ids. GetNodeIDs po recver = Inr ids \<and> ts = int (length (c_tracker c))
       \<and> c_tracker c' = c_tracker c @ [(int (length ids), 0)] \<and> tracker_at c' ts = Inr (int (length ids), 0)"
  by (auto simp: NewRequest_def Let_def tracker_at_def)

definition valid_ts :: "Customer \<Rightarrow> int \<Rightarrow> bool" where
  "valid_ts c ts \<longleftrightarrow> 0 \<le> ts \<and> ts < int (length (c_tracker c))"

lemma tracker_at_valid: "valid_ts c ts \<Longrightarrow> tracker_at c ts = Inr (c_tracker c ! nat ts)"
  by (auto simp: valid_ts_def tracker_at_def)

lemma tracker_at_invalid: "\<not> valid_ts c ts \<Longrightarrow> tracker_at c ts = Inl OutOfBounds"
  by (auto simp: valid_ts_def tracker_at_def)

lemma AddResponse_ok:
  assumes "valid_ts c ts"
  shows "AddResponse ts n c =
    Inr (c\<lparr>c_tracker := (c_tracker c)[nat ts := (fst (c_tracker c ! nat ts), snd (c_tracker c ! nat ts) + n)]\<rparr>)"
  using assms by (simp add: AddResponse_def tracker_at_valid split: prod.splits)

lemma AddResponse_other_ts:
  assumes "AddResponse ts n c = Inr c'"
  shows "tracker_at c' ts' = (if ts' = ts then map_sum id (\<lambda>(f, s). (f, s + n)) (tracker_at c ts) else tracker_at c ts')"
proof -
  have v: "valid_ts c ts" using assms tracker_at_invalid[of c ts] by (cases "valid_ts c ts") (auto simp: AddResponse_def)
  show ?thesis using assms v unfolding AddResponse_ok[OF v]
    by (auto simp: tracker_at_def valid_ts_def nth_list_update eq_nat_nat_iff split: prod.splits)
qed

section \<open>The receiving loop\<close>

definition is_response :: "int \<Rightarrow> Message \<Rightarrow> bool" where
  "is_response ts m \<longleftrightarrow> \<not> m_request (msg_meta m) \<and> m_timestamp (msg_meta m) = ts"

definition is_stop :: "Message \<Rightarrow> bool" where
  "is_stop m \<longleftrightarrow> \<not> Control_empty (m_control (msg_meta m)) \<and> ctl_cmd (m_control (msg_meta m)) = TERMINATE"

definition countable_msg :: "Customer \<Rightarrow> Message \<Rightarrow> bool" where
  "countable_msg c m \<longleftrightarrow> \<not> is_stop m \<and> (m_request (msg_meta m) \<or> valid_ts c (m_timestamp (msg_meta m)))"

text \<open>The tracker with the responses of a batch counted.\<close>

definition counted :: "Message multiset \<Rightarrow> (int \<times> int) list \<Rightarrow> (int \<times> int) list" where
  "counted M t = map (\<lambda>(i, f, s). (f, s + int (size (filter_mset (is_response (int i)) M)))) (enumerate 0 t)"

lemma length_counted [simp]: "length (counted M t) = length t"
  by (simp add: counted_def)

lemma nth_counted:
  "i < length t \<Longrightarrow> counted M t ! i = (fst (t ! i), snd (t ! i) + int (size (filter_mset (is_response (int i)) M)))"
  by (simp add: counted_def nth_enumerate_eq split: prod.splits)

lemma counted_empty [simp]: "counted {#} t = t"
  by (rule nth_equalityI) (simp_all add: nth_counted)

lemma counted_add_request: "m_request (msg_meta m) \<Longrightarrow> counted (add_mset m M) t = counted M t"
  by (rule nth_equalityI) (simp_all add: nth_counted is_response_def)

lemma counted_add_response:
  assumes "\<not> m_request (msg_meta m)" and "m_timestamp (msg_meta m) = int i" and "i < length t"
  shows "counted (add_mset m M) t = counted M (t[i := (fst (t ! i), snd (t ! i) + 1)])"
  using assms by (intro nth_equalityI) (auto simp: nth_counted nth_list_update is_response_def)

locale receiver =
  fixes handle :: "'a recv_handle"
  assumes handle_keeps: "\<exists>a'. handle m (a, c) = Inr (a', c)"
begin

lemma step_counts:
  assumes "c_running c" and pop: "pq_WaitAndPop (c_recv_queue c) = Some (m, q)" and m: "countable_msg c m"
  shows "\<exists>a' c'. Receiving_step handle (a, c) = Inr (Some (a', c')) \<and> c_running c' \<and> c_recv_queue c' = q
    \<and> length (c_tracker c') = length (c_tracker c)
    \<and> (\<forall>M. counted (add_mset m M) (c_tracker c) = counted M (c_tracker c'))"
proof -
  let ?c1 = "c\<lparr>c_recv_queue := q\<rparr>"
  obtain a' where h: "handle m (a, ?c1) = Inr (a', ?c1)" using handle_keeps by blast
  show ?thesis
  proof (cases "m_request (msg_meta m)")
    case True
    then show ?thesis using assms h
      by (auto simp: Receiving_step_def countable_msg_def is_stop_def Let_def counted_add_request)
  next
    case False
    let ?ts = "m_timestamp (msg_meta m)"
    have "valid_ts ?c1 ?ts" using m False by (simp add: countable_msg_def valid_ts_def)
    moreover from this have "?ts = int (nat ?ts)" "nat ?ts < length (c_tracker c)" by (auto simp: valid_ts_def)
    ultimately show ?thesis using assms h False counted_add_response[OF False]
      by (auto simp: Receiving_step_def countable_msg_def is_stop_def Let_def AddResponse_ok)
  qed
qed

lemma receiving_counts:
  "\<lbrakk>c_running c; heap_inv msg_prio (c_recv_queue c); \<forall>m \<in> set (c_recv_queue c). countable_msg c m;
    n = length (c_recv_queue c)\<rbrakk> \<Longrightarrow>
   \<exists>a' c'. Receiving handle n (a, c) = Inr (a', c') \<and> c_recv_queue c' = []
     \<and> c_tracker c' = counted (mset (c_recv_queue c)) (c_tracker c)"
proof (induction n arbitrary: a c)
  case (Suc n)
  then have "mset (c_recv_queue c) \<noteq> {#}" by auto
  then obtain m q where pop: "pq_WaitAndPop (c_recv_queue c) = Some (m, q)"
    using pq.pop_empty[OF Suc.prems(2)] by fastforce
  from pq.pop_max[OF Suc.prems(2) pop] have q: "heap_inv msg_prio q"
    "mset (c_recv_queue c) = add_mset m (mset q)" by auto
  then have sets: "set (c_recv_queue c) = insert m (set q)" "length (c_recv_queue c) = Suc (length q)"
    by (metis set_mset_mset set_mset_add_mset_insert, metis size_mset size_add_mset)
  obtain a1 c1 where s: "Receiving_step handle (a, c) = Inr (Some (a1, c1))" "c_running c1" "c_recv_queue c1 = q"
    "length (c_tracker c1) = length (c_tracker c)"
    "counted (add_mset m (mset q)) (c_tracker c) = counted (mset q) (c_tracker c1)"
    using step_counts[OF Suc.prems(1) pop, of a] Suc.prems(3) sets(1) by auto
  have "\<forall>m \<in> set q. countable_msg c1 m"
    using Suc.prems(3) sets(1) s(4) by (auto simp: countable_msg_def valid_ts_def)
  then have "\<exists>a' c'. Receiving handle n (a1, c1) = Inr (a', c') \<and> c_recv_queue c' = []
      \<and> c_tracker c' = counted (mset (c_recv_queue c1)) (c_tracker c1)"
    using s q(1) sets(2) Suc.prems(4) by (intro Suc.IH) auto
  then show ?case using s q(2) by simp
qed simp

end

text \<open>
  A handle that may fail but never changes its customer and does not look at the queue.  For such a
  handle the receiving loop is \<open>handle_one\<close> over the queued messages, in the order the queue hands
  them out.
\<close>

lemma rbind_assoc: "rbind (rbind m f) g = rbind m (\<lambda>x. rbind (f x) g)"
  by (cases m) simp_all

definition handle_one :: "'a recv_handle \<Rightarrow> Message \<Rightarrow> 'a world \<Rightarrow> 'a world res" where
  "handle_one handle m w =
     rbind (handle m w) (\<lambda>(a, c).
       if \<not> m_request (msg_meta m)
       then rbind (AddResponse (m_timestamp (msg_meta m)) 1 c) (\<lambda>c'. Inr (a, c'))
       else Inr (a, c))"

locale queue_blind =
  fixes handle :: "'a recv_handle" and act :: "Message \<Rightarrow> 'a \<Rightarrow> Customer \<Rightarrow> 'a res"
  assumes handle_act: "handle m (a, c) = rbind (act m a (c\<lparr>c_recv_queue := []\<rparr>)) (\<lambda>a'. Inr (a', c))"
begin

lemma handle_one_queue:
  "handle_one handle m (a, c\<lparr>c_recv_queue := q\<rparr>) =
     rbind (handle_one handle m (a, c\<lparr>c_recv_queue := []\<rparr>)) (\<lambda>(a', c'). Inr (a', c'\<lparr>c_recv_queue := q\<rparr>))"
  by (cases "act m a (c\<lparr>c_recv_queue := []\<rparr>)")
     (auto simp: handle_one_def handle_act AddResponse_def tracker_at_def split: prod.splits)

lemma step_is_handle_one:
  assumes "c_running c" and "pq_WaitAndPop (c_recv_queue c) = Some (m, q)" and "\<not> is_stop m"
  shows "Receiving_step handle (a, c) =
    rbind (handle_one handle m (a, c\<lparr>c_recv_queue := []\<rparr>)) (\<lambda>(a', c'). Inr (Some (a', c'\<lparr>c_recv_queue := q\<rparr>)))"
proof -
  have "Receiving_step handle (a, c) = rbind (handle_one handle m (a, c\<lparr>c_recv_queue := q\<rparr>)) (\<lambda>w. Inr (Some w))"
    using assms by (cases "handle m (a, c\<lparr>c_recv_queue := q\<rparr>)"; cases "m_request (msg_meta m)")
      (auto simp: Receiving_step_def handle_one_def Let_def is_stop_def rbind_assoc)
  then show ?thesis unfolding handle_one_queue[where q = q and c = c]
    by (cases "handle_one handle m (a, c\<lparr>c_recv_queue := []\<rparr>)") (auto split: prod.splits)
qed

lemma handle_one_keeps:
  "handle_one handle m (a, c) = Inr (a', c') \<Longrightarrow> c_running c' = c_running c \<and> c_recv_queue c' = c_recv_queue c"
  by (auto simp: handle_one_def handle_act AddResponse_def tracker_at_def split: if_splits prod.splits)

lemma receiving_is_fold:
  "\<lbrakk>c_running c; heap_inv msg_prio (c_recv_queue c); \<forall>m \<in> set (c_recv_queue c). \<not> is_stop m;
    n = length (c_recv_queue c)\<rbrakk> \<Longrightarrow>
   \<exists>ms. mset ms = mset (c_recv_queue c)
     \<and> (\<forall>w. rfold (handle_one handle) ms (a, c\<lparr>c_recv_queue := []\<rparr>) = Inr w \<longrightarrow> Receiving handle n (a, c) = Inr w)"
proof (induction n arbitrary: a c)
  case (Suc n)
  then have "mset (c_recv_queue c) \<noteq> {#}" by auto
  then obtain m q where pop: "pq_WaitAndPop (c_recv_queue c) = Some (m, q)"
    using pq.pop_empty[OF Suc.prems(2)] by fastforce
  from pq.pop_max[OF Suc.prems(2) pop] have q: "heap_inv msg_prio q"
    "mset (c_recv_queue c) = add_mset m (mset q)" by auto
  then have sets: "set (c_recv_queue c) = insert m (set q)" "length (c_recv_queue c) = Suc (length q)"
    by (metis set_mset_mset set_mset_add_mset_insert, metis size_mset size_add_mset)
  have step: "Receiving_step handle (a, c) =
      rbind (handle_one handle m (a, c\<lparr>c_recv_queue := []\<rparr>)) (\<lambda>(a', c'). Inr (Some (a', c'\<lparr>c_recv_queue := q\<rparr>)))"
    using step_is_handle_one[OF Suc.prems(1) pop] Suc.prems(3) sets(1) by simp
  show ?case
  proof (cases "handle_one handle m (a, c\<lparr>c_recv_queue := []\<rparr>)")
    case (Inl e)
    then show ?thesis using q(2) by (intro exI[of _ "m # q"]) simp
  next
    case (Inr w1)
    obtain a1 c1 where w1: "w1 = (a1, c1)" by (rule prod.exhaust)
    have c1: "c_running c1" "c_recv_queue c1 = []"
      using handle_one_keeps[OF Inr[unfolded w1]] Suc.prems(1) by simp_all
    then have c1_eq: "c1\<lparr>c_recv_queue := []\<rparr> = c1" by (cases c1) simp
    obtain ms where ms: "mset ms = mset q"
      "\<forall>w. rfold (handle_one handle) ms (a1, c1) = Inr w \<longrightarrow> Receiving handle n (a1, c1\<lparr>c_recv_queue := q\<rparr>) = Inr w"
      using Suc.IH[of "c1\<lparr>c_recv_queue := q\<rparr>" a1] c1 q(1) Suc.prems(3,4) sets c1_eq by auto
    show ?thesis using ms q(2) step Inr w1 by (intro exI[of _ "m # ms"]) simp
  qed
qed simp

end

lemma fold_Accept: "fold Accept ms c = c\<lparr>c_recv_queue := fold pq_Push ms (c_recv_queue c)\<rparr>"
  by (induction ms arbitrary: c) (simp_all add: Accept_def)

lemma accepted_batch:
  assumes "receiver handle" and "c_running c" and "c_recv_queue c = []"
    and "\<forall>m \<in> set ms. countable_msg c m"
  shows "\<exists>a' c'. Receiving handle (length ms) (a, fold Accept ms c) = Inr (a', c') \<and> c_recv_queue c' = []
    \<and> c_tracker c' = counted (mset ms) (c_tracker c)"
proof -
  let ?c = "fold Accept ms c"
  have q: "heap_inv msg_prio (c_recv_queue ?c)" "mset (c_recv_queue ?c) = mset ms"
    using pq.pushes_ok[of "[]" ms] assms(3) by (simp_all add: fold_Accept heap_inv_def)
  have len: "length ms = length (c_recv_queue ?c)" and set: "set (c_recv_queue ?c) = set ms"
    using q(2) by (metis size_mset, metis set_mset_mset)
  have "\<forall>m \<in> set (c_recv_queue ?c). countable_msg ?c m"
    using assms(4) set by (simp add: fold_Accept countable_msg_def valid_ts_def)
  then show ?thesis
    using receiver.receiving_counts[OF assms(1), of ?c "length ms" a] q len assms(2) by (simp add: fold_Accept)
qed

lemma request_counted:
  assumes "receiver handle" and "NewRequest po g c = Inr (ts, c1)" and "GetNodeIDs po g = Inr ids"
    and "c_running c" and "c_recv_queue c = []" and "\<forall>m \<in> set ms. countable_msg c1 m"
  shows "\<exists>a' c'. Receiving handle (length ms) (a, fold Accept ms c1) = Inr (a', c')
    \<and> NumResponse c' ts = Inr (int (length (filter (is_response ts) ms)))
    \<and> WaitRequest c' ts = Inr (length (filter (is_response ts) ms) = length ids)"
proof -
  have c1: "c_running c1" "c_recv_queue c1 = []" using assms(2,4,5) by (auto simp: NewRequest_def Let_def)
  have ts: "ts = int (length (c_tracker c))" "c_tracker c1 = c_tracker c @ [(int (length ids), 0)]"
    using tracker_at_new[OF assms(2)] assms(3) by auto
  from accepted_batch[OF assms(1) c1 assms(6), of a] obtain a' c' where
    r: "Receiving handle (length ms) (a, fold Accept ms c1) = Inr (a', c')"
       "c_tracker c' = counted (mset ms) (c_tracker c1)" by blast
  have "tracker_at c' ts = Inr (int (length ids), int (length (filter (is_response ts) ms)))"
    using r(2) ts by (simp add: tracker_at_def nth_counted mset_filter[symmetric] del: mset_filter)
  then show ?thesis using r(1) by (auto simp: NumResponse_def WaitRequest_def)
qed

section \<open>Properties of customers\<close>

text \<open>C4: a request completes exactly when every node it was sent to has answered.  After a new
  request to a group, let any messages arrive, in any order and mixed with those of other requests.
  When the receiving thread has handled them, as many responses are recorded for the request as
  arrived, and \<^verbatim>\<open>WaitRequest\<close> returns exactly when that is the number of nodes of the group.\<close>

theorem request_completes:
  assumes "\<forall>m a c. \<exists>a'. handle m (a, c) = Inr (a', c)"
    and "NewRequest po g c = Inr (ts, c1)" and "GetNodeIDs po g = Inr ids"
    and "c_running c" and "c_recv_queue c = []" and "\<forall>m \<in> set ms. countable_msg c1 m"
  shows "\<exists>a' c'. Receiving handle (length ms) (a, fold Accept ms c1) = Inr (a', c')
    \<and> NumResponse c' ts = Inr (int (length (filter (is_response ts) ms)))
    \<and> WaitRequest c' ts = Inr (length (filter (is_response ts) ms) = length ids)"
proof (rule request_counted[OF _ assms(2-6)])
  show "receiver handle" using assms(1) by unfold_locales blast
qed


definition demo_response :: Message where
  "demo_response = Message_init\<lparr>msg_meta := Meta_init\<lparr>m_timestamp := 0\<rparr>\<rparr>"

theorem request_completes_witness:
  "\<exists>c1 a' c'. NewRequest demo_office 4 (Customer_new 0 0) = Inr (0, c1)
   \<and> Receiving (\<lambda>m w. Inr w) 2 ((), fold Accept [demo_response, demo_response] c1) = Inr (a', c')
   \<and> WaitRequest c' 0 = Inr True"
proof -
  have "table_inv demo_office" by (rule reachable_table_inv[OF demo_reachable])
  then have ids: "GetNodeIDs demo_office 4 = Inr [9, 11]"
    by (simp add: table_inv_def demo_fields group_members_def worker_ids_def WorkerRankToID_def upto_rec1)
  let ?c1 = "(Customer_new 0 0)\<lparr>c_tracker := [(2, 0)]\<rparr>"
  have new: "NewRequest demo_office 4 (Customer_new 0 0) = Inr (0, ?c1)"
    by (simp add: NewRequest_def ids Customer_new_def Let_def)
  have r: "is_response 0 demo_response" "countable_msg ?c1 demo_response"
    by (simp_all add: demo_response_def is_response_def countable_msg_def is_stop_def valid_ts_def Message_init_def
        Meta_init_def Control_init_def Control_empty_def)
  have "\<exists>a' c'. Receiving (\<lambda>m w. Inr w) (length [demo_response, demo_response])
      ((), fold Accept [demo_response, demo_response] ?c1) = Inr (a', c')
    \<and> NumResponse c' 0 = Inr (int (length (filter (is_response 0) [demo_response, demo_response])))
    \<and> WaitRequest c' 0 = Inr (length (filter (is_response 0) [demo_response, demo_response]) = length [9, 11::int])"
    by (rule request_completes[OF _ new ids]) (use r in \<open>simp_all add: Customer_new_def\<close>)
  then show ?thesis using new r by (simp add: numeral_2_eq_2) blast
qed


end
