(* ===== verification/Ps_SimpleApp.thy ===== *)
theory Ps_SimpleApp
  imports Ps_Customer
begin

text \<open>
  \<^verbatim>\<open>include/ps/simple_app.h\<close>: requests and responses that carry an int head and a string body.
  The state of an application starts with its outbox, the messages it has handed to
  \<^verbatim>\<open>Van::Send\<close> in order; a subclass extends it.  A handle is a function on the application's
  state and its customer, and an unset handle is \<open>None\<close>.
\<close>

record App =
  outbox :: "Message list"

definition van_send :: "Message \<Rightarrow> 'z App_scheme world \<Rightarrow> 'z App_scheme world" where
  "van_send m w = ((fst w)\<lparr>outbox := outbox (fst w) @ [m]\<rparr>, snd w)"

text \<open>A message as its receiver sees it: the van has filled in the node id of the sender.\<close>

definition sent_by :: "int \<Rightarrow> Message \<Rightarrow> Message" where
  "sent_by me m = m\<lparr>msg_meta := (msg_meta m)\<lparr>m_sender := me\<rparr>\<rparr>"

record SimpleData =
  sd_head :: int
  sd_body :: string
  sd_sender :: int
  sd_timestamp :: int
  sd_customer_id :: int

type_synonym 'a Handle = "SimpleData \<Rightarrow> 'a world \<Rightarrow> 'a world res"

definition Request_msg :: "int \<Rightarrow> string \<Rightarrow> int \<Rightarrow> Customer \<Rightarrow> int \<Rightarrow> Message" where
  "Request_msg req_head req_body ts c r =
     Message_init\<lparr>msg_meta := Meta_init\<lparr>m_head := req_head, m_body := req_body, m_timestamp := ts,
       m_request := True, m_simple_app := True, m_app_id := c_app_id c,
       m_customer_id := c_customer_id c, m_recver := r\<rparr>\<rparr>"

definition Request ::
  "'c Postoffice \<Rightarrow> int \<Rightarrow> string \<Rightarrow> int \<Rightarrow> 'z App_scheme world \<Rightarrow> (int \<times> 'z App_scheme world) res" where
  "Request po req_head req_body recv_id w =
     rbind (NewRequest po recv_id (snd w)) (\<lambda>(ts, c).
     rbind (GetNodeIDs po recv_id) (\<lambda>ids.
       Inr (ts, fold (\<lambda>r. van_send (Request_msg req_head req_body ts c r)) ids (fst w, c))))"

definition Response_msg :: "SimpleData \<Rightarrow> string \<Rightarrow> Customer \<Rightarrow> Message" where
  "Response_msg req res_body c =
     Message_init\<lparr>msg_meta := Meta_init\<lparr>m_head := sd_head req, m_body := res_body,
       m_timestamp := sd_timestamp req, m_request := False, m_simple_app := True,
       m_app_id := c_app_id c, m_customer_id := sd_customer_id req, m_recver := sd_sender req\<rparr>\<rparr>"

definition Response :: "SimpleData \<Rightarrow> string \<Rightarrow> 'z App_scheme world \<Rightarrow> 'z App_scheme world" where
  "Response req res_body w = van_send (Response_msg req res_body (snd w)) w"

text \<open>The handles the empty constructor installs.\<close>

definition default_request_handle :: "'z App_scheme Handle" where
  "default_request_handle recved w = Inr (Response recved '''' w)"

definition default_response_handle :: "'z App_scheme Handle" where
  "default_response_handle recved w = Inr w"

definition recv_data :: "Message \<Rightarrow> SimpleData" where
  "recv_data msg = \<lparr>sd_head = m_head (msg_meta msg), sd_body = m_body (msg_meta msg),
     sd_sender = m_sender (msg_meta msg), sd_timestamp = m_timestamp (msg_meta msg),
     sd_customer_id = m_customer_id (msg_meta msg)\<rparr>"

definition SimpleApp_Process :: "'a Handle option \<Rightarrow> 'a Handle option \<Rightarrow> 'a recv_handle" where
  "SimpleApp_Process request_handle response_handle msg w =
     (if m_request (msg_meta msg)
      then case request_handle of None \<Rightarrow> Inl (Check ''request_handle_'') | Some h \<Rightarrow> h (recv_data msg) w
      else case response_handle of None \<Rightarrow> Inl (Check ''response_handle_'') | Some h \<Rightarrow> h (recv_data msg) w)"

text \<open>\<^verbatim>\<open>set_request_handle\<close> and \<^verbatim>\<open>set_response_handle\<close> refuse an empty function.\<close>

definition set_handle :: "'a Handle option \<Rightarrow> 'a Handle option res" where
  "set_handle h = check (h \<noteq> None) ''invalid request handle'' (Inr h)"

abbreviation default_Process :: "'z App_scheme recv_handle" where
  "default_Process \<equiv> SimpleApp_Process (Some default_request_handle) (Some default_response_handle)"

interpretation simple: receiver default_Process
proof
  fix m c and a :: "'a App_scheme"
  show "\<exists>a'. default_Process m (a, c) = Inr (a', c)"
    by (simp add: SimpleApp_Process_def default_request_handle_def default_response_handle_def Response_def
        van_send_def)
qed

lemma fold_van_send:
  "fold (\<lambda>r. van_send (f r)) rs (a, c) = (a\<lparr>outbox := outbox a @ map f rs\<rparr>, c)"
  by (induction rs arbitrary: a) (simp_all add: van_send_def)

text \<open>The answer of a node that runs the default handles to a request it received.\<close>

definition answer_of :: "int \<Rightarrow> Message \<Rightarrow> Message" where
  "answer_of app_id m = Message_init\<lparr>msg_meta := Meta_init\<lparr>m_head := m_head (msg_meta m), m_body := '''',
     m_timestamp := m_timestamp (msg_meta m), m_request := False, m_simple_app := True, m_app_id := app_id,
     m_customer_id := m_customer_id (msg_meta m), m_recver := m_sender (msg_meta m)\<rparr>\<rparr>"

lemma default_Process_request:
  "m_request (msg_meta m) \<Longrightarrow>
     default_Process m (a, c) = Inr (a\<lparr>outbox := outbox a @ [answer_of (c_app_id c) m]\<rparr>, c)"
  by (simp add: SimpleApp_Process_def default_request_handle_def Response_def van_send_def Response_msg_def
      answer_of_def recv_data_def)

section \<open>Properties of the simple application\<close>

text \<open>C14: a \<^verbatim>\<open>SimpleApp\<close> request goes once to every node of its group and is complete when all
  have answered.  Each node that runs the default handles answers with one message, addressed to the
  requesting customer and carrying the request's timestamp; when these answers reach the requester,
  in any order, \<^verbatim>\<open>Wait\<close> on the returned timestamp returns.\<close>

theorem simple_request_answered:
  assumes "Request po head body g (a, c) = Inr (ts, (a1, c1))" and "GetNodeIDs po g = Inr ids"
    and "c_running c" and "c_recv_queue c = []"
    and "mset answers = mset (map (\<lambda>m. sent_by (m_recver (msg_meta m))
           (answer_of (remote_app m) (sent_by me m))) (drop (length (outbox a)) (outbox a1)))"
  shows "map (\<lambda>m. m_recver (msg_meta m)) (drop (length (outbox a)) (outbox a1)) = ids
    \<and> (\<forall>m \<in> set (drop (length (outbox a)) (outbox a1)). default_Process (sent_by me m) (b, rc)
         = Inr (b\<lparr>outbox := outbox b @ [answer_of (c_app_id rc) (sent_by me m)]\<rparr>, rc))
    \<and> (\<forall>m \<in> set answers. m_recver (msg_meta m) = me \<and> m_customer_id (msg_meta m) = c_customer_id c)
    \<and> (\<exists>a' c'. Receiving default_Process (length answers) (a1, fold Accept answers c1) = Inr (a', c')
         \<and> WaitRequest c' ts = Inr True)"
proof -
  have new: "NewRequest po g c = Inr (ts, c1)"
    and out: "outbox a1 = outbox a @ map (Request_msg head body ts c1) ids"
    using assms(1,2) by (auto simp: Request_def fold_van_send split: prod.splits)
  have c1: "c_customer_id c1 = c_customer_id c" "valid_ts c1 ts"
    using new by (auto simp: NewRequest_def Let_def valid_ts_def)
  let ?req = "Request_msg head body ts c1"
  let ?ans = "\<lambda>r. sent_by r (answer_of (remote_app (?req r)) (sent_by me (?req r)))"
  have reqs: "m_recver (msg_meta (?req r)) = r" for r by (simp add: Request_msg_def)
  have ans: "mset answers = mset (map ?ans ids)" using assms(5) out by (simp add: comp_def reqs)
  have len: "length answers = length ids" using arg_cong[OF ans, of size] by simp
  have set: "set answers = ?ans ` set ids" using arg_cong[OF ans, of set_mset] by simp
  have each: "is_response ts (?ans r) \<and> countable_msg c1 (?ans r) \<and> m_recver (msg_meta (?ans r)) = me
      \<and> m_customer_id (msg_meta (?ans r)) = c_customer_id c" for r
    using c1 by (simp add: sent_by_def answer_of_def Request_msg_def is_response_def countable_msg_def is_stop_def
        Meta_init_def Control_init_def Control_empty_def)
  then have "filter (is_response ts) answers = answers" using set by (auto intro: filter_True)
  then have "\<exists>a' c'. Receiving default_Process (length answers) (a1, fold Accept answers c1) = Inr (a', c')
      \<and> WaitRequest c' ts = Inr True"
    using request_counted[OF simple.receiver_axioms new assms(2-4), of answers a1] each set len by auto
  moreover have "default_Process (sent_by me (?req r)) (b, rc)
      = Inr (b\<lparr>outbox := outbox b @ [answer_of (c_app_id rc) (sent_by me (?req r))]\<rparr>, rc)" for r
    by (rule default_Process_request) (simp add: sent_by_def Request_msg_def)
  ultimately show ?thesis using out each set by (simp add: comp_def reqs)
qed

theorem simple_request_answered_witness:
  "\<exists>ts a1 c1. Request demo_office 1 ''hi'' 4 (\<lparr>outbox = []\<rparr>, Customer_new 0 0) = Inr (ts, (a1, c1))
   \<and> map (\<lambda>m. m_recver (msg_meta m)) (outbox a1) = [9, 11]"
proof -
  have "table_inv demo_office" by (rule reachable_table_inv[OF demo_reachable])
  then have ids: "GetNodeIDs demo_office 4 = Inr [9, 11]"
    by (simp add: table_inv_def demo_fields group_members_def worker_ids_def WorkerRankToID_def upto_rec1)
  let ?w = "(\<lparr>outbox = []\<rparr>, Customer_new 0 0)"
  obtain ts a1 c1 where req: "Request demo_office 1 ''hi'' 4 ?w = Inr (ts, (a1, c1))"
    by (simp add: Request_def NewRequest_def ids Let_def fold_van_send van_send_def)
  let ?as = "map (\<lambda>m. sent_by (m_recver (msg_meta m)) (answer_of 0 (sent_by 8 m))) (drop 0 (outbox a1))"
  have "map (\<lambda>m. m_recver (msg_meta m)) (drop (length (outbox \<lparr>outbox = []\<rparr>)) (outbox a1)) = [9, 11]
    \<and> (\<forall>m \<in> set (drop (length (outbox \<lparr>outbox = []\<rparr>)) (outbox a1)).
         default_Process (sent_by 8 m) (\<lparr>outbox = []\<rparr>, Customer_new 0 0)
         = Inr (\<lparr>outbox = []\<rparr>\<lparr>outbox := outbox \<lparr>outbox = []\<rparr> @ [answer_of (c_app_id (Customer_new 0 0)) (sent_by 8 m)]\<rparr>, Customer_new 0 0))
    \<and> (\<forall>m \<in> set ?as. m_recver (msg_meta m) = 8 \<and> m_customer_id (msg_meta m) = c_customer_id (Customer_new 0 0))
    \<and> (\<exists>a' c'. Receiving default_Process (length ?as) (a1, fold Accept ?as c1) = Inr (a', c')
         \<and> WaitRequest c' ts = Inr True)"
    by (rule simple_request_answered[OF req ids, where remote_app = "\<lambda>_. 0"]) (simp_all add: Customer_new_def)
  then show ?thesis using req by auto
qed

end
