(* ===== verification/Ps_KVApp.thy ===== *)
theory Ps_KVApp
  imports Ps_KVSlicer Ps_SimpleApp
begin

text \<open>
  The parameter-server application of \<^verbatim>\<open>include/ps/kv_app.h\<close>: \<^verbatim>\<open>KVWorker\<close>, \<^verbatim>\<open>KVServer\<close> and the
  default server handle.  A value type is given by its element type \<open>vt\<close> and its object
  representation \<open>vc\<close>.  A callback is a value: a user callback is a number, whose run is written to
  a log, and the closure \<^verbatim>\<open>AddPullCB\<close> installs is the data it captures.  The user's buffers are
  numbered: \<open>Own b\<close> is a container the callback may resize, \<open>View b n\<close> the array \<^verbatim>\<open>PushPull\<close>
  lays over the \<open>n\<close> elements of a vector, which fills the vector but cannot resize it.
  \<^verbatim>\<open>std::sort\<close> is \<open>sort_key\<close>; the first keys it sorts by are distinct in every use.
\<close>

section \<open>State\<close>

datatype target = Own nat | View nat nat

datatype Callback = UserCB nat | PullCB int "u64 list" "target option" "target option" "nat option"

record 'v KVWorker = App +
  kvw_recv_kvs :: "(int, 'v KVPairs list) um"
  kvw_callbacks :: "(int, Callback) um"
  kvw_vbufs :: "(nat, 'v list) um"
  kvw_lbufs :: "(nat, i32 list) um"
  kvw_cb_log :: "nat list"

record 'v KVServer = App +
  kvs_store :: "(u64, 'v) um"

record KVMeta =
  km_cmd :: int
  km_push :: bool
  km_pull :: bool
  km_sender :: int
  km_timestamp :: int
  km_customer_id :: int

text \<open>The constructors: a fresh application and its registered customer.  A worker starts with the
  default slicer, a server without a request handle and with its app id as its customer id.\<close>

definition KVWorker_ctor ::
  "int \<Rightarrow> int \<Rightarrow> Customer Postoffice
   \<Rightarrow> (('v KVPairs \<Rightarrow> Range list \<Rightarrow> 'v SlicedKVs res) \<times> 'v KVWorker world \<times> Customer Postoffice) res" where
  "KVWorker_ctor app_id customer_id po =
     rbind (Customer_ctor app_id customer_id po) (\<lambda>(c, po').
       Inr (DefaultSlicer,
         (\<lparr>outbox = [], kvw_recv_kvs = [], kvw_callbacks = [], kvw_vbufs = [], kvw_lbufs = [], kvw_cb_log = []\<rparr>, c), po'))"

definition KVServer_ctor ::
  "int \<Rightarrow> Customer Postoffice \<Rightarrow> ('v KVServer world \<times> Customer Postoffice) res" where
  "KVServer_ctor app_id po =
     rbind (Customer_ctor app_id app_id po) (\<lambda>(c, po'). Inr ((\<lparr>outbox = [], kvs_store = []\<rparr>, c), po'))"

text \<open>\<^verbatim>\<open>set_slicer\<close> and \<^verbatim>\<open>KVServer::set_request_handle\<close> refuse an empty function.\<close>

definition set_slicer :: "'s option \<Rightarrow> 's res" where
  "set_slicer slicer = (case slicer of None \<Rightarrow> Inl (Check ''slicer'') | Some f \<Rightarrow> Inr f)"

definition set_request_handle :: "'h option \<Rightarrow> 'h option res" where
  "set_request_handle request_handle = check (request_handle \<noteq> None) ''invalid request handle'' (Inr request_handle)"

section \<open>Messages of key-value pairs\<close>

definition add_kvs :: "ctype \<Rightarrow> 'v codec \<Rightarrow> 'v KVPairs \<Rightarrow> Message \<Rightarrow> Message res" where
  "add_kvs vt vc kvs msg =
     (if kv_keys kvs = [] then Inr msg
      else rbind (AddData T_uint64 key_codec (kv_keys kvs) msg) (\<lambda>m1.
           rbind (AddData vt vc (kv_vals kvs) m1) (\<lambda>m2.
           if kv_lens kvs = [] then Inr m2 else AddData T_int32 int_codec (kv_lens kvs) m2)))"

section \<open>KVWorker\<close>

definition AddCallback :: "int \<Rightarrow> Callback option \<Rightarrow> 'v KVWorker \<Rightarrow> 'v KVWorker" where
  "AddCallback timestamp cb w =
     (case cb of None \<Rightarrow> w | Some f \<Rightarrow> w\<lparr>kvw_callbacks := um_set timestamp f (kvw_callbacks w)\<rparr>)"

text \<open>The checks of the pull callback on the answer of one server.\<close>

definition check_answer :: "u64 list \<Rightarrow> bool \<Rightarrow> 'v KVPairs \<Rightarrow> unit res" where
  "check_answer keys has_lens s =
     (if kv_keys s = [] then Inl OutOfBounds
      else check (unat (Range_size (FindRange keys (hd (kv_keys s)) (last (kv_keys s) + 1))) = length (kv_keys s))
             ''unmatched keys size from one server''
          (check (has_lens \<longrightarrow> length (kv_lens s) = length (kv_keys s)) ''s.lens.size() == s.keys.size()''
            (Inr ())))"

text \<open>Resizing an empty container or checking its size, and copying \<open>xs\<close> into it.\<close>

definition fill_target :: "(nat, 'b list) um \<Rightarrow> target \<Rightarrow> nat \<Rightarrow> 'b list \<Rightarrow> (nat, 'b list) um res" where
  "fill_target bufs t n xs = (case t of
      Own b \<Rightarrow> check (um_get [] bufs b = [] \<or> length (um_get [] bufs b) = n) ''vals->size() == total_val''
                 (Inr (um_set b xs bufs))
    | View b m \<Rightarrow>
        if m = 0 then Inr bufs
        else check (m = n) ''vals->size() == total_val''
          (if m \<le> length (um_get [] bufs b) then Inr (um_set b (xs @ drop m (um_get [] bufs b)) bufs)
           else Inl OutOfBounds))"

definition run_user :: "nat option \<Rightarrow> 'v KVWorker \<Rightarrow> 'v KVWorker" where
  "run_user cb w = (case cb of None \<Rightarrow> w | Some f \<Rightarrow> w\<lparr>kvw_cb_log := kvw_cb_log w @ [f]\<rparr>)"

definition run_pull ::
  "int \<Rightarrow> u64 list \<Rightarrow> target option \<Rightarrow> target option \<Rightarrow> nat option \<Rightarrow> 'v KVWorker \<Rightarrow> 'v KVWorker res" where
  "run_pull ts keys vals lens cb w =
     (let kvs = um_get [] (kvw_recv_kvs w) ts in
      rbind (rmap (check_answer keys (lens \<noteq> None)) kvs) (\<lambda>_.
      check (sum_list (map (length \<circ> kv_keys) kvs) = length keys) ''lost some servers?''
       (let srt = sort_key (hd \<circ> kv_keys) kvs;
            vs = concat (map kv_vals srt);
            ls = concat (map kv_lens srt)
        in case vals of None \<Rightarrow> Inl (Check ''vals not null'') | Some tv \<Rightarrow>
           rbind (fill_target (kvw_vbufs w) tv (length vs) vs) (\<lambda>vb.
           rbind (case lens of None \<Rightarrow> Inr (kvw_lbufs w)
                  | Some tlen \<Rightarrow> fill_target (kvw_lbufs w) tlen (length keys) ls) (\<lambda>lb.
           Inr (run_user cb (w\<lparr>kvw_vbufs := vb, kvw_lbufs := lb,
                  kvw_recv_kvs := um_erase ts (kvw_recv_kvs w)\<rparr>)))))))"

definition run_callback :: "Callback \<Rightarrow> 'v KVWorker \<Rightarrow> 'v KVWorker res" where
  "run_callback cb w = (case cb of
      UserCB f \<Rightarrow> Inr (run_user (Some f) w)
    | PullCB ts keys vals lens f \<Rightarrow> run_pull ts keys vals lens f w)"

definition RunCallback :: "int \<Rightarrow> 'v KVWorker \<Rightarrow> 'v KVWorker res" where
  "RunCallback timestamp w = (case um_find (kvw_callbacks w) timestamp of
      None \<Rightarrow> Inr w
    | Some cb \<Rightarrow> rbind (run_callback cb w) (\<lambda>w'.
        Inr (w'\<lparr>kvw_callbacks := um_erase timestamp (kvw_callbacks w')\<rparr>)))"

definition AddPullCB ::
  "'c Postoffice \<Rightarrow> u64 list \<Rightarrow> target option \<Rightarrow> target option \<Rightarrow> nat option \<Rightarrow> 'v KVWorker world
   \<Rightarrow> (int \<times> 'v KVWorker world) res" where
  "AddPullCB po keys vals lens cb w =
     rbind (NewRequest po kServerGroup (snd w)) (\<lambda>(ts, c).
       Inr (ts, AddCallback ts (Some (PullCB ts keys vals lens cb)) (fst w), c))"

text \<open>The message to server \<open>i\<close> of \<^verbatim>\<open>Send\<close>.\<close>

definition slice_msg ::
  "ctype \<Rightarrow> 'v codec \<Rightarrow> Customer \<Rightarrow> int \<Rightarrow> bool \<Rightarrow> bool \<Rightarrow> int \<Rightarrow> int \<Rightarrow> nat \<Rightarrow> 'v KVPairs \<Rightarrow> Message res" where
  "slice_msg vt vc c timestamp push pull cmd priority i kvs =
     add_kvs vt vc kvs (Message_init\<lparr>msg_meta := Meta_init\<lparr>m_app_id := c_app_id c,
       m_customer_id := c_customer_id c, m_request := True, m_push := push, m_pull := pull, m_head := cmd,
       m_timestamp := timestamp, m_recver := ServerRankToID (int i), m_priority := priority\<rparr>\<rparr>)"

fun send_slices ::
  "(nat \<Rightarrow> 'v KVPairs \<Rightarrow> Message res) \<Rightarrow> nat \<Rightarrow> 'v SlicedKVs \<Rightarrow> 'z App_scheme world \<Rightarrow> 'z App_scheme world res" where
  "send_slices msg i [] w = Inr w"
| "send_slices msg i ((flag, kvs) # sl) w =
     (if \<not> flag then send_slices msg (Suc i) sl w
      else rbind (msg i kvs) (\<lambda>m. send_slices msg (Suc i) sl (van_send m w)))"

definition skipped :: "'v SlicedKVs \<Rightarrow> nat" where
  "skipped sliced = length (filter (\<lambda>s. \<not> fst s) sliced)"

definition Send ::
  "ctype \<Rightarrow> 'v codec \<Rightarrow> ('v KVPairs \<Rightarrow> Range list \<Rightarrow> 'v SlicedKVs res) \<Rightarrow> 'c Postoffice \<Rightarrow>
   int \<Rightarrow> bool \<Rightarrow> bool \<Rightarrow> int \<Rightarrow> 'v KVPairs \<Rightarrow> 'v KVWorker world \<Rightarrow> 'v KVWorker world res" where
  "Send vt vc slicer po timestamp push pull cmd kvs w =
     rbind (slicer kvs (snd (GetServerKeyRanges po))) (\<lambda>sliced.
     rbind (AddResponse timestamp (int (skipped sliced)) (snd w)) (\<lambda>c.
     rbind (if skipped sliced = length sliced then RunCallback timestamp (fst w) else Inr (fst w)) (\<lambda>a.
       send_slices (slice_msg vt vc c timestamp push pull cmd (kv_priority kvs)) 0 sliced (a, c))))"

type_synonym 'v kv_env = "ctype \<times> 'v codec \<times> ('v KVPairs \<Rightarrow> Range list \<Rightarrow> 'v SlicedKVs res)"

definition send_kvs ::
  "'v kv_env \<Rightarrow> 'c Postoffice \<Rightarrow> int \<Rightarrow> bool \<Rightarrow> bool \<Rightarrow> int \<Rightarrow> 'v KVPairs \<Rightarrow> 'v KVWorker world
   \<Rightarrow> (int \<times> 'v KVWorker world) res" where
  "send_kvs env po ts push pull cmd kvs w = (case env of (vt, vc, slicer) \<Rightarrow>
     rbind (Send vt vc slicer po ts push pull cmd kvs w) (\<lambda>w'. Inr (ts, w')))"

definition ZPush ::
  "'v kv_env \<Rightarrow> 'c Postoffice \<Rightarrow> u64 list \<Rightarrow> 'v list \<Rightarrow> i32 list \<Rightarrow> int \<Rightarrow> nat option \<Rightarrow> int
   \<Rightarrow> 'v KVWorker world \<Rightarrow> (int \<times> 'v KVWorker world) res" where
  "ZPush env po keys vals lens cmd cb priority w =
     rbind (NewRequest po kServerGroup (snd w)) (\<lambda>(ts, c).
       send_kvs env po ts True False cmd
         \<lparr>kv_keys = keys, kv_vals = vals, kv_lens = lens, kv_priority = priority\<rparr>
         (AddCallback ts (map_option UserCB cb) (fst w), c))"

definition ZPull ::
  "'v kv_env \<Rightarrow> 'c Postoffice \<Rightarrow> u64 list \<Rightarrow> target option \<Rightarrow> target option \<Rightarrow> int \<Rightarrow> nat option \<Rightarrow> int
   \<Rightarrow> 'v KVWorker world \<Rightarrow> (int \<times> 'v KVWorker world) res" where
  "ZPull env po keys vals lens cmd cb priority w =
     rbind (AddPullCB po keys vals lens cb w) (\<lambda>(ts, w').
       send_kvs env po ts False True cmd
         \<lparr>kv_keys = keys, kv_vals = [], kv_lens = [], kv_priority = priority\<rparr> w')"

text \<open>\<open>lens_in\<close> are the lengths the array behind \<^verbatim>\<open>lens\<close> holds, when it is given.\<close>

definition ZPushPull ::
  "'v kv_env \<Rightarrow> 'c Postoffice \<Rightarrow> u64 list \<Rightarrow> 'v list \<Rightarrow> target option \<Rightarrow> target option \<Rightarrow> i32 list \<Rightarrow> int
   \<Rightarrow> nat option \<Rightarrow> int \<Rightarrow> 'v KVWorker world \<Rightarrow> (int \<times> 'v KVWorker world) res" where
  "ZPushPull env po keys vals outs lens lens_in cmd cb priority w =
     rbind (AddPullCB po keys outs lens cb w) (\<lambda>(ts, w').
       send_kvs env po ts True True cmd
         \<lparr>kv_keys = keys, kv_vals = vals, kv_lens = (if lens = None then [] else lens_in), kv_priority = priority\<rparr> w')"

definition Push ::
  "'v kv_env \<Rightarrow> 'c Postoffice \<Rightarrow> u64 list \<Rightarrow> 'v list \<Rightarrow> i32 list \<Rightarrow> int \<Rightarrow> nat option \<Rightarrow> int
   \<Rightarrow> 'v KVWorker world \<Rightarrow> (int \<times> 'v KVWorker world) res" where
  "Push = ZPush"

definition Pull ::
  "'v kv_env \<Rightarrow> 'c Postoffice \<Rightarrow> u64 list \<Rightarrow> nat option \<Rightarrow> nat option \<Rightarrow> int \<Rightarrow> nat option \<Rightarrow> int
   \<Rightarrow> 'v KVWorker world \<Rightarrow> (int \<times> 'v KVWorker world) res" where
  "Pull env po keys vals lens cmd cb priority w =
     rbind (AddPullCB po keys (map_option Own vals) (map_option Own lens) cb w) (\<lambda>(ts, w').
       send_kvs env po ts False True cmd
         \<lparr>kv_keys = keys, kv_vals = [], kv_lens = [], kv_priority = priority\<rparr> w')"

text \<open>\<^verbatim>\<open>PushPull\<close> on vectors \<open>outs\<close> and \<open>lens\<close>: it resizes \<open>outs\<close> itself and passes views on.\<close>

definition PushPull ::
  "'v::zero kv_env \<Rightarrow> 'c Postoffice \<Rightarrow> u64 list \<Rightarrow> 'v list \<Rightarrow> nat option \<Rightarrow> nat option \<Rightarrow> int
   \<Rightarrow> nat option \<Rightarrow> int \<Rightarrow> 'v KVWorker world \<Rightarrow> (int \<times> 'v KVWorker world) res" where
  "PushPull env po keys vals outs lens cmd cb priority w = (case outs of
      None \<Rightarrow> Inl (Check ''outs not null'')
    | Some b \<Rightarrow>
        let a = fst w; old = um_get [] (kvw_vbufs a) b in
        check (old = [] \<or> length vals = length old) ''vals.size() == outs->size()''
         (let a' = (if old = [] then a\<lparr>kvw_vbufs := um_set b (replicate (length vals) 0) (kvw_vbufs a)\<rparr> else a);
              lens_in = (case lens of None \<Rightarrow> [] | Some l \<Rightarrow> um_get [] (kvw_lbufs a) l)
          in ZPushPull env po keys vals (Some (View b (length vals)))
               (map_option (\<lambda>l. View l (length lens_in)) lens) lens_in cmd cb priority (a', snd w)))"

text \<open>The receive handle of a worker.\<close>

definition read_kvs :: "'v codec \<Rightarrow> byte list list \<Rightarrow> 'v KVPairs res" where
  "read_kvs vc data =
     rbind (sa_of_bytes key_codec (data ! 0)) (\<lambda>ks.
     rbind (sa_of_bytes vc (data ! 1)) (\<lambda>vs.
     rbind (if 2 < length data then sa_of_bytes int_codec (data ! 2) else Inr []) (\<lambda>ls.
       Inr \<lparr>kv_keys = ks, kv_vals = vs, kv_lens = ls, kv_priority = 0\<rparr>)))"

definition KVWorker_Process ::
  "'v KVWorker Handle option \<Rightarrow> 'v KVWorker Handle option \<Rightarrow> 'v codec \<Rightarrow> 'c Postoffice \<Rightarrow> 'v KVWorker recv_handle" where
  "KVWorker_Process request_handle response_handle vc po msg w =
     (if m_simple_app (msg_meta msg) then SimpleApp_Process request_handle response_handle msg w
      else let ts = m_timestamp (msg_meta msg) in
        rbind (if m_pull (msg_meta msg)
               then check (2 \<le> length (msg_data msg)) ''msg.data.size() >= 2''
                 (rbind (read_kvs vc (msg_data msg)) (\<lambda>kvs.
                    Inr ((fst w)\<lparr>kvw_recv_kvs := um_set ts (um_get [] (kvw_recv_kvs (fst w)) ts @ [kvs])
                           (kvw_recv_kvs (fst w))\<rparr>)))
               else Inr (fst w)) (\<lambda>a.
        rbind (NumResponse (snd w) ts) (\<lambda>n.
        rbind (if n = po_num_servers po - 1 then RunCallback ts a else Inr a) (\<lambda>a'.
          Inr (a', snd w)))))"

section \<open>KVServer\<close>

definition Server_Response ::
  "ctype \<Rightarrow> 'v codec \<Rightarrow> KVMeta \<Rightarrow> 'v KVPairs \<Rightarrow> 'z App_scheme world \<Rightarrow> 'z App_scheme world res" where
  "Server_Response vt vc req res w =
     rbind (add_kvs vt vc res (Message_init\<lparr>msg_meta := Meta_init\<lparr>m_app_id := c_app_id (snd w),
        m_customer_id := km_customer_id req, m_request := False, m_push := km_push req, m_pull := km_pull req,
        m_head := km_cmd req, m_timestamp := km_timestamp req, m_recver := km_sender req\<rparr>\<rparr>)) (\<lambda>m.
       Inr (van_send m w))"

type_synonym ('v, 'a) ReqHandle = "KVMeta \<Rightarrow> 'v KVPairs \<Rightarrow> 'a world \<Rightarrow> 'a world res"

definition kv_meta :: "Message \<Rightarrow> KVMeta" where
  "kv_meta msg = \<lparr>km_cmd = m_head (msg_meta msg), km_push = m_push (msg_meta msg),
     km_pull = m_pull (msg_meta msg), km_sender = m_sender (msg_meta msg),
     km_timestamp = m_timestamp (msg_meta msg), km_customer_id = m_customer_id (msg_meta msg)\<rparr>"

definition KVServer_Process ::
  "'a Handle option \<Rightarrow> 'a Handle option \<Rightarrow> ('v, 'a) ReqHandle option \<Rightarrow> 'v codec \<Rightarrow> 'a recv_handle" where
  "KVServer_Process simple_request simple_response request_handle vc msg w =
     (if m_simple_app (msg_meta msg) then SimpleApp_Process simple_request simple_response msg w
      else let n = length (msg_data msg) in
        rbind (if n = 0 then Inr KVPairs_empty
               else check (2 \<le> n) ''n >= 2'' (check (2 < n \<longrightarrow> n = 3) ''n == 3''
                 (rbind (read_kvs vc (msg_data msg)) (\<lambda>d.
                   check (2 < n \<longrightarrow> length (kv_lens d) = length (kv_keys d)) ''data.lens.size() == data.keys.size()''
                     (Inr d))))) (\<lambda>data.
        case request_handle of None \<Rightarrow> Inl (Check ''request_handle_'') | Some h \<Rightarrow> h (kv_meta msg) data w))"

text \<open>The loop of \<^verbatim>\<open>KVServerDefaultHandle\<close> over the keys, with the values still to read.\<close>

fun default_loop ::
  "bool \<Rightarrow> bool \<Rightarrow> u64 list \<Rightarrow> 'v::{zero, plus} list \<Rightarrow> (u64, 'v) um \<Rightarrow> ((u64, 'v) um \<times> 'v list) res" where
  "default_loop push pull [] vals store = Inr (store, [])"
| "default_loop push pull (key # keys) vals store =
     rbind (if push
            then case vals of [] \<Rightarrow> Inl OutOfBounds | v # _ \<Rightarrow> Inr (um_set key (um_get 0 store key + v) store)
            else Inr store) (\<lambda>store1.
       let store2 = (if pull then um_set key (um_get 0 store1 key) store1 else store1) in
       rbind (default_loop push pull keys (drop 1 vals) store2) (\<lambda>(store3, out).
         Inr (store3, (if pull then um_get 0 store1 key # out else out))))"

definition KVServerDefaultHandle ::
  "ctype \<Rightarrow> 'v::{zero, plus} codec \<Rightarrow> ('v, 'v KVServer) ReqHandle" where
  "KVServerDefaultHandle vt vc req_meta req_data w =
     check (km_pull req_meta \<or> length (kv_keys req_data) = length (kv_vals req_data)) ''n == req_data.vals.size()''
      (rbind (default_loop (km_push req_meta) (km_pull req_meta) (kv_keys req_data) (kv_vals req_data)
                (kvs_store (fst w))) (\<lambda>(store, out).
        Server_Response vt vc req_meta
          (if km_pull req_meta then KVPairs_empty\<lparr>kv_keys := kv_keys req_data, kv_vals := out\<rparr> else KVPairs_empty)
          ((fst w)\<lparr>kvs_store := store\<rparr>, snd w)))"

section \<open>Messages carry their pairs\<close>

text \<open>A message that differs in the bookkeeping of its data only.\<close>

definition same_meta :: "Meta \<Rightarrow> Meta \<Rightarrow> bool" where
  "same_meta m m' \<longleftrightarrow> (\<exists>dt ds. m' = m\<lparr>m_data_type := dt, m_data_size := ds\<rparr>)"

lemma same_metaD:
  assumes "same_meta m m'"
  shows "m_app_id m' = m_app_id m" "m_customer_id m' = m_customer_id m" "m_request m' = m_request m"
    "m_push m' = m_push m" "m_pull m' = m_pull m" "m_head m' = m_head m" "m_timestamp m' = m_timestamp m"
    "m_recver m' = m_recver m" "m_sender m' = m_sender m" "m_simple_app m' = m_simple_app m"
    "m_control m' = m_control m" "m_priority m' = m_priority m"
  using assms by (auto simp: same_meta_def)

lemma AddData_step:
  "length (msg_data msg) = length (m_data_type (msg_meta msg)) \<Longrightarrow>
   \<exists>m. AddData t c val msg = Inr m \<and> msg_data m = msg_data msg @ [sa_to_bytes c val]
     \<and> same_meta (msg_meta msg) (msg_meta m) \<and> length (msg_data m) = length (m_data_type (msg_meta m))"
  by (auto simp: AddData_def Let_def same_meta_def)

lemma same_meta_trans: "same_meta a b \<Longrightarrow> same_meta b c \<Longrightarrow> same_meta a c"
  unfolding same_meta_def by (elim exE) (simp, blast)

lemma codec_roundtrip: "codec_ok vc \<Longrightarrow> sa_of_bytes vc (sa_to_bytes vc xs) = Inr xs"
  by (rule trivially_copyable.sa_of_bytes_to_bytes) (rule trivially_copyable.intro)

lemma add_kvs_ok:
  assumes vc: "codec_ok vc" and ne: "kv_keys kvs \<noteq> []" and m0: "msg_data msg = []" "m_data_type (msg_meta msg) = []"
  shows "\<exists>m. add_kvs vt vc kvs msg = Inr m \<and> same_meta (msg_meta msg) (msg_meta m)
    \<and> length (msg_data m) = (if kv_lens kvs = [] then 2 else 3)
    \<and> read_kvs vc (msg_data m) = Inr (kvs\<lparr>kv_priority := 0\<rparr>)"
proof -
  obtain m1 where m1: "AddData T_uint64 key_codec (kv_keys kvs) msg = Inr m1"
    "msg_data m1 = [sa_to_bytes key_codec (kv_keys kvs)]" "same_meta (msg_meta msg) (msg_meta m1)"
    "length (msg_data m1) = length (m_data_type (msg_meta m1))"
    using AddData_step[of msg T_uint64 key_codec "kv_keys kvs"] m0 by auto
  obtain m2 where m2: "AddData vt vc (kv_vals kvs) m1 = Inr m2"
    "msg_data m2 = [sa_to_bytes key_codec (kv_keys kvs), sa_to_bytes vc (kv_vals kvs)]"
    "same_meta (msg_meta msg) (msg_meta m2)" "length (msg_data m2) = length (m_data_type (msg_meta m2))"
    using AddData_step[of m1 vt vc "kv_vals kvs"] m1 same_meta_trans by fastforce
  obtain m3 where m3: "AddData T_int32 int_codec (kv_lens kvs) m2 = Inr m3"
    "msg_data m3 = msg_data m2 @ [sa_to_bytes int_codec (kv_lens kvs)]" "same_meta (msg_meta msg) (msg_meta m3)"
    using AddData_step[of m2 T_int32 int_codec "kv_lens kvs"] m2 same_meta_trans by fastforce
  show ?thesis
    using m1(1) m2(1-3) m3 ne
    by (cases kvs; cases "kv_lens kvs = []")
       (simp_all add: add_kvs_def read_kvs_def codec_roundtrip vc key_codec_ok int_codec_ok)
qed

section \<open>The pull callback\<close>

lemma sort_key_unique:
  assumes "mset xs = mset ys" and "sorted (map f ys)" and "distinct (map f ys)"
  shows "sort_key f xs = ys"
proof (rule map_sorted_distinct_set_unique[of f])
  have m: "mset (sort_key f xs) = mset ys" using assms(1) by simp
  then have s: "set (sort_key f xs) = set ys" by (metis set_mset_mset)
  show "inj_on f (set (sort_key f xs) \<union> set ys)" using assms(3) s by (simp add: distinct_map)
  show "distinct (map f (sort_key f xs))"
    using m assms(3) by (metis mset_map mset_eq_imp_distinct_iff)
  show "set (sort_key f xs) = set ys" by (rule s)
qed (use assms in simp_all)

text \<open>The answers of the servers, in server order, when each holds the keys of one interval.\<close>

definition answers_of :: "u64 list \<Rightarrow> 'v KVPairs list \<Rightarrow> bool" where
  "answers_of keys S \<longleftrightarrow> concat (map kv_keys S) = keys
     \<and> (\<forall>s \<in> set S. kv_keys s \<noteq> [] \<and> (\<exists>r. kv_keys s = filter (\<lambda>k. in_range k r) keys))"

lemma less_succ_word: "hi < e \<Longrightarrow> x < hi + 1 \<longleftrightarrow> x \<le> hi" for x hi e :: u64
  by unat_arith

lemma sorted_hd_last:
  assumes "sorted xs" and "x \<in> set xs"
  shows "hd xs \<le> x \<and> x \<le> last xs"
  using assms by (induction xs) (auto simp: last_in_set)

lemma check_answer_ok:
  assumes keys: "sorted keys" "length keys < 2 ^ 64" and ne: "kv_keys s \<noteq> []"
    and s: "kv_keys s = filter (\<lambda>k. in_range k r) keys"
    and lens: "has_lens \<longrightarrow> length (kv_lens s) = length (kv_keys s)"
  shows "check_answer keys has_lens s = Inr ()"
proof -
  let ?lo = "hd (kv_keys s)" and ?hi = "last (kv_keys s)"
  have srt: "sorted (kv_keys s)" using keys(1) s by (simp add: sorted_wrt_filter)
  have "?lo \<in> set (kv_keys s)" "?hi \<in> set (kv_keys s)" using ne by simp_all
  then have r: "r_begin r \<le> ?lo" "?hi < r_end r" using s by (auto simp: in_range_def)
  have "(?lo \<le> x \<and> x < ?hi + 1) = in_range x r" if x: "x \<in> set keys" for x
  proof
    assume "?lo \<le> x \<and> x < ?hi + 1"
    then have "?lo \<le> x" "x \<le> ?hi" using less_succ_word[OF r(2)] by blast+
    then show "in_range x r" unfolding in_range_def using r order_trans le_less_trans by blast
  next
    assume "in_range x r"
    then have "x \<in> set (kv_keys s)" unfolding s using x by simp
    then show "?lo \<le> x \<and> x < ?hi + 1" using sorted_hd_last[OF srt] less_succ_word[OF r(2)] by blast
  qed
  then have "filter (\<lambda>x. ?lo \<le> x \<and> x < ?hi + 1) keys = kv_keys s"
    unfolding s by (intro filter_cong) auto
  then show ?thesis using FindRange_spec[OF keys, of ?lo "?hi + 1"] ne lens by (simp add: check_answer_def)
qed

end
