(* ===== verification/Ps_KVEnd.thy ===== *)
theory Ps_KVEnd
  imports Ps_KVApp
begin

text \<open>
  The path of a request through \<^verbatim>\<open>include/ps/kv_app.h\<close>: the worker slices it and sends one message
  per server that has keys of it, each server's default handle answers, and the worker's receiving
  thread collects the answers in any order and runs the callback with the last one.  The lemmas
  follow this path; the properties state its end.
\<close>

section \<open>The pull callback on a complete set of answers\<close>

lemma concat_hd_sorted:
  fixes f :: "'b \<Rightarrow> 'k::linorder list"
  assumes "sorted (concat (map f S))" and "distinct (concat (map f S))" and "\<forall>s \<in> set S. f s \<noteq> []"
  shows "sorted (map (hd \<circ> f) S) \<and> distinct (map (hd \<circ> f) S)"
  using assms
proof (induction S)
  case (Cons s S)
  have IH: "sorted (map (hd \<circ> f) S) \<and> distinct (map (hd \<circ> f) S)"
    using Cons by (auto simp: sorted_append comp_def)
  have lt: "hd (f s) < hd (f t)" if "t \<in> set S" for t
  proof -
    have h: "hd (f s) \<in> set (f s)" "hd (f t) \<in> set (concat (map f S))"
      using Cons.prems(3) that by (auto intro!: bexI[of _ t])
    have "hd (f s) \<le> hd (f t)" using Cons.prems(1) h by (auto simp: sorted_append)
    moreover have "hd (f s) \<noteq> hd (f t)" using Cons.prems(2) h by auto
    ultimately show ?thesis by simp
  qed
  have "\<forall>t \<in> set S. hd (f s) \<le> hd (f t)" using lt by (simp add: less_imp_le)
  moreover have "hd (f s) \<notin> (hd \<circ> f) ` set S" using lt by fastforce
  ultimately show ?case using IH by (simp add: comp_def)
qed simp

lemma rmap_unit: "(\<And>x. x \<in> set xs \<Longrightarrow> f x = Inr ()) \<Longrightarrow> rmap f xs = Inr (map (\<lambda>_. ()) xs)"
  by (rule rmap_Inr)

lemma run_pull_ok:
  assumes keys: "sorted keys" "distinct keys" "length keys < 2 ^ 64"
    and S: "answers_of keys S" "\<forall>s \<in> set S. lens \<noteq> None \<longrightarrow> length (kv_lens s) = length (kv_keys s)"
    and recv: "mset (um_get [] (kvw_recv_kvs w) ts) = mset S"
  shows "run_pull ts keys (Some tv) lens cb w =
    rbind (fill_target (kvw_vbufs w) tv (length (concat (map kv_vals S))) (concat (map kv_vals S))) (\<lambda>vb.
    rbind (case lens of None \<Rightarrow> Inr (kvw_lbufs w)
           | Some tlen \<Rightarrow> fill_target (kvw_lbufs w) tlen (length keys) (concat (map kv_lens S))) (\<lambda>lb.
    Inr (run_user cb (w\<lparr>kvw_vbufs := vb, kvw_lbufs := lb, kvw_recv_kvs := um_erase ts (kvw_recv_kvs w)\<rparr>))))"
proof -
  let ?kvs = "um_get [] (kvw_recv_kvs w) ts"
  have cat: "concat (map kv_keys S) = keys" and each: "\<forall>s \<in> set S. kv_keys s \<noteq> [] \<and>
      (\<exists>r. kv_keys s = filter (\<lambda>k. in_range k r) keys)" using S(1) by (auto simp: answers_of_def)
  have set: "set ?kvs = set S" using recv by (metis set_mset_mset)
  have chk: "check_answer keys (lens \<noteq> None) s = Inr ()" if s: "s \<in> set ?kvs" for s
  proof -
    obtain r where "kv_keys s = filter (\<lambda>k. in_range k r) keys" using each s set by auto
    then show ?thesis using each s set S(2) by (intro check_answer_ok[OF keys(1,3)]) auto
  qed
  have "sum_list (map (length \<circ> kv_keys) ?kvs) = sum_list (map (length \<circ> kv_keys) S)"
    using recv by (metis mset_map sum_mset_sum_list)
  also have "\<dots> = length keys" using arg_cong[OF cat, of length] by (simp add: length_concat comp_def)
  finally have sum: "sum_list (map (length \<circ> kv_keys) ?kvs) = length keys" .
  have "sorted (map (hd \<circ> kv_keys) S) \<and> distinct (map (hd \<circ> kv_keys) S)"
    using concat_hd_sorted[of kv_keys S] cat keys each by auto
  then have srt: "sort_key (hd \<circ> kv_keys) ?kvs = S" by (intro sort_key_unique[OF recv]) auto
  have rm: "rmap (check_answer keys (lens \<noteq> None)) ?kvs = Inr (map (\<lambda>_. ()) ?kvs)" by (rule rmap_unit[OF chk])
  show ?thesis unfolding run_pull_def Let_def srt rm rbind_simps sum check_def by simp
qed

section \<open>The default server handle\<close>

lemma default_loop_pull:
  "\<exists>store'. default_loop False True keys vals store = Inr (store', map (um_get 0 store) keys)
     \<and> (\<forall>k. um_get 0 store' k = um_get 0 store k)"
proof (induction keys arbitrary: vals store)
  case (Cons key keys)
  let ?s = "um_set key (um_get 0 store key) store"
  have eq: "um_get 0 ?s = um_get 0 store" by (simp add: fun_eq_iff)
  obtain s' where s': "default_loop False True keys (drop 1 vals) ?s = Inr (s', map (um_get 0 ?s) keys)"
    "\<forall>k. um_get 0 s' k = um_get 0 ?s k" using Cons[of "drop 1 vals" ?s] by blast
  then show ?case by (simp add: eq)
qed simp

text \<open>The value a push of \<open>vs\<close> at \<open>ks\<close> adds to key \<open>k\<close>, in the order of the pushes.\<close>

definition push_one :: "(u64 \<Rightarrow> 'v::plus) \<Rightarrow> u64 \<times> 'v \<Rightarrow> u64 \<Rightarrow> 'v" where
  "push_one f kv = f(fst kv := f (fst kv) + snd kv)"

lemma default_loop_push:
  "length vals = length keys \<Longrightarrow>
   \<exists>store'. default_loop True False keys vals store = Inr (store', [])
     \<and> um_get 0 store' = fold (\<lambda>kv f. push_one f kv) (zip keys vals) (um_get 0 store)"
proof (induction keys arbitrary: vals store)
  case (Cons key keys)
  then obtain v vs where v: "vals = v # vs" "length vs = length keys" by (cases vals) auto
  let ?s = "um_set key (um_get 0 store key + v) store"
  have eq: "um_get 0 ?s = push_one (um_get 0 store) (key, v)" by (auto simp: fun_eq_iff push_one_def)
  obtain s' where "default_loop True False keys vs ?s = Inr (s', [])"
    "um_get 0 s' = fold (\<lambda>kv f. push_one f kv) (zip keys vs) (um_get 0 ?s)" using Cons.IH[OF v(2), of ?s] by blast
  then show ?case by (simp add: v eq)
qed simp

text \<open>What a server with the default handle answers to a message.\<close>

definition server_handle :: "ctype \<Rightarrow> 'v::{zero, plus} codec \<Rightarrow> 'v KVServer recv_handle" where
  "server_handle vt vc = KVServer_Process (Some default_request_handle) (Some default_response_handle)
     (Some (KVServerDefaultHandle vt vc)) vc"

definition kv_request :: "'v codec \<Rightarrow> Message \<Rightarrow> 'v KVPairs \<Rightarrow> bool" where
  "kv_request vc m kvs \<longleftrightarrow> \<not> m_simple_app (msg_meta m) \<and> kv_keys kvs \<noteq> []
     \<and> length (msg_data m) = (if kv_lens kvs = [] then 2 else 3) \<and> read_kvs vc (msg_data m) = Inr kvs
     \<and> (kv_lens kvs \<noteq> [] \<longrightarrow> length (kv_lens kvs) = length (kv_keys kvs))"

lemma server_handle_request:
  assumes "kv_request vc m kvs"
  shows "server_handle vt vc m w = KVServerDefaultHandle vt vc (kv_meta m) kvs w"
  using assms by (auto simp: kv_request_def server_handle_def KVServer_Process_def Let_def)

text \<open>A response as a worker can use it: its fields, and the pairs it carries.\<close>

definition kv_response :: "'v codec \<Rightarrow> int \<Rightarrow> int \<Rightarrow> int \<Rightarrow> bool \<Rightarrow> Message \<Rightarrow> 'v KVPairs \<Rightarrow> bool" where
  "kv_response vc me cid ts pull m kvs \<longleftrightarrow>
     \<not> m_simple_app (msg_meta m) \<and> \<not> m_request (msg_meta m) \<and> m_pull (msg_meta m) = pull
     \<and> m_timestamp (msg_meta m) = ts \<and> m_recver (msg_meta m) = me \<and> m_customer_id (msg_meta m) = cid
     \<and> Control_empty (m_control (msg_meta m))
     \<and> (pull \<longrightarrow> 2 \<le> length (msg_data m) \<and> read_kvs vc (msg_data m) = Inr kvs)"

lemma server_pull:
  assumes vc: "codec_ok vc" and m: "kv_request vc m kvs"
    and f: "m_pull (msg_meta m)" "\<not> m_push (msg_meta m)" "m_sender (msg_meta m) = me"
      "m_customer_id (msg_meta m) = cid" "m_timestamp (msg_meta m) = ts"
  shows "\<exists>s' r. server_handle vt vc m (s, sc) = Inr (s', sc) \<and> outbox s' = outbox s @ [r]
    \<and> (\<forall>k. um_get 0 (kvs_store s') k = um_get 0 (kvs_store s) k)
    \<and> kv_response vc me cid ts True r
        (KVPairs_empty\<lparr>kv_keys := kv_keys kvs, kv_vals := map (um_get 0 (kvs_store s)) (kv_keys kvs)\<rparr>)"
proof -
  let ?meta = "kv_meta m"
  let ?res = "KVPairs_empty\<lparr>kv_keys := kv_keys kvs, kv_vals := map (um_get 0 (kvs_store s)) (kv_keys kvs)\<rparr>"
  have fl: "km_pull ?meta" "\<not> km_push ?meta" using f by (auto simp: kv_meta_def)
  obtain store' where st: "default_loop False True (kv_keys kvs) (kv_vals kvs) (kvs_store s)
      = Inr (store', map (um_get 0 (kvs_store s)) (kv_keys kvs))" "\<forall>k. um_get 0 store' k = um_get 0 (kvs_store s) k"
    using default_loop_pull[of "kv_keys kvs" "kv_vals kvs" "kvs_store s"] by blast
  let ?msg = "Message_init\<lparr>msg_meta := Meta_init\<lparr>m_app_id := c_app_id sc,
        m_customer_id := km_customer_id ?meta, m_request := False, m_push := km_push ?meta, m_pull := km_pull ?meta,
        m_head := km_cmd ?meta, m_timestamp := km_timestamp ?meta, m_recver := km_sender ?meta\<rparr>\<rparr>"
  have "\<exists>r. add_kvs vt vc ?res ?msg = Inr r \<and> same_meta (msg_meta ?msg) (msg_meta r)
      \<and> length (msg_data r) = (if kv_lens ?res = [] then 2 else 3)
      \<and> read_kvs vc (msg_data r) = Inr (?res\<lparr>kv_priority := 0\<rparr>)"
    using m by (intro add_kvs_ok[OF vc]) (auto simp: kv_request_def Message_init_def Meta_init_def)
  then obtain r where r: "add_kvs vt vc ?res ?msg = Inr r" "same_meta (msg_meta ?msg) (msg_meta r)"
    "length (msg_data r) = 2" "read_kvs vc (msg_data r) = Inr ?res" by (auto simp: KVPairs_empty_def)
  have "server_handle vt vc m (s, sc) = Inr (van_send r (s\<lparr>kvs_store := store'\<rparr>, sc))"
    using st r(1) fl by (simp add: server_handle_request[OF m] KVServerDefaultHandle_def Server_Response_def)
  moreover have "kv_response vc me cid ts True r ?res"
    using r same_metaD[OF r(2)] f
    by (simp add: kv_response_def kv_meta_def Message_init_def Meta_init_def Control_init_def Control_empty_def)
  ultimately show ?thesis using st(2) by (auto simp: van_send_def)
qed

lemma server_push:
  assumes vc: "codec_ok vc" and m: "kv_request vc m kvs" and len: "length (kv_vals kvs) = length (kv_keys kvs)"
    and f: "\<not> m_pull (msg_meta m)" "m_push (msg_meta m)" "m_sender (msg_meta m) = me"
      "m_customer_id (msg_meta m) = cid" "m_timestamp (msg_meta m) = ts"
  shows "\<exists>s' r. server_handle vt vc m (s, sc) = Inr (s', sc) \<and> outbox s' = outbox s @ [r]
    \<and> um_get 0 (kvs_store s') = fold (\<lambda>kv f. push_one f kv) (zip (kv_keys kvs) (kv_vals kvs)) (um_get 0 (kvs_store s))
    \<and> kv_response vc me cid ts False r kvs0"
proof -
  let ?meta = "kv_meta m"
  have fl: "\<not> km_pull ?meta" "km_push ?meta" using f by (auto simp: kv_meta_def)
  obtain store' where st: "default_loop True False (kv_keys kvs) (kv_vals kvs) (kvs_store s) = Inr (store', [])"
    "um_get 0 store' = fold (\<lambda>kv f. push_one f kv) (zip (kv_keys kvs) (kv_vals kvs)) (um_get 0 (kvs_store s))"
    using default_loop_push[OF len, of "kvs_store s"] by blast
  let ?msg = "Message_init\<lparr>msg_meta := Meta_init\<lparr>m_app_id := c_app_id sc,
        m_customer_id := km_customer_id ?meta, m_request := False, m_push := km_push ?meta, m_pull := km_pull ?meta,
        m_head := km_cmd ?meta, m_timestamp := km_timestamp ?meta, m_recver := km_sender ?meta\<rparr>\<rparr>"
  have "server_handle vt vc m (s, sc) = Inr (van_send ?msg (s\<lparr>kvs_store := store'\<rparr>, sc))"
    using st fl len by (simp add: server_handle_request[OF m] KVServerDefaultHandle_def Server_Response_def
        add_kvs_def KVPairs_empty_def)
  moreover have "kv_response vc me cid ts False ?msg kvs0"
    using f by (simp add: kv_response_def kv_meta_def Message_init_def Meta_init_def Control_init_def Control_empty_def)
  ultimately show ?thesis using st(2) by (auto simp: van_send_def)
qed

section \<open>The worker's receiving thread\<close>

definition worker_handle :: "'v codec \<Rightarrow> 'c Postoffice \<Rightarrow> 'v KVWorker recv_handle" where
  "worker_handle vc po = KVWorker_Process (Some default_request_handle) (Some default_response_handle) vc po"

lemma NumResponse_queue [simp]: "NumResponse (c\<lparr>c_recv_queue := q\<rparr>) ts = NumResponse c ts"
  by (simp add: NumResponse_def tracker_at_def)

lemma rbind_Inr_assoc: "rbind (rbind m (\<lambda>x. Inr (f x))) g = rbind m (\<lambda>x. g (f x))"
  by (cases m) simp_all

interpretation kvw: queue_blind "worker_handle vc po"
  "\<lambda>m a c. rbind (worker_handle vc po m (a, c)) (\<lambda>w. Inr (fst w))" for vc po
proof
  fix m c and a :: "'a KVWorker"
  show "worker_handle vc po m (a, c) =
      rbind (rbind (worker_handle vc po m (a, c\<lparr>c_recv_queue := []\<rparr>)) (\<lambda>w. Inr (fst w))) (\<lambda>a'. Inr (a', c))"
    by (simp add: worker_handle_def KVWorker_Process_def SimpleApp_Process_def default_request_handle_def
        default_response_handle_def Response_def van_send_def Response_msg_def Let_def rbind_assoc)
qed

definition store_answer :: "bool \<Rightarrow> int \<Rightarrow> 'v KVPairs \<Rightarrow> 'v KVWorker \<Rightarrow> 'v KVWorker" where
  "store_answer pull ts kvs a =
     (if pull then a\<lparr>kvw_recv_kvs := um_set ts (um_get [] (kvw_recv_kvs a) ts @ [kvs]) (kvw_recv_kvs a)\<rparr> else a)"

lemma worker_one:
  assumes m: "kv_response vc me cid ts pull m kvs" and t: "tracker_at c ts = Inr (n, j)"
  shows "handle_one (worker_handle vc po) m (a, c) =
    rbind (if j = po_num_servers po - 1 then RunCallback ts (store_answer pull ts kvs a)
           else Inr (store_answer pull ts kvs a)) (\<lambda>a'.
      Inr (a', c\<lparr>c_tracker := (c_tracker c)[nat ts := (n, j + 1)]\<rparr>))"
  using assms
  by (cases pull)
     (auto simp: handle_one_def worker_handle_def KVWorker_Process_def kv_response_def Let_def NumResponse_def
        AddResponse_def store_answer_def rbind_assoc)

lemma tracker_at_update:
  assumes "tracker_at c ts = Inr x"
  shows "tracker_at (c\<lparr>c_tracker := (c_tracker c)[nat ts := y]\<rparr>) ts = Inr y"
  using assms by (auto simp: tracker_at_def split: if_splits)

lemma worker_all:
  assumes "list_all2 (kv_response vc me cid ts pull) ms kvs" and "tracker_at c ts = Inr (n, j)"
    and "n = po_num_servers po" and "j + int (length ms) = n" and "ms \<noteq> []"
  shows "rfold (handle_one (worker_handle vc po)) ms (a, c) =
    rbind (RunCallback ts (fold (store_answer pull ts) kvs a)) (\<lambda>a'.
      Inr (a', c\<lparr>c_tracker := (c_tracker c)[nat ts := (n, n)]\<rparr>))"
  using assms
proof (induction ms arbitrary: kvs a c j)
  case (Cons m ms)
  obtain kv kvs' where kvs: "kvs = kv # kvs'" "kv_response vc me cid ts pull m kv"
    "list_all2 (kv_response vc me cid ts pull) ms kvs'" using Cons.prems(1) by (cases kvs) auto
  show ?case
  proof (cases "ms = []")
    case True
    then have "j = n - 1" "kvs' = []" using Cons.prems(4) kvs(3) by auto
    then show ?thesis using worker_one[OF kvs(2) Cons.prems(2), of po a] Cons.prems(3) True kvs(1)
      by (cases "RunCallback ts (store_answer pull ts kv a)") simp_all
  next
    case False
    let ?c = "c\<lparr>c_tracker := (c_tracker c)[nat ts := (n, j + 1)]\<rparr>"
    have "j \<noteq> po_num_servers po - 1" using Cons.prems(3,4) False by (cases ms) auto
    then have "handle_one (worker_handle vc po) m (a, c) = Inr (store_answer pull ts kv a, ?c)"
      using worker_one[OF kvs(2) Cons.prems(2), of po a] by simp
    moreover have "rfold (handle_one (worker_handle vc po)) ms (store_answer pull ts kv a, ?c) =
        rbind (RunCallback ts (fold (store_answer pull ts) kvs' (store_answer pull ts kv a))) (\<lambda>a'.
          Inr (a', ?c\<lparr>c_tracker := (c_tracker ?c)[nat ts := (n, n)]\<rparr>))"
      using Cons.prems False by (intro Cons.IH[OF kvs(3) tracker_at_update[OF Cons.prems(2)]]) auto
    ultimately show ?thesis by (simp add: kvs(1))
  qed
qed simp

lemma fold_store_answer:
  "um_get [] (kvw_recv_kvs (fold (store_answer True ts) kvs a)) ts = um_get [] (kvw_recv_kvs a) ts @ kvs"
  "kvw_callbacks (fold (store_answer pull ts) kvs a) = kvw_callbacks a"
  "kvw_vbufs (fold (store_answer pull ts) kvs a) = kvw_vbufs a"
  "kvw_lbufs (fold (store_answer pull ts) kvs a) = kvw_lbufs a"
  "kvw_cb_log (fold (store_answer pull ts) kvs a) = kvw_cb_log a"
  "fold (store_answer False ts) kvs a = a"
  "outbox (fold (store_answer pull ts) kvs a) = outbox a"
  by (induction kvs arbitrary: a) (simp_all add: store_answer_def)

section \<open>Sending\<close>

definition flagged :: "nat \<Rightarrow> 'v SlicedKVs \<Rightarrow> (nat \<times> 'v KVPairs) list" where
  "flagged i sl = map (\<lambda>(j, f, kv). (j, kv)) (filter (\<lambda>(j, f, kv). f) (enumerate i sl))"

lemma flagged_simps [simp]:
  "flagged i [] = []"
  "flagged i ((f, kv) # sl) = (if f then (i, kv) # flagged (Suc i) sl else flagged (Suc i) sl)"
  by (simp_all add: flagged_def)

text \<open>A request as a server sees it, for the part \<open>jkv\<close> of the request.\<close>

definition part_request ::
  "'v codec \<Rightarrow> int \<Rightarrow> int \<Rightarrow> int \<Rightarrow> bool \<Rightarrow> bool \<Rightarrow> Message \<Rightarrow> nat \<times> 'v KVPairs \<Rightarrow> bool" where
  "part_request vc me cid ts push pull m jkv \<longleftrightarrow>
     m_recver (msg_meta m) = ServerRankToID (int (fst jkv)) \<and> kv_request vc (sent_by me m) (snd jkv)
     \<and> m_push (msg_meta m) = push \<and> m_pull (msg_meta m) = pull \<and> m_customer_id (msg_meta m) = cid
     \<and> m_timestamp (msg_meta m) = ts"

definition sendable :: "'v KVPairs \<Rightarrow> bool" where
  "sendable kv \<longleftrightarrow> kv_keys kv \<noteq> [] \<and> kv_priority kv = 0 \<and> (kv_lens kv \<noteq> [] \<longrightarrow> length (kv_lens kv) = length (kv_keys kv))"

lemma slice_msg_ok:
  assumes vc: "codec_ok vc" and kv: "sendable kv"
  shows "\<exists>m. slice_msg vt vc c ts push pull cmd prio j kv = Inr m
    \<and> part_request vc me (c_customer_id c) ts push pull m (j, kv)"
proof -
  let ?msg = "Message_init\<lparr>msg_meta := Meta_init\<lparr>m_app_id := c_app_id c,
       m_customer_id := c_customer_id c, m_request := True, m_push := push, m_pull := pull, m_head := cmd,
       m_timestamp := ts, m_recver := ServerRankToID (int j), m_priority := prio\<rparr>\<rparr>"
  have "\<exists>m. add_kvs vt vc kv ?msg = Inr m \<and> same_meta (msg_meta ?msg) (msg_meta m)
      \<and> length (msg_data m) = (if kv_lens kv = [] then 2 else 3)
      \<and> read_kvs vc (msg_data m) = Inr (kv\<lparr>kv_priority := 0\<rparr>)"
    using kv by (intro add_kvs_ok[OF vc]) (auto simp: sendable_def Message_init_def Meta_init_def)
  then obtain m where m: "add_kvs vt vc kv ?msg = Inr m" "same_meta (msg_meta ?msg) (msg_meta m)"
    "length (msg_data m) = (if kv_lens kv = [] then 2 else 3)" "read_kvs vc (msg_data m) = Inr (kv\<lparr>kv_priority := 0\<rparr>)"
    by blast
  have "kv\<lparr>kv_priority := 0\<rparr> = kv" using kv by (cases kv) (simp add: sendable_def)
  then have "part_request vc me (c_customer_id c) ts push pull m (j, kv)"
    using m kv same_metaD[OF m(2)]
    by (auto simp: part_request_def kv_request_def sendable_def sent_by_def Message_init_def Meta_init_def)
  then show ?thesis using m(1) by (auto simp: slice_msg_def)
qed

lemma send_slices_ok:
  assumes vc: "codec_ok vc"
  shows "\<forall>(f, kv) \<in> set sl. f \<longrightarrow> sendable kv \<Longrightarrow>
    \<exists>ms. send_slices (slice_msg vt vc c ts push pull cmd prio) i sl (a, c0) = Inr (a\<lparr>outbox := outbox a @ ms\<rparr>, c0)
      \<and> list_all2 (part_request vc me (c_customer_id c) ts push pull) ms (flagged i sl)"
proof (induction sl arbitrary: i a)
  case (Cons s sl)
  obtain f kv where s: "s = (f, kv)" by (rule prod.exhaust)
  show ?case
  proof (cases f)
    case True
    then have "sendable kv" using Cons.prems s by auto
    then obtain m where m: "slice_msg vt vc c ts push pull cmd prio i kv = Inr m"
      "part_request vc me (c_customer_id c) ts push pull m (i, kv)" using slice_msg_ok[OF vc] by blast
    obtain ms where "send_slices (slice_msg vt vc c ts push pull cmd prio) (Suc i) sl (a\<lparr>outbox := outbox a @ [m]\<rparr>, c0)
        = Inr (a\<lparr>outbox := (outbox a @ [m]) @ ms\<rparr>, c0)"
      "list_all2 (part_request vc me (c_customer_id c) ts push pull) ms (flagged (Suc i) sl)"
      using Cons.IH[of "Suc i" "a\<lparr>outbox := outbox a @ [m]\<rparr>"] Cons.prems by auto
    then show ?thesis using m s True by (intro exI[of _ "m # ms"]) (simp add: van_send_def)
  next
    case False
    then show ?thesis using Cons.IH[of "Suc i" a] Cons.prems s by auto
  qed
qed simp

section \<open>Serving\<close>

text \<open>The servers \<open>srv\<close> handle the requests addressed to them; the answers are as the worker sees them.\<close>

fun serve ::
  "ctype \<Rightarrow> 'v::{zero, plus} codec \<Rightarrow> int \<Rightarrow> Message list \<Rightarrow> (int \<Rightarrow> 'v KVServer world)
   \<Rightarrow> ((int \<Rightarrow> 'v KVServer world) \<times> Message list) res" where
  "serve vt vc me [] srv = Inr (srv, [])"
| "serve vt vc me (m # ms) srv =
     (let i = IDtoRank (m_recver (msg_meta m)) in
      rbind (server_handle vt vc (sent_by me m) (srv i)) (\<lambda>w.
      rbind (serve vt vc me ms (srv(i := w))) (\<lambda>(srv', answers).
        Inr (srv', sent_by (m_recver (msg_meta m)) (last (outbox (fst w))) # answers))))"

abbreviation value_at :: "(int \<Rightarrow> 'v::zero KVServer world) \<Rightarrow> int \<Rightarrow> u64 \<Rightarrow> 'v" where
  "value_at srv i \<equiv> um_get 0 (kvs_store (fst (srv i)))"

lemma IDtoRank_server [simp]: "IDtoRank (ServerRankToID (int j)) = int j"
  by (simp add: IDtoRank_def ServerRankToID_def)

lemma kv_response_sent_by: "kv_response vc me cid ts pull (sent_by x m) kvs = kv_response vc me cid ts pull m kvs"
  by (simp add: kv_response_def sent_by_def)

text \<open>The pairs a server answers a pull of \<open>keys\<close> with.\<close>

definition pulled :: "(u64 \<Rightarrow> 'v) \<Rightarrow> 'v KVPairs \<Rightarrow> 'v KVPairs" where
  "pulled val kv = KVPairs_empty\<lparr>kv_keys := kv_keys kv, kv_vals := map val (kv_keys kv)\<rparr>"

lemma serve_pull:
  assumes vc: "codec_ok vc"
  shows "list_all2 (part_request vc me cid ts False True) ms jks \<Longrightarrow>
    \<exists>srv' as. serve vt vc me ms srv = Inr (srv', as)
      \<and> list_all2 (kv_response vc me cid ts True) as (map (\<lambda>(j, kv). pulled (value_at srv (int j)) kv) jks)
      \<and> (\<forall>i. value_at srv' i = value_at srv i)"
proof (induction ms jks arbitrary: srv rule: list_all2_induct)
  case (Cons m ms jk jks)
  obtain j kv where jk: "jk = (j, kv)" by (rule prod.exhaust)
  obtain s sc where w: "srv (int j) = (s, sc)" by (rule prod.exhaust)
  have m: "IDtoRank (m_recver (msg_meta m)) = int j" "kv_request vc (sent_by me m) kv"
    using Cons.hyps(1) jk by (auto simp: part_request_def)
  obtain s' r where r: "server_handle vt vc (sent_by me m) (s, sc) = Inr (s', sc)" "outbox s' = outbox s @ [r]"
    "\<forall>k. um_get 0 (kvs_store s') k = um_get 0 (kvs_store s) k"
    "kv_response vc me cid ts True r (pulled (um_get 0 (kvs_store s)) kv)"
    using server_pull[OF vc m(2), of me cid ts vt s sc] Cons.hyps(1) jk
    by (auto simp: part_request_def sent_by_def pulled_def)
  define srv1 where "srv1 = srv(int j := (s', sc))"
  have val: "value_at srv1 i = value_at srv i" for i using r(3) w by (auto simp: fun_eq_iff srv1_def)
  from Cons.IH[of srv1] obtain srv' as where rest: "serve vt vc me ms srv1 = Inr (srv', as)"
    "list_all2 (kv_response vc me cid ts True) as (map (\<lambda>(j, kv). pulled (value_at srv1 (int j)) kv) jks)"
    "\<forall>i. value_at srv' i = value_at srv1 i" by blast
  show ?case using rest r(1,2,4) w jk m(1)
    by (auto simp: val srv1_def[symmetric] kv_response_sent_by Let_def)
qed simp

lemma fold_push_one:
  assumes "distinct (map fst kvs)"
  shows "fold (\<lambda>kv f. push_one f kv) kvs f k = (case map_of kvs k of None \<Rightarrow> f k | Some v \<Rightarrow> f k + v)"
  using assms
proof (induction kvs arbitrary: f)
  case (Cons kv kvs)
  have "fold (\<lambda>kv f. push_one f kv) kvs (push_one f kv) k
      = (case map_of kvs k of None \<Rightarrow> push_one f kv k | Some v \<Rightarrow> push_one f kv k + v)"
    using Cons by simp
  moreover have "k = fst kv \<Longrightarrow> map_of kvs k = None" using Cons.prems by (simp add: map_of_eq_None_iff)
  moreover have "push_one f kv k = (if k = fst kv then f k + snd kv else f k)" by (auto simp: push_one_def)
  ultimately show ?case by (cases kv; cases "k = fst kv") (simp_all split: option.splits)
qed simp

text \<open>The values after the parts \<open>jks\<close> have been pushed.\<close>

definition pushed :: "(nat \<times> 'v::plus KVPairs) list \<Rightarrow> int \<Rightarrow> (u64 \<Rightarrow> 'v) \<Rightarrow> u64 \<Rightarrow> 'v" where
  "pushed jks i f = (case find (\<lambda>jk. int (fst jk) = i) jks of None \<Rightarrow> f
     | Some jk \<Rightarrow> fold (\<lambda>kv f. push_one f kv) (zip (kv_keys (snd jk)) (kv_vals (snd jk))) f)"

lemma serve_push:
  assumes vc: "codec_ok vc"
  shows "list_all2 (part_request vc me cid ts True False) ms jks \<Longrightarrow> distinct (map fst jks) \<Longrightarrow>
    \<forall>jk \<in> set jks. length (kv_vals (snd jk)) = length (kv_keys (snd jk)) \<Longrightarrow>
    \<exists>srv' as. serve vt vc me ms srv = Inr (srv', as)
      \<and> list_all2 (kv_response vc me cid ts False) as (map snd jks)
      \<and> (\<forall>i. value_at srv' i = pushed jks i (value_at srv i))"
proof (induction ms jks arbitrary: srv rule: list_all2_induct)
  case (Cons m ms jk jks)
  obtain j kv where jk: "jk = (j, kv)" by (rule prod.exhaust)
  obtain s sc where w: "srv (int j) = (s, sc)" by (rule prod.exhaust)
  have m: "IDtoRank (m_recver (msg_meta m)) = int j" "kv_request vc (sent_by me m) kv"
    using Cons.hyps(1) jk by (auto simp: part_request_def)
  have len: "length (kv_vals kv) = length (kv_keys kv)" using Cons.prems(2) jk by simp
  obtain s' r where r: "server_handle vt vc (sent_by me m) (s, sc) = Inr (s', sc)" "outbox s' = outbox s @ [r]"
    "um_get 0 (kvs_store s') = fold (\<lambda>kv f. push_one f kv) (zip (kv_keys kv) (kv_vals kv)) (um_get 0 (kvs_store s))"
    "kv_response vc me cid ts False r kv"
    using server_push[OF vc m(2) len, where me = me and cid = cid and ts = ts and vt = vt and s = s and sc = sc
        and ?kvs0.0 = kv] Cons.hyps(1) jk
    by (auto simp: part_request_def sent_by_def)
  define srv1 where "srv1 = srv(int j := (s', sc))"
  from Cons.IH[of srv1] Cons.prems obtain srv' as where rest: "serve vt vc me ms srv1 = Inr (srv', as)"
    "list_all2 (kv_response vc me cid ts False) as (map snd jks)"
    "\<forall>i. value_at srv' i = pushed jks i (value_at srv1 i)" by auto
  have "find (\<lambda>jk. fst jk = j) jks = None" using Cons.prems(1) jk by (force simp: find_None_iff)
  then have "pushed (jk # jks) i (value_at srv i) = pushed jks i (value_at srv1 i)" for i
    using r(3) w jk by (auto simp: pushed_def srv1_def)
  then show ?case using rest r(1,2,4) w jk m(1)
    by (auto simp: srv1_def[symmetric] kv_response_sent_by Let_def)
qed (simp add: pushed_def)

section \<open>The parts of a request\<close>

lemma flagged_ge: "jk \<in> set (flagged i sl) \<Longrightarrow> i \<le> fst jk"
proof (induction sl arbitrary: i)
  case (Cons s sl)
  have "jk \<in> set (flagged (Suc i) sl) \<Longrightarrow> i \<le> fst jk" using Cons.IH[of "Suc i"] Suc_leD by blast
  then show ?case using Cons.prems by (cases s) (auto split: if_splits)
qed simp

lemma flagged_nth: "(j, kv) \<in> set (flagged i sl) \<Longrightarrow> j - i < length sl \<and> sl ! (j - i) = (True, kv)"
proof (induction sl arbitrary: i)
  case (Cons s sl)
  obtain f kv' where s: "s = (f, kv')" by (rule prod.exhaust)
  show ?case
  proof (cases "f \<and> (j, kv) = (i, kv')")
    case True
    then show ?thesis using s by simp
  next
    case False
    then have m: "(j, kv) \<in> set (flagged (Suc i) sl)" using Cons.prems s by (auto split: if_splits)
    then have "Suc i \<le> j" using flagged_ge by fastforce
    then have "j - i = Suc (j - Suc i)" by simp
    then show ?thesis using Cons.IH[OF m] by simp
  qed
qed simp

lemma distinct_flagged: "distinct (map fst (flagged i sl))"
proof (induction sl arbitrary: i)
  case (Cons s sl)
  have "i \<notin> fst ` set (flagged (Suc i) sl)" using flagged_ge by fastforce
  then show ?case using Cons by (cases s) simp
qed simp

lemma concat_flagged:
  "\<forall>(f, kv) \<in> set sl. \<not> f \<longrightarrow> g kv = [] \<Longrightarrow> concat (map (g \<circ> snd) (flagged i sl)) = concat (map (g \<circ> snd) sl)"
  by (induction sl arbitrary: i) auto

lemma length_flagged: "length (flagged i sl) + skipped sl = length sl"
  by (induction sl arbitrary: i) (auto simp: skipped_def)

definition owner :: "int \<Rightarrow> u64 \<Rightarrow> nat" where
  "owner n k = unat k div key_quota n"

text \<open>A worker's request in an office with \<open>n\<close> servers: sorted distinct keys that have servers.\<close>

definition valid_keys :: "int \<Rightarrow> u64 list \<Rightarrow> bool" where
  "valid_keys n keys \<longleftrightarrow> sorted keys \<and> distinct keys \<and> length keys < 2 ^ 64
     \<and> list_all (\<lambda>k. unat k < key_quota n * nat n) keys"

definition office_ok :: "int \<Rightarrow> 'c Postoffice \<Rightarrow> bool" where
  "office_ok n po \<longleftrightarrow> table_inv po \<and> 0 < po_init_stage po \<and> po_num_servers po = n \<and> 0 < n \<and> n < 2 ^ 31"

lemma office_ranges: "office_ok n po \<Longrightarrow> snd (GetServerKeyRanges po) = key_ranges n"
  by (auto simp: office_ok_def table_inv_def GetServerKeyRanges_def Let_def key_ranges_def)

lemma key_ranges_cover:
  assumes "0 < n" "n < 2 ^ 31" "unat k < key_quota n * nat n"
  shows "r_begin (hd (key_ranges n)) \<le> k \<and> k < r_end (last (key_ranges n))"
proof -
  have ne: "key_ranges n \<noteq> []" using assms(1) by (metis length_key_ranges list.size(3) zero_less_nat_eq less_numeral_extra(3))
  have "unat (r_begin (hd (key_ranges n))) = 0"
    using key_range_unat(1)[OF assms(1,2), of 0] assms(1) ne by (simp add: hd_conv_nth)
  moreover have "unat (r_end (last (key_ranges n))) = key_quota n * nat n"
    using key_range_unat(2)[OF assms(1,2), of "nat n - 1"] assms(1) ne by (simp add: last_conv_nth)
  ultimately show ?thesis using assms(3) by (simp add: word_le_nat_alt word_less_nat_alt)
qed

lemma request_parts:
  assumes po: "office_ok n po" and keys: "valid_keys n (kv_keys kvs)" and fit: "vals_fit kvs"
  shows "\<exists>sl. DefaultSlicer kvs (snd (GetServerKeyRanges po)) = Inr sl
    \<and> length sl = nat n \<and> (\<forall>(f, kv) \<in> set sl. f \<longrightarrow> sendable kv)
    \<and> (\<forall>(j, kv) \<in> set (flagged 0 sl). kv_keys kv \<noteq> [] \<and> (\<forall>k \<in> set (kv_keys kv). owner n k = j)
         \<and> (\<exists>r. kv_keys kv = filter (\<lambda>k. in_range k r) (kv_keys kvs))
         \<and> length (kv_vals kv) = (if kv_lens kvs = []
              then length (kv_keys kv) * (length (kv_vals kvs) div length (kv_keys kvs)) else lens_sum (kv_lens kv)))
    \<and> concat (map (kv_keys \<circ> snd) (flagged 0 sl)) = kv_keys kvs
    \<and> concat (map (kv_vals \<circ> snd) (flagged 0 sl)) = kv_vals kvs"
proof -
  have n: "0 < n" "n < 2 ^ 31" using po by (auto simp: office_ok_def)
  have cover: "\<forall>k \<in> set (kv_keys kvs). r_begin (hd (key_ranges n)) \<le> k \<and> k < r_end (last (key_ranges n))"
    using keys key_ranges_cover[OF n] by (auto simp: valid_keys_def list_all_iff)
  have srt: "sorted (kv_keys kvs)" using keys by (simp add: valid_keys_def)
  define sl where "sl = map (\<lambda>(p, q). (p \<noteq> q, part kvs p q)) (pairs 0 (map (\<lambda>r. lower_bound (kv_keys kvs) (r_end r)) (key_ranges n)))"
  note F = slices_facts[OF srt key_ranges_ok[OF n] fit cover sl_def]
  have len: "length sl = nat n" by (simp add: sl_def)
  have at: "\<exists>p q. sl ! i = (p \<noteq> q, part kvs p q) \<and> p \<le> q \<and> q \<le> length (kv_keys kvs)
      \<and> kv_keys (part kvs p q) = filter (\<lambda>k. in_range k (key_ranges n ! i)) (kv_keys kvs)" if "i < nat n" for i
    using F(1)[of i] that by simp
  have send: "f \<longrightarrow> sendable kv" "\<not> f \<longrightarrow> kv_keys kv = [] \<and> kv_vals kv = []" if m: "(f, kv) \<in> set sl" for f kv
  proof -
    obtain i where i: "i < nat n" "sl ! i = (f, kv)" using m len by (metis in_set_conv_nth)
    obtain p q where pq: "sl ! i = (p \<noteq> q, part kvs p q)" "p \<le> q" "q \<le> length (kv_keys kvs)"
      using at[OF i(1)] by blast
    have fk: "f = (p \<noteq> q)" "kv = part kvs p q" using i(2) pq(1) by auto
    note L = length_part[OF fit pq(2,3)]
    have "f \<longrightarrow> kv_keys kv \<noteq> []" using fk L(1) pq(2) by (metis diff_is_0_eq le_antisym list.size(3))
    moreover have "kv_lens kv \<noteq> [] \<longrightarrow> kv_lens kvs \<noteq> []" using fk(2) by (auto simp: part_def seg_def)
    moreover have "kv_priority kv = 0" using fk(2) by (simp add: part_def)
    ultimately show "f \<longrightarrow> sendable kv" using fk(2) L(1,3) by (simp add: sendable_def)
    show "\<not> f \<longrightarrow> kv_keys kv = [] \<and> kv_vals kv = []" using fk by (simp add: part_same KVPairs_empty_def)
  qed
  have flag: "kv_keys kv \<noteq> [] \<and> (\<forall>k \<in> set (kv_keys kv). owner n k = j)
      \<and> (\<exists>r. kv_keys kv = filter (\<lambda>k. in_range k r) (kv_keys kvs))
      \<and> length (kv_vals kv) = (if kv_lens kvs = []
           then length (kv_keys kv) * (length (kv_vals kvs) div length (kv_keys kvs)) else lens_sum (kv_lens kv))"
    if m: "(j, kv) \<in> set (flagged 0 sl)" for j kv
  proof -
    have j: "j < nat n" "sl ! j = (True, kv)" using flagged_nth[OF m] len by simp_all
    obtain p q where pq: "sl ! j = (p \<noteq> q, part kvs p q)" "p \<le> q" "q \<le> length (kv_keys kvs)"
      "kv_keys (part kvs p q) = filter (\<lambda>k. in_range k (key_ranges n ! j)) (kv_keys kvs)" using at[OF j(1)] by blast
    have kv: "kv = part kvs p q" using j(2) pq(1) by simp
    have "kv_keys kv \<noteq> []" using send(1)[of True kv] j len by (metis nth_mem sendable_def)
    moreover have "\<exists>r. kv_keys kv = filter (\<lambda>k. in_range k r) (kv_keys kvs)" using pq(4) kv by blast
    moreover have "\<forall>k \<in> set (kv_keys kv). owner n k = j"
      using pq(4) in_key_range[OF n j(1)] by (simp add: kv owner_def)
    ultimately show ?thesis using length_part(1,2)[OF fit pq(2,3)] by (simp add: kv)
  qed
  have u: "\<forall>(f, kv) \<in> set sl. \<not> f \<longrightarrow> kv_keys kv = []" "\<forall>(f, kv) \<in> set sl. \<not> f \<longrightarrow> kv_vals kv = []"
    using send(2) by blast+
  have "concat (map (kv_keys \<circ> snd) (flagged 0 sl)) = kv_keys kvs"
    "concat (map (kv_vals \<circ> snd) (flagged 0 sl)) = kv_vals kvs"
    unfolding concat_flagged[OF u(1)] concat_flagged[OF u(2)] by (fact F(2), fact F(3))
  moreover have "DefaultSlicer kvs (snd (GetServerKeyRanges po)) = Inr sl"
    unfolding office_ranges[OF po] sl_def by (rule DefaultSlicer_parts[OF srt key_ranges_ok[OF n] fit cover])
  ultimately show ?thesis using len send(1) flag by (intro exI[of _ sl] conjI) auto
qed

section \<open>Requests from end to end\<close>

lemma new_server_request:
  assumes po: "office_ok n po"
  shows "NewRequest po kServerGroup c = Inr (int (length (c_tracker c)), c\<lparr>c_tracker := c_tracker c @ [(n, 0)]\<rparr>)"
proof -
  have "server_ids n \<noteq> []" "length (server_ids n) = nat n" using po by (auto simp: server_ids_def office_ok_def)
  moreover have "bit (2::int) (Suc 0)" "\<not> bit (2::int) 2" "\<not> bit (2::int) 0" by simp_all
  ultimately have "GetNodeIDs po kServerGroup = Inr (server_ids n)"
    using po by (simp add: office_ok_def table_inv_def group_members_def kServerGroup_def)
  then show ?thesis using \<open>length (server_ids n) = nat n\<close> po by (simp add: NewRequest_def Let_def office_ok_def)
qed

text \<open>The customer right after a request with \<open>k\<close> servers to answer was sent.\<close>

definition sent_customer :: "int \<Rightarrow> nat \<Rightarrow> Customer \<Rightarrow> Customer" where
  "sent_customer n k c = c\<lparr>c_tracker := c_tracker c @ [(n, n - int k)]\<rparr>"

lemma worker_sends:
  fixes a :: "'v KVWorker"
  assumes po: "office_ok n po" and keys: "valid_keys n (kv_keys kvs)" and fit: "vals_fit kvs" and vc: "codec_ok vc"
    and c: "c1 = c\<lparr>c_tracker := c_tracker c @ [(n, 0)]\<rparr>" and ts: "ts = int (length (c_tracker c))"
    and sl: "DefaultSlicer kvs (snd (GetServerKeyRanges po)) = Inr sl" "length sl = nat n"
      "\<forall>(f, kv) \<in> set sl. f \<longrightarrow> sendable kv"
  shows "\<exists>ms. list_all2 (part_request vc me (c_customer_id c) ts push pull) ms (flagged 0 sl)
    \<and> Send vt vc DefaultSlicer po ts push pull cmd kvs (a, c1) =
       rbind (if ms = [] then RunCallback ts a else Inr a) (\<lambda>a'.
         Inr (a'\<lparr>outbox := outbox a' @ ms\<rparr>, sent_customer n (length ms) c))"
proof -
  have n: "0 < n" using po by (simp add: office_ok_def)
  let ?c2 = "c\<lparr>c_tracker := c_tracker c @ [(n, int (skipped sl))]\<rparr>"
  have add: "AddResponse ts (int (skipped sl)) c1 = Inr ?c2"
    by (simp add: c ts AddResponse_def tracker_at_def)
  have snd: "\<exists>ms. send_slices (slice_msg vt vc ?c2 ts push pull cmd (kv_priority kvs)) 0 sl (a', ?c2)
      = Inr (a'\<lparr>outbox := outbox a' @ ms\<rparr>, ?c2)
    \<and> list_all2 (part_request vc me (c_customer_id ?c2) ts push pull) ms (flagged 0 sl)" for a' :: "'v KVWorker"
    by (rule send_slices_ok[OF vc sl(3)])
  have skip: "length (flagged 0 sl) + skipped sl = nat n" using length_flagged[of 0 sl] sl(2) by simp
  have send: "Send vt vc DefaultSlicer po ts push pull cmd kvs (a, c1) =
      rbind (if skipped sl = length sl then RunCallback ts a else Inr a) (\<lambda>a'.
        send_slices (slice_msg vt vc ?c2 ts push pull cmd (kv_priority kvs)) 0 sl (a', ?c2))"
    using add by (simp add: Send_def sl(1))
  show ?thesis
  proof (cases "skipped sl = length sl")
    case True
    then have none: "flagged 0 sl = []" "int (skipped sl) = n" using skip sl(2) n by auto
    have "send_slices (slice_msg vt vc ?c2 ts push pull cmd (kv_priority kvs)) 0 sl (a', ?c2)
        = Inr (a'\<lparr>outbox := outbox a' @ []\<rparr>, ?c2)" for a' :: "'v KVWorker"
      using snd[of a'] none(1) by auto
    then show ?thesis using none by (intro exI[of _ "[]"]) (simp add: send True sent_customer_def)
  next
    case False
    obtain ms where ms: "send_slices (slice_msg vt vc ?c2 ts push pull cmd (kv_priority kvs)) 0 sl (a, ?c2)
        = Inr (a\<lparr>outbox := outbox a @ ms\<rparr>, ?c2)"
      "list_all2 (part_request vc me (c_customer_id c) ts push pull) ms (flagged 0 sl)" using snd[of a] by auto
    then have len: "length ms + skipped sl = nat n" using skip list_all2_lengthD by fastforce
    then have "ms \<noteq> []" "n - int (length ms) = int (skipped sl)" using False sl(2) n by auto
    then show ?thesis using ms False by (intro exI[of _ ms]) (simp add: send sent_customer_def)
  qed
qed

lemma sent_tracker:
  "tracker_at (sent_customer n k c) (int (length (c_tracker c))) = Inr (n, n - int k)"
  by (simp add: tracker_at_def sent_customer_def)

lemma worker_receives:
  assumes po: "office_ok n po" and r: "list_all2 (kv_response vc me cid ts pull) as kvs" and ne: "as \<noteq> []"
    and perm: "mset answers = mset as" and ts: "ts = int (length (c_tracker c))"
    and c: "c_running c" "c_recv_queue c = []"
  shows "\<exists>kvs'. mset kvs' = mset kvs \<and>
    (\<forall>a'. RunCallback ts (fold (store_answer pull ts) kvs' a) = Inr a' \<longrightarrow>
      Receiving (worker_handle vc po) (length answers) (a, fold Accept answers (sent_customer n (length as) c))
        = Inr (a', sent_customer n 0 c))"
proof -
  let ?c0 = "sent_customer n (length as) c" and ?H = "worker_handle vc po"
  let ?c2 = "fold Accept answers ?c0"
  have c0: "c_running ?c0" "c_recv_queue ?c0 = []" using c by (simp_all add: sent_customer_def)
  have q: "heap_inv msg_prio (c_recv_queue ?c2)" "mset (c_recv_queue ?c2) = mset answers"
    using pq.pushes_ok[of "[]" answers] c0(2) by (simp_all add: fold_Accept heap_inv_def)
  have stop: "\<not> is_stop m" if "m \<in> set as" for m
    using r that by (auto simp: list_all2_conv_all_nth in_set_conv_nth kv_response_def is_stop_def)
  have "set (c_recv_queue ?c2) = set as" using q(2) perm by (metis set_mset_mset)
  then have ns: "\<forall>m \<in> set (c_recv_queue ?c2). \<not> is_stop m" using stop by blast
  have len: "length answers = length (c_recv_queue ?c2)" using q(2) by (metis size_mset)
  have run: "c_running ?c2" using c0 by (simp add: fold_Accept)
  have c2: "?c2\<lparr>c_recv_queue := []\<rparr> = ?c0" using c0(2) by (cases ?c0) (simp add: fold_Accept)
  obtain ms where ms: "mset ms = mset (c_recv_queue ?c2)"
    "\<forall>w. rfold (handle_one ?H) ms (a, ?c0) = Inr w \<longrightarrow> Receiving ?H (length answers) (a, ?c2) = Inr w"
    using kvw.receiving_is_fold[OF run q(1) ns len, of vc po a] c2 by auto
  have "mset ms = mset as" using ms(1) q(2) perm by simp
  then obtain kvs' where kvs': "list_all2 (kv_response vc me cid ts pull) ms kvs'" "mset kvs' = mset kvs"
    using list_all2_reorder_left_invariance[OF r] by blast
  have l: "length ms = length as" using \<open>mset ms = mset as\<close> by (metis size_mset)
  have "rfold (handle_one ?H) ms (a, ?c0) = rbind (RunCallback ts (fold (store_answer pull ts) kvs' a)) (\<lambda>a'.
      Inr (a', ?c0\<lparr>c_tracker := (c_tracker ?c0)[nat ts := (n, n)]\<rparr>))"
    by (rule worker_all[OF kvs'(1), where j = "n - int (length as)"])
       (use l ne po sent_tracker[of n "length as" c] ts in \<open>auto simp: office_ok_def\<close>)
  moreover have "?c0\<lparr>c_tracker := (c_tracker ?c0)[nat ts := (n, n)]\<rparr> = sent_customer n 0 c"
    by (simp add: sent_customer_def ts)
  ultimately show ?thesis using kvs'(2) ms(2) by (intro exI[of _ kvs']) simp
qed

text \<open>No answers and no callback of requests still to be made.\<close>

definition worker_fresh :: "'v KVWorker \<Rightarrow> Customer \<Rightarrow> bool" where
  "worker_fresh a c \<longleftrightarrow>
     list_all (\<lambda>e. fst e < int (length (c_tracker c))) (kvw_recv_kvs a)
     \<and> list_all (\<lambda>e. fst e < int (length (c_tracker c))) (kvw_callbacks a) \<and> c_running c \<and> c_recv_queue c = []"

lemma worker_fresh_recv: "worker_fresh a c \<Longrightarrow> um_get [] (kvw_recv_kvs a) (int (length (c_tracker c))) = []"
  by (auto simp: worker_fresh_def um_get_def list_all_iff dest!: map_of_SomeD split: option.splits)

lemma WaitRequest_sent: "WaitRequest (sent_customer n 0 c) (int (length (c_tracker c))) = Inr True"
  by (simp add: WaitRequest_def sent_tracker)

lemma answers_pulled:
  assumes "\<forall>(j, kv) \<in> set jks. kv_keys kv \<noteq> [] \<and> (\<exists>r. kv_keys kv = filter (\<lambda>k. in_range k r) keys)"
    and "concat (map (kv_keys \<circ> snd) jks) = keys"
  shows "answers_of keys (map (\<lambda>(j, kv). pulled (val j) kv) jks)"
  using assms by (fastforce simp: answers_of_def pulled_def KVPairs_empty_def comp_def case_prod_beta)

lemma concat_pulled:
  assumes "\<forall>(j, kv) \<in> set jks. \<forall>k \<in> set (kv_keys kv). owner n k = j" and "concat (map (kv_keys \<circ> snd) jks) = keys"
  shows "concat (map kv_vals (map (\<lambda>(j, kv). pulled (val j) kv) jks)) = map (\<lambda>k. val (owner n k) k) keys"
proof -
  have "map kv_vals (map (\<lambda>(j, kv). pulled (val j) kv) jks)
      = map (map (\<lambda>k. val (owner n k) k)) (map (kv_keys \<circ> snd) jks)"
    using assms(1) by (auto simp: pulled_def KVPairs_empty_def)
  then show ?thesis using assms(2) by (simp only: map_concat[symmetric])
qed

lemma pull_callback:
  assumes keys: "valid_keys n keys"
    and jks: "\<forall>(j, kv) \<in> set jks. kv_keys kv \<noteq> [] \<and> (\<forall>k \<in> set (kv_keys kv). owner n k = j)
        \<and> (\<exists>r. kv_keys kv = filter (\<lambda>k. in_range k r) keys)" "concat (map (kv_keys \<circ> snd) jks) = keys"
    and cb: "um_find (kvw_callbacks a) ts = Some (PullCB ts keys (Some (Own b)) None (Some f))"
    and recv: "um_get [] (kvw_recv_kvs a) ts = []"
    and buf: "um_get [] (kvw_vbufs a) b = [] \<or> length (um_get [] (kvw_vbufs a) b) = length keys"
    and perm: "mset kvs' = mset (map (\<lambda>(j, kv). pulled (val j) kv) jks)"
  shows "\<exists>a'. RunCallback ts (fold (store_answer True ts) kvs' a) = Inr a' \<and> outbox a' = outbox a
    \<and> um_get [] (kvw_vbufs a') b = map (\<lambda>k. val (owner n k) k) keys \<and> kvw_cb_log a' = kvw_cb_log a @ [f]"
proof -
  let ?S = "map (\<lambda>(j, kv). pulled (val j) kv) jks" and ?w = "fold (store_answer True ts) kvs' a"
  let ?vs = "map (\<lambda>k. val (owner n k) k) keys"
  have k: "sorted keys" "distinct keys" "length keys < 2 ^ 64" using keys by (auto simp: valid_keys_def)
  have S: "answers_of keys ?S" using jks by (intro answers_pulled) auto
  have vs: "concat (map kv_vals ?S) = ?vs" using jks by (intro concat_pulled) auto
  have m: "mset (um_get [] (kvw_recv_kvs ?w) ts) = mset ?S" using recv perm by (simp add: fold_store_answer)
  have "run_pull ts keys (Some (Own b)) None (Some f) ?w =
    rbind (fill_target (kvw_vbufs ?w) (Own b) (length ?vs) ?vs) (\<lambda>vb. Inr (run_user (Some f)
      (?w\<lparr>kvw_vbufs := vb, kvw_lbufs := kvw_lbufs ?w, kvw_recv_kvs := um_erase ts (kvw_recv_kvs ?w)\<rparr>)))"
    using run_pull_ok[OF k S _ m, of None "Own b" "Some f", unfolded vs] by simp
  moreover have "fill_target (kvw_vbufs ?w) (Own b) (length ?vs) ?vs = Inr (um_set b ?vs (kvw_vbufs a))"
    using buf by (auto simp: fill_target_def fold_store_answer)
  ultimately show ?thesis
    using cb by (simp add: RunCallback_def run_callback_def run_user_def fold_store_answer)
qed

text \<open>The parts \<open>jks\<close> of a request and the messages sent for them, for pushes and pulls alike.\<close>

definition parts_of :: "int \<Rightarrow> 'v KVPairs \<Rightarrow> (nat \<times> 'v KVPairs) list \<Rightarrow> bool" where
  "parts_of n kvs jks \<longleftrightarrow> distinct (map fst jks)
     \<and> (\<forall>(j, kv) \<in> set jks. kv_keys kv \<noteq> [] \<and> (\<forall>k \<in> set (kv_keys kv). owner n k = j)
         \<and> (\<exists>r. kv_keys kv = filter (\<lambda>k. in_range k r) (kv_keys kvs))
         \<and> length (kv_vals kv) = (if kv_lens kvs = []
              then length (kv_keys kv) * (length (kv_vals kvs) div length (kv_keys kvs)) else lens_sum (kv_lens kv)))
     \<and> concat (map (kv_keys \<circ> snd) jks) = kv_keys kvs \<and> concat (map (kv_vals \<circ> snd) jks) = kv_vals kvs"

lemma request_sent:
  fixes a :: "'v KVWorker"
  assumes ok: "office_ok n po" and keys: "valid_keys n (kv_keys kvs)" and fit: "vals_fit kvs" and vc: "codec_ok vc"
  shows "\<exists>jks ms. parts_of n kvs jks
    \<and> list_all2 (part_request vc me (c_customer_id c) (int (length (c_tracker c))) push pull) ms jks
    \<and> send_kvs (vt, vc, DefaultSlicer) po (int (length (c_tracker c))) push pull cmd kvs
         (a, c\<lparr>c_tracker := c_tracker c @ [(n, 0)]\<rparr>) =
       rbind (if ms = [] then RunCallback (int (length (c_tracker c))) a else Inr a) (\<lambda>a'.
         Inr (int (length (c_tracker c)), a'\<lparr>outbox := outbox a' @ ms\<rparr>, sent_customer n (length ms) c))"
proof -
  obtain sl where sl: "DefaultSlicer kvs (snd (GetServerKeyRanges po)) = Inr sl" "length sl = nat n"
      "\<forall>(f, kv) \<in> set sl. f \<longrightarrow> sendable kv" and parts: "parts_of n kvs (flagged 0 sl)"
    using request_parts[OF ok keys fit] distinct_flagged unfolding parts_of_def by blast
  obtain ms where "list_all2 (part_request vc me (c_customer_id c) (int (length (c_tracker c))) push pull) ms (flagged 0 sl)"
    "Send vt vc DefaultSlicer po (int (length (c_tracker c))) push pull cmd kvs
       (a, c\<lparr>c_tracker := c_tracker c @ [(n, 0)]\<rparr>) =
       rbind (if ms = [] then RunCallback (int (length (c_tracker c))) a else Inr a) (\<lambda>a'.
         Inr (a'\<lparr>outbox := outbox a' @ ms\<rparr>, sent_customer n (length ms) c))"
    using worker_sends[OF ok keys fit vc refl refl sl] by blast
  then show ?thesis using parts by (auto simp: send_kvs_def rbind_Inr_assoc)
qed

text \<open>
  The last step: when a callback that needs the answers \<open>S\<close> leads to a state with \<open>Q\<close>, so does the
  receiving thread, whatever the order in which the answers arrive.
\<close>

lemma request_finishes:
  fixes a :: "'v KVWorker"
  assumes ok: "office_ok n po" and c: "c_running c" "c_recv_queue c = []"
    and ms: "list_all2 (part_request vc me (c_customer_id c) (int (length (c_tracker c))) push pull) ms jks"
    and sent: "(a1, c1) = (a'\<lparr>outbox := outbox a' @ ms\<rparr>, sent_customer n (length ms) c)"
      "(if ms = [] then RunCallback (int (length (c_tracker c))) a else Inr a) = Inr a'"
    and as: "list_all2 (kv_response vc me (c_customer_id c) (int (length (c_tracker c))) pull) as S" "length S = length jks"
    and Q: "\<And>kvs' x. mset kvs' = mset S \<Longrightarrow> \<exists>a2.
        RunCallback (int (length (c_tracker c))) (fold (store_answer pull (int (length (c_tracker c)))) kvs' (a\<lparr>outbox := x\<rparr>)) = Inr a2 \<and> Q a2"
    and Q_outbox: "\<And>x y. Q (x\<lparr>outbox := y\<rparr>) = Q x"
    and perm: "mset answers = mset as"
  shows "\<exists>a2 c2. Receiving (worker_handle vc po) (length answers) (a1, fold Accept answers c1) = Inr (a2, c2)
    \<and> Q a2 \<and> WaitRequest c2 (int (length (c_tracker c))) = Inr True"
proof -
  let ?ts = "int (length (c_tracker c))"
  have len: "length as = length ms" using ms as by (auto dest!: list_all2_lengthD)
  show ?thesis
  proof (cases "ms = []")
    case True
    then have "S = []" "answers = []" using as len perm by auto
    moreover have "a\<lparr>outbox := outbox a\<rparr> = a" by simp
    ultimately have "Q a'" using Q[of "[]" "outbox a"] sent(2) True by simp
    then show ?thesis using sent(1) True \<open>answers = []\<close> WaitRequest_sent[of n c] Q_outbox by simp
  next
    case False
    then have a1: "a1 = a\<lparr>outbox := outbox a @ ms\<rparr>" "c1 = sent_customer n (length as) c" and ne: "as \<noteq> []"
      using sent len by auto
    obtain kvs' where kvs': "mset kvs' = mset S" "\<And>a'. RunCallback ?ts (fold (store_answer pull ?ts) kvs' a1) = Inr a' \<Longrightarrow>
        Receiving (worker_handle vc po) (length answers) (a1, fold Accept answers c1) = Inr (a', sent_customer n 0 c)"
      using worker_receives[OF ok as(1) ne perm refl c, of a1] a1(2) by blast
    obtain a2 where "RunCallback ?ts (fold (store_answer pull ?ts) kvs' a1) = Inr a2" "Q a2"
      using Q[OF kvs'(1), of "outbox a @ ms"] a1(1) by auto
    then show ?thesis using kvs'(2) WaitRequest_sent[of n c] by blast
  qed
qed

lemma zip_concat_parts:
  "\<forall>x \<in> set xs. length (f x) = length (g x) \<Longrightarrow>
   zip (concat (map f xs)) (concat (map g xs)) = concat (map (\<lambda>x. zip (f x) (g x)) xs)"
  by (induction xs) simp_all

text \<open>What a key's value is at server \<open>i\<close> after the parts of a push have been added.\<close>

lemma parts_map_of:
  assumes parts: "parts_of n kvs jks" and one: "kv_lens kvs = []" "length (kv_vals kvs) = length (kv_keys kvs)"
    and keys: "distinct (kv_keys kvs)" and m: "(j, kv) \<in> set jks"
  shows "length (kv_vals kv) = length (kv_keys kv)"
    and "map_of (zip (kv_keys kv) (kv_vals kv)) k = (if owner n k = j then map_of (zip (kv_keys kvs) (kv_vals kvs)) k else None)"
proof -
  let ?z = "\<lambda>kv. zip (kv_keys kv) (kv_vals kv)"
  have len: "length (kv_vals kv) = length (kv_keys kv)" if "(j, kv) \<in> set jks" for j kv
  proof (cases "kv_keys kvs = []")
    case True
    then show ?thesis using parts that by (fastforce simp: parts_of_def)
  next
    case False
    then show ?thesis using parts that one by (fastforce simp: parts_of_def)
  qed
  show "length (kv_vals kv) = length (kv_keys kv)" by (rule len[OF m])
  have cat: "?z kvs = concat (map (?z \<circ> snd) jks)"
  proof -
    have "\<forall>jk \<in> set jks. length (kv_keys (snd jk)) = length (kv_vals (snd jk))" using len by (metis prod.collapse)
    then show ?thesis
      using zip_concat_parts[of jks "kv_keys \<circ> snd" "kv_vals \<circ> snd"] parts by (simp add: parts_of_def comp_def)
  qed
  have d: "distinct (map fst (?z kvs))" using keys one(2) by simp
  have kv: "kv_keys kv \<noteq> []" "\<forall>k \<in> set (kv_keys kv). owner n k = j" "distinct (kv_keys kv)"
    using parts m keys by (auto simp: parts_of_def)
  have dkv: "distinct (map fst (?z kv))" using kv(3) len[OF m] by simp
  have "map_of (?z kv) k = Some v \<longleftrightarrow> owner n k = j \<and> map_of (?z kvs) k = Some v" for v
  proof
    assume "map_of (?z kv) k = Some v"
    then have "(k, v) \<in> set (?z kv)" by (rule map_of_SomeD)
    moreover from this have "k \<in> set (kv_keys kv)" by (rule set_zip_leftD)
    ultimately show "owner n k = j \<and> map_of (?z kvs) k = Some v"
      using m kv(2) d unfolding map_of_eq_Some_iff[OF d] unfolding cat by force
  next
    assume a: "owner n k = j \<and> map_of (?z kvs) k = Some v"
    then have "(k, v) \<in> set (?z kvs)" using map_of_SomeD by fast
    then obtain jk where jk: "jk \<in> set jks" "(k, v) \<in> set (?z (snd jk))" unfolding cat by auto
    then have "owner n k = fst jk" using parts set_zip_leftD by (fastforce simp: parts_of_def)
    then have "jk = (j, kv)"
      using a jk(1) m parts by (cases jk) (auto simp: parts_of_def dest: eq_key_imp_eq_value)
    then show "map_of (?z kv) k = Some v" using jk(2) unfolding map_of_eq_Some_iff[OF dkv] by simp
  qed
  then show "map_of (?z kv) k = (if owner n k = j then map_of (?z kvs) k else None)"
    by (metis (full_types) option.exhaust)
qed

lemma pushed_parts:
  assumes parts: "parts_of n kvs jks" and one: "kv_lens kvs = []" "length (kv_vals kvs) = length (kv_keys kvs)"
    and keys: "distinct (kv_keys kvs)"
  shows "pushed jks i f k = (case map_of (zip (kv_keys kvs) (kv_vals kvs)) k of
      Some v \<Rightarrow> if i = int (owner n k) then f k + v else f k | None \<Rightarrow> f k)"
proof (cases "find (\<lambda>jk. int (fst jk) = i) jks")
  case None
  have "map_of (zip (kv_keys kvs) (kv_vals kvs)) k = None" if "i = int (owner n k)"
  proof (rule ccontr)
    assume "map_of (zip (kv_keys kvs) (kv_vals kvs)) k \<noteq> None"
    then have "k \<in> set (concat (map (kv_keys \<circ> snd) jks))"
      using parts by (auto simp: parts_of_def dest!: map_of_SomeD set_zip_leftD)
    then obtain jk where "jk \<in> set jks" "k \<in> set (kv_keys (snd jk))" by auto
    then have "owner n k = fst jk" using parts by (fastforce simp: parts_of_def)
    then show False using None that \<open>jk \<in> set jks\<close> by (cases jk) (auto simp: find_None_iff)
  qed
  then show ?thesis using None by (auto simp: pushed_def split: option.splits)
next
  case (Some jk)
  obtain j kv where jk: "jk = (j, kv)" by (rule prod.exhaust)
  have "jk \<in> set jks \<and> int (fst jk) = i" using Some by (auto simp: find_Some_iff)
  then have m: "(j, kv) \<in> set jks" "int j = i" using jk by auto
  note P = parts_map_of[OF parts one keys m(1)]
  have "distinct (kv_keys kv)" using parts m(1) keys by (auto simp: parts_of_def)
  then have "distinct (map fst (zip (kv_keys kv) (kv_vals kv)))" using P(1) by simp
  then have "pushed jks i f k = (case map_of (zip (kv_keys kv) (kv_vals kv)) k of None \<Rightarrow> f k | Some v \<Rightarrow> f k + v)"
    using Some jk by (simp add: pushed_def fold_push_one)
  then show ?thesis using P(2)[of k] m(2) by (auto split: option.splits)
qed

section \<open>Properties of requests\<close>

text \<open>C1: a pull from end to end.  In a started office with \<open>n\<close> servers, \<^verbatim>\<open>Pull\<close> of sorted distinct
  keys that have servers succeeds, and every server it sends a request to answers it with the default
  handle.  When the answers reach the worker, in whatever order, its receiving thread fills the
  buffer with the value that the server owning each key has for it, in the order of the keys, runs
  the user's callback exactly once, and completes the request.  The servers' values do not change.\<close>

theorem pull_end_to_end:
  fixes a :: "'v::{zero, plus} KVWorker"
  assumes po: "po_reachable sys env po" "0 < po_init_stage po" "po_num_servers po = n" "0 < n" "n < 2 ^ 31"
    and keys: "valid_keys n keys" and vc: "codec_ok vc" and fresh: "worker_fresh a c"
    and buf: "um_get [] (kvw_vbufs a) b = [] \<or> length (um_get [] (kvw_vbufs a) b) = length keys"
  shows "\<exists>ts a1 c1 srv' as. Pull (vt, vc, DefaultSlicer) po keys (Some b) None cmd (Some f) prio (a, c) = Inr (ts, (a1, c1))
    \<and> serve vt vc me (drop (length (outbox a)) (outbox a1)) srv = Inr (srv', as)
    \<and> (\<forall>i. value_at srv' i = value_at srv i)
    \<and> (\<forall>answers. mset answers = mset as \<longrightarrow>
        (\<exists>a' c'. Receiving (worker_handle vc po) (length answers) (a1, fold Accept answers c1) = Inr (a', c')
          \<and> (um_get [] (kvw_vbufs a') b = map (\<lambda>k. value_at srv (int (owner n k)) k) keys
             \<and> kvw_cb_log a' = kvw_cb_log a @ [f]) \<and> WaitRequest c' ts = Inr True))"
proof -
  have ok: "office_ok n po" using po reachable_table_inv[OF po(1)] by (simp add: office_ok_def)
  let ?ts = "int (length (c_tracker c))" and ?c1 = "c\<lparr>c_tracker := c_tracker c @ [(n, 0)]\<rparr>"
  let ?cb = "PullCB ?ts keys (Some (Own b)) None (Some f)"
  let ?a0 = "AddCallback ?ts (Some ?cb) a" and ?P = "\<lambda>j. value_at srv (int j)"
  let ?kvs = "\<lparr>kv_keys = keys, kv_vals = [], kv_lens = [], kv_priority = prio\<rparr> :: 'v KVPairs"
  let ?Q = "\<lambda>a'. um_get [] (kvw_vbufs a') b = map (\<lambda>k. ?P (owner n k) k) keys \<and> kvw_cb_log a' = kvw_cb_log a @ [f]"
  have a0: "um_find (kvw_callbacks ?a0) ?ts = Some ?cb" "um_get [] (kvw_recv_kvs ?a0) ?ts = []"
    "kvw_vbufs ?a0 = kvw_vbufs a" "kvw_cb_log ?a0 = kvw_cb_log a" "outbox ?a0 = outbox a"
    "?a0\<lparr>outbox := outbox a\<rparr> = ?a0"
    using worker_fresh_recv[OF fresh] by (simp_all add: AddCallback_def)
  obtain jks ms where parts: "parts_of n ?kvs jks"
    and ms: "list_all2 (part_request vc me (c_customer_id c) ?ts False True) ms jks"
    and send: "send_kvs (vt, vc, DefaultSlicer) po ?ts False True cmd ?kvs (?a0, ?c1) =
       rbind (if ms = [] then RunCallback ?ts ?a0 else Inr ?a0) (\<lambda>a'.
         Inr (?ts, a'\<lparr>outbox := outbox a' @ ms\<rparr>, sent_customer n (length ms) c))"
    using request_sent[OF ok _ _ vc, of ?kvs me c False True vt cmd ?a0] keys by (auto simp: vals_fit_def)
  have jks: "\<forall>(j, kv) \<in> set jks. kv_keys kv \<noteq> [] \<and> (\<forall>k \<in> set (kv_keys kv). owner n k = j)
         \<and> (\<exists>r. kv_keys kv = filter (\<lambda>k. in_range k r) keys)" "concat (map (kv_keys \<circ> snd) jks) = keys"
    using parts unfolding parts_of_def by (fastforce, simp)
  have cb: "\<exists>a2. RunCallback ?ts (fold (store_answer True ?ts) kvs' (?a0\<lparr>outbox := x\<rparr>)) = Inr a2 \<and> outbox a2 = x \<and> ?Q a2"
    if "mset kvs' = mset (map (\<lambda>(j, kv). pulled (?P j) kv) jks)" for kvs' x
    using pull_callback[OF keys jks, of "?a0\<lparr>outbox := x\<rparr>" ?ts b f kvs' ?P] that a0 buf by auto
  obtain srv' as where srv: "serve vt vc me ms srv = Inr (srv', as)" "\<forall>i. value_at srv' i = value_at srv i"
    "list_all2 (kv_response vc me (c_customer_id c) ?ts True) as (map (\<lambda>(j, kv). pulled (?P j) kv) jks)"
    using serve_pull[OF vc ms, of vt srv] by blast
  obtain a' where a': "(if ms = [] then RunCallback ?ts ?a0 else Inr ?a0) = Inr a'" "outbox a' = outbox a"
    using cb[of "[]" "outbox a"] ms a0(5,6) by (cases "ms = []") auto
  let ?a1 = "a'\<lparr>outbox := outbox a' @ ms\<rparr>" and ?c2 = "sent_customer n (length ms) c"
  have pull: "Pull (vt, vc, DefaultSlicer) po keys (Some b) None cmd (Some f) prio (a, c) = Inr (?ts, ?a1, ?c2)"
    using send a'(1) by (simp add: Pull_def AddPullCB_def new_server_request[OF ok])
  have run: "c_running c" "c_recv_queue c = []" using fresh by (auto simp: worker_fresh_def)
  have "\<exists>a2 c2. Receiving (worker_handle vc po) (length answers) (?a1, fold Accept answers ?c2) = Inr (a2, c2)
      \<and> ?Q a2 \<and> WaitRequest c2 ?ts = Inr True" if "mset answers = mset as" for answers
    by (rule request_finishes[OF ok run ms refl a'(1) srv(3) _ _ _ that]) (use cb in force)+
  then show ?thesis using pull srv(1,2) a'(2)
    by (intro exI[of _ ?ts] exI[of _ ?a1] exI[of _ ?c2] exI[of _ srv'] exI[of _ "as"]) simp
qed

text \<open>C2: a push from end to end.  \<^verbatim>\<open>Push\<close> of one value per key, under the conditions of a pull,
  succeeds and every server it addresses handles its part.  Afterwards each key's value at the server
  that owns it has grown by the pushed value and no other value at any server has changed; when the
  answers reach the worker, in whatever order, the user's callback has run exactly once and the
  request is complete.\<close>

theorem push_end_to_end:
  fixes a :: "'v::{zero, plus} KVWorker"
  assumes po: "po_reachable sys env po" "0 < po_init_stage po" "po_num_servers po = n" "0 < n" "n < 2 ^ 31"
    and keys: "valid_keys n keys" and vals: "length vals = length keys" and vc: "codec_ok vc" and fresh: "worker_fresh a c"
  shows "\<exists>ts a1 c1 srv' as. Push (vt, vc, DefaultSlicer) po keys vals [] cmd (Some f) prio (a, c) = Inr (ts, (a1, c1))
    \<and> serve vt vc me (drop (length (outbox a)) (outbox a1)) srv = Inr (srv', as)
    \<and> (\<forall>i k. value_at srv' i k = (case map_of (zip keys vals) k of
          Some v \<Rightarrow> if i = int (owner n k) then value_at srv i k + v else value_at srv i k
        | None \<Rightarrow> value_at srv i k))
    \<and> (\<forall>answers. mset answers = mset as \<longrightarrow>
        (\<exists>a' c'. Receiving (worker_handle vc po) (length answers) (a1, fold Accept answers c1) = Inr (a', c')
          \<and> kvw_cb_log a' = kvw_cb_log a @ [f] \<and> WaitRequest c' ts = Inr True))"
proof -
  have ok: "office_ok n po" using po reachable_table_inv[OF po(1)] by (simp add: office_ok_def)
  let ?ts = "int (length (c_tracker c))" and ?c1 = "c\<lparr>c_tracker := c_tracker c @ [(n, 0)]\<rparr>"
  let ?a0 = "AddCallback ?ts (Some (UserCB f)) a" and ?Q = "\<lambda>a'. kvw_cb_log a' = kvw_cb_log a @ [f]"
  let ?kvs = "\<lparr>kv_keys = keys, kv_vals = vals, kv_lens = [], kv_priority = prio\<rparr>"
  have dk: "distinct keys" using keys by (simp add: valid_keys_def)
  obtain jks ms where parts: "parts_of n ?kvs jks"
    and ms: "list_all2 (part_request vc me (c_customer_id c) ?ts True False) ms jks"
    and send: "send_kvs (vt, vc, DefaultSlicer) po ?ts True False cmd ?kvs (?a0, ?c1) =
       rbind (if ms = [] then RunCallback ?ts ?a0 else Inr ?a0) (\<lambda>a'.
         Inr (?ts, a'\<lparr>outbox := outbox a' @ ms\<rparr>, sent_customer n (length ms) c))"
    using request_sent[OF ok _ _ vc, of ?kvs me c True False vt cmd ?a0] keys vals by (auto simp: vals_fit_def)
  have cb: "\<exists>a2. RunCallback ?ts (fold (store_answer False ?ts) kvs' (?a0\<lparr>outbox := x\<rparr>)) = Inr a2 \<and> outbox a2 = x \<and> ?Q a2"
    for kvs' :: "'v KVPairs list" and x
    by (simp add: fold_store_answer RunCallback_def AddCallback_def run_callback_def run_user_def)
  have P: "\<forall>jk \<in> set jks. length (kv_vals (snd jk)) = length (kv_keys (snd jk))" "distinct (map fst jks)"
    using parts_map_of(1)[OF parts] dk vals parts by (auto simp: parts_of_def)
  obtain srv' as where srv: "serve vt vc me ms srv = Inr (srv', as)" "\<forall>i. value_at srv' i = pushed jks i (value_at srv i)"
    "list_all2 (kv_response vc me (c_customer_id c) ?ts False) as (map snd jks)"
    using serve_push[OF vc ms P(2,1), of vt srv] by blast
  obtain a' where a': "(if ms = [] then RunCallback ?ts ?a0 else Inr ?a0) = Inr a'" "outbox a' = outbox a"
    using cb[of "[]" "outbox a"] by (cases "ms = []") (auto simp: AddCallback_def)
  let ?a1 = "a'\<lparr>outbox := outbox a' @ ms\<rparr>" and ?c2 = "sent_customer n (length ms) c"
  have push: "Push (vt, vc, DefaultSlicer) po keys vals [] cmd (Some f) prio (a, c) = Inr (?ts, ?a1, ?c2)"
    using send a'(1) by (simp add: Push_def ZPush_def new_server_request[OF ok])
  have run: "c_running c" "c_recv_queue c = []" using fresh by (auto simp: worker_fresh_def)
  have "\<exists>a2 c2. Receiving (worker_handle vc po) (length answers) (?a1, fold Accept answers ?c2) = Inr (a2, c2)
      \<and> ?Q a2 \<and> WaitRequest c2 ?ts = Inr True" if "mset answers = mset as" for answers
    by (rule request_finishes[OF ok run ms refl a'(1) srv(3) _ _ _ that]) (use cb in force)+
  then show ?thesis using push srv(1,2) a'(2) pushed_parts[OF parts] dk vals
    by (intro exI[of _ ?ts] exI[of _ ?a1] exI[of _ ?c2] exI[of _ srv'] exI[of _ "as"]) simp
qed

text \<open>Two servers, and a worker with an empty buffer.\<close>

definition kv_env :: Environment where
  "kv_env = \<lparr>env_kvs = [(''DMLC_NUM_WORKER'', ''1''), (''DMLC_NUM_SERVER'', ''2''), (''DMLC_ROLE'', ''worker'')]\<rparr>"

definition kv_office :: "nat Postoffice" where
  "kv_office = (case Start_init (\<lambda>_. None) kv_env Postoffice_init of Inr po \<Rightarrow> po | Inl _ \<Rightarrow> Postoffice_init)"

lemma kv_reachable: "po_reachable (\<lambda>_. None) kv_env kv_office"
proof -
  have "Start_init (\<lambda>_. None) kv_env Postoffice_init = Inr kv_office"
    by (simp add: kv_office_def Start_init_def InitEnvironment_def Van_Create_def GetEnv_def env_find_def
        kv_env_def Postoffice_init_def)
  then show ?thesis by (rule reach_step[OF reach_init start_init])
qed

lemma kv_fields: "0 < po_init_stage kv_office" "po_num_servers kv_office = 2"
  by (simp_all add: kv_office_def Start_init_def InitEnvironment_def Van_Create_def GetEnv_def env_find_def
      kv_env_def Postoffice_init_def atoi_def is_space_def is_digit_def read_digits_def digit_val_def)

text \<open>A worker and its customer as the constructor makes them meet \<open>worker_fresh\<close>.\<close>

lemma KVWorker_ctor_fresh:
  "KVWorker_ctor app_id customer_id po = Inr (slicer, (a, c), po') \<Longrightarrow> worker_fresh a c \<and> slicer = DefaultSlicer"
  by (auto simp: KVWorker_ctor_def Customer_ctor_def Let_def Customer_new_def worker_fresh_def)

definition kv_worker :: "i32 KVWorker" where
  "kv_worker = \<lparr>outbox = [], kvw_recv_kvs = [], kvw_callbacks = [], kvw_vbufs = [], kvw_lbufs = [], kvw_cb_log = []\<rparr>"

definition kv_servers :: "int \<Rightarrow> i32 KVServer world" where
  "kv_servers i = (\<lparr>outbox = [], kvs_store = [(3, 30), (2 ^ 63, 80)]\<rparr>, Customer_new 0 0)"

lemma kv_demo:
  "valid_keys 2 [3, 2 ^ 63]" "worker_fresh kv_worker (Customer_new 0 0)"
  by (simp_all add: valid_keys_def key_quota_def worker_fresh_def kv_worker_def Customer_new_def)

theorem pull_end_to_end_witness:
  "\<exists>ts a1 c1 srv' as. Pull (T_int32, int_codec, DefaultSlicer) kv_office [3, 2 ^ 63] (Some 0) None 0 (Some 7) 0
       (kv_worker, Customer_new 0 0) = Inr (ts, (a1, c1))
     \<and> serve T_int32 int_codec 9 (drop (length (outbox kv_worker)) (outbox a1)) kv_servers = Inr (srv', as)
     \<and> (\<exists>a' c'. Receiving (worker_handle int_codec kv_office) (length as) (a1, fold Accept as c1) = Inr (a', c')
          \<and> um_get [] (kvw_vbufs a') 0 = [30, 80] \<and> WaitRequest c' ts = Inr True)"
proof -
  have "(map (\<lambda>k. value_at kv_servers (int (owner 2 k)) k) [3, 2 ^ 63]) = [30, 80]"
    by (simp add: kv_servers_def um_get_def)
  then show ?thesis
    using pull_end_to_end[OF kv_reachable kv_fields _ _ kv_demo(1) int_codec_ok kv_demo(2), of 0 T_int32 0 7 0 9 kv_servers]
    by (fastforce simp: kv_worker_def um_get_def)
qed

theorem push_end_to_end_witness:
  "\<exists>ts a1 c1 srv' as. Push (T_int32, int_codec, DefaultSlicer) kv_office [3, 2 ^ 63] [1, 2] [] 0 (Some 7) 0
       (kv_worker, Customer_new 0 0) = Inr (ts, (a1, c1))
     \<and> serve T_int32 int_codec 9 (drop (length (outbox kv_worker)) (outbox a1)) kv_servers = Inr (srv', as)
     \<and> value_at srv' 0 3 = 31 \<and> value_at srv' 1 3 = 30"
proof -
  have "owner 2 3 = 0" by (simp add: owner_def key_quota_def)
  then show ?thesis
    using push_end_to_end[OF kv_reachable kv_fields _ _ kv_demo(1) _ int_codec_ok kv_demo(2), of "[1, 2]" T_int32 0 7 0 9 kv_servers]
    by (fastforce simp: kv_servers_def um_get_def)
qed

end
