(* ===== verification/Ps_Wire.thy ===== *)
theory Ps_Wire
  imports Ps_Message
begin

text \<open>
  Message headers on the wire: \<^verbatim>\<open>Van::PackMetaPB\<close>, \<^verbatim>\<open>Van::PackMeta\<close> and \<^verbatim>\<open>Van::UnpackMeta\<close> of
  \<^verbatim>\<open>src/van.cc\<close> over the schema \<^verbatim>\<open>src/meta.proto\<close>.  A protobuf message is a record in which an
  optional field is an option; a getter gives the default of an unset field.  Serialisation and
  parsing are the protobuf library's: the parameters \<open>ser\<close> and \<open>parse\<close>.  A number that is cast to
  an enumeration must be one of its enumerators, otherwise the model stops.
\<close>

section \<open>The schema\<close>

record PBNode =
  pbn_role :: int
  pbn_id :: "int option"
  pbn_hostname :: "string option"
  pbn_port :: "int option"
  pbn_is_recovery :: "bool option"
  pbn_customer_id :: "int option"

record PBControl =
  pbc_cmd :: int
  pbc_node :: "PBNode list"
  pbc_barrier_group :: "int option"
  pbc_msg_sig :: "u64 option"

record PBMeta =
  pb_head :: "int option"
  pb_body :: "string option"
  pb_control :: "PBControl option"
  pb_request :: "bool option"
  pb_more :: "int option"
  pb_app_id :: "int option"
  pb_sender :: "int option"
  pb_timestamp :: "int option"
  pb_data_type :: "int list"
  pb_customer_id :: "int option"
  pb_push :: "bool option"
  pb_pull :: "bool option"
  pb_simple_app :: "bool option"
  pb_data_size :: "int option"
  pb_priority :: "int option"

definition PBMeta_init :: PBMeta where
  "PBMeta_init = \<lparr>pb_head = None, pb_body = None, pb_control = None, pb_request = None, pb_more = None,
     pb_app_id = None, pb_sender = None, pb_timestamp = None, pb_data_type = [], pb_customer_id = None,
     pb_push = None, pb_pull = None, pb_simple_app = None, pb_data_size = None, pb_priority = None\<rparr>"

definition get_or :: "'a \<Rightarrow> 'a option \<Rightarrow> 'a" where
  "get_or d x = (case x of None \<Rightarrow> d | Some v \<Rightarrow> v)"

lemma get_or_simps [simp]: "get_or d None = d" "get_or d (Some v) = v"
  by (simp_all add: get_or_def)

section \<open>Enumerations as numbers\<close>

definition roles :: "Role list" where
  "roles = [SERVER, WORKER, SCHEDULER]"

definition commands :: "Command list" where
  "commands = [EMPTY, TERMINATE, ADD_NODE, BARRIER, ACK, HEARTBEAT, CONNECT]"

definition data_types :: "DataType list" where
  "data_types = [CHAR_t, INT8, INT16, INT32, INT64, UINT8, UINT16, UINT32, UINT64, FLOAT, DOUBLE, OTHER]"

fun enum_code :: "'a list \<Rightarrow> 'a \<Rightarrow> int" where
  "enum_code [] x = 0"
| "enum_code (y # ys) x = (if x = y then 0 else 1 + enum_code ys x)"

definition enum_cast :: "'a list \<Rightarrow> int \<Rightarrow> 'a res" where
  "enum_cast ys i = (if 0 \<le> i \<and> i < int (length ys) then Inr (ys ! nat i) else Inl OutOfBounds)"

lemma enum_code_bounds: "x \<in> set ys \<Longrightarrow> 0 \<le> enum_code ys x \<and> enum_code ys x < int (length ys)"
  by (induction ys) auto

lemma nth_enum_code: "x \<in> set ys \<Longrightarrow> ys ! nat (enum_code ys x) = x"
proof (induction ys)
  case (Cons y ys)
  then show ?case using enum_code_bounds[of x ys] by (auto simp: nat_add_distrib)
qed simp

lemma enum_cast_code: "x \<in> set ys \<Longrightarrow> enum_cast ys (enum_code ys x) = Inr x"
  using enum_code_bounds[of x ys] nth_enum_code[of x ys] by (simp add: enum_cast_def)

lemma roles_complete: "r \<in> set roles"
  by (cases r) (simp_all add: roles_def)

lemma commands_complete: "c \<in> set commands"
  by (cases c) (simp_all add: commands_def)

lemma data_types_complete: "d \<in> set data_types"
  by (cases d) (simp_all add: data_types_def)

lemmas enum_roundtrip [simp] = enum_cast_code[OF roles_complete] enum_cast_code[OF commands_complete]
  enum_cast_code[OF data_types_complete]

lemma command_codes: "enum_code commands c = int (Command_code c)"
  by (cases c) (simp_all add: commands_def)

section \<open>Packing\<close>

definition pack_node :: "Node \<Rightarrow> PBNode" where
  "pack_node n = \<lparr>pbn_role = enum_code roles (n_role n), pbn_id = Some (n_id n),
     pbn_hostname = Some (n_hostname n), pbn_port = Some (n_port n),
     pbn_is_recovery = Some (n_is_recovery n), pbn_customer_id = Some (n_customer_id n)\<rparr>"

definition pack_control :: "Control \<Rightarrow> PBControl" where
  "pack_control c = \<lparr>pbc_cmd = enum_code commands (ctl_cmd c), pbc_node = map pack_node (ctl_node c),
     pbc_barrier_group = (if ctl_cmd c = BARRIER then Some (ctl_barrier_group c) else None),
     pbc_msg_sig = (if ctl_cmd c = ACK then Some (ctl_msg_sig c) else None)\<rparr>"

text \<open>\<^verbatim>\<open>PackMetaPB\<close>, which the ibverbs van uses, sets neither the sender, nor \<^verbatim>\<open>more\<close>, nor \<^verbatim>\<open>pull\<close>.\<close>

definition PackMetaPB :: "Meta \<Rightarrow> PBMeta \<Rightarrow> PBMeta" where
  "PackMetaPB meta pb = pb\<lparr>pb_head := Some (m_head meta),
     pb_app_id := (if m_app_id meta \<noteq> kEmpty then Some (m_app_id meta) else pb_app_id pb),
     pb_timestamp := (if m_timestamp meta \<noteq> kEmpty then Some (m_timestamp meta) else pb_timestamp pb),
     pb_body := (if m_body meta \<noteq> [] then Some (m_body meta) else pb_body pb),
     pb_push := Some (m_push meta), pb_request := Some (m_request meta),
     pb_simple_app := Some (m_simple_app meta), pb_priority := Some (m_priority meta),
     pb_customer_id := Some (m_customer_id meta),
     pb_data_type := pb_data_type pb @ map (enum_code data_types) (m_data_type meta),
     pb_control := (if Control_empty (m_control meta) then pb_control pb else Some (pack_control (m_control meta))),
     pb_data_size := Some (m_data_size meta)\<rparr>"

definition PackMeta_pb :: "Meta \<Rightarrow> PBMeta" where
  "PackMeta_pb meta = PBMeta_init\<lparr>pb_head := Some (m_head meta), pb_sender := Some (m_sender meta),
     pb_more := Some (m_more meta),
     pb_app_id := (if m_app_id meta \<noteq> kEmpty then Some (m_app_id meta) else None),
     pb_timestamp := (if m_timestamp meta \<noteq> kEmpty then Some (m_timestamp meta) else None),
     pb_body := (if m_body meta \<noteq> [] then Some (m_body meta) else None),
     pb_push := Some (m_push meta), pb_pull := Some (m_pull meta), pb_request := Some (m_request meta),
     pb_simple_app := Some (m_simple_app meta), pb_priority := Some (m_priority meta),
     pb_customer_id := Some (m_customer_id meta),
     pb_data_type := map (enum_code data_types) (m_data_type meta),
     pb_control := (if Control_empty (m_control meta) then None else Some (pack_control (m_control meta)))\<rparr>"

definition PackMeta :: "(PBMeta \<Rightarrow> byte list option) \<Rightarrow> Meta \<Rightarrow> byte list res" where
  "PackMeta ser meta = (case ser (PackMeta_pb meta) of
      None \<Rightarrow> Inl (Check ''failed to serialize protobuf'')
    | Some buf \<Rightarrow> Inr buf)"

section \<open>Unpacking\<close>

definition unpack_node :: "PBNode \<Rightarrow> Node res" where
  "unpack_node p = rbind (enum_cast roles (pbn_role p)) (\<lambda>r.
     Inr \<lparr>n_role = r, n_id = get_or kEmpty (pbn_id p), n_customer_id = get_or 0 (pbn_customer_id p),
          n_hostname = get_or '''' (pbn_hostname p), n_port = get_or 0 (pbn_port p),
          n_is_recovery = get_or False (pbn_is_recovery p)\<rparr>)"

definition unpack_control :: "PBControl option \<Rightarrow> Control \<Rightarrow> Control res" where
  "unpack_control pc c = (case pc of
      None \<Rightarrow> Inr (c\<lparr>ctl_cmd := EMPTY\<rparr>)
    | Some ctrl \<Rightarrow>
        rbind (enum_cast commands (pbc_cmd ctrl)) (\<lambda>cmd.
        rbind (rmap unpack_node (pbc_node ctrl)) (\<lambda>ns.
          Inr (c\<lparr>ctl_cmd := cmd, ctl_barrier_group := get_or 0 (pbc_barrier_group ctrl),
                 ctl_msg_sig := get_or 0 (pbc_msg_sig ctrl), ctl_node := ctl_node c @ ns\<rparr>))))"

definition unpack_pb :: "PBMeta \<Rightarrow> Meta \<Rightarrow> Meta res" where
  "unpack_pb pb meta =
     rbind (rmap (enum_cast data_types) (pb_data_type pb)) (\<lambda>dts.
     rbind (unpack_control (pb_control pb) (m_control meta)) (\<lambda>ctrl.
       Inr (meta\<lparr>m_head := get_or 0 (pb_head pb), m_sender := get_or 0 (pb_sender pb),
         m_more := get_or 0 (pb_more pb), m_app_id := get_or kEmpty (pb_app_id pb),
         m_timestamp := get_or kEmpty (pb_timestamp pb), m_request := get_or False (pb_request pb),
         m_push := get_or False (pb_push pb), m_pull := get_or False (pb_pull pb),
         m_simple_app := get_or False (pb_simple_app pb), m_priority := get_or 0 (pb_priority pb),
         m_body := get_or '''' (pb_body pb), m_customer_id := get_or 0 (pb_customer_id pb),
         m_data_type := dts, m_control := ctrl\<rparr>)))"

definition UnpackMeta :: "(byte list \<Rightarrow> PBMeta option) \<Rightarrow> byte list \<Rightarrow> Meta \<Rightarrow> Meta res" where
  "UnpackMeta parse buf meta = (case parse buf of
      None \<Rightarrow> Inl (Check ''failed to parse string into protobuf'')
    | Some pb \<Rightarrow> unpack_pb pb meta)"

section \<open>Round trips\<close>

lemma unpack_pack_node [simp]: "unpack_node (pack_node n) = Inr n"
  by (simp add: unpack_node_def pack_node_def)

lemma rmap_inverse: "(\<And>x. g (f x) = Inr x) \<Longrightarrow> rmap g (map f xs) = Inr xs"
  by (induction xs) simp_all

text \<open>What survives of control information: the fields its command uses.\<close>

definition wire_control :: "Control \<Rightarrow> Control" where
  "wire_control c = (if Control_empty c then Control_init
     else c\<lparr>ctl_barrier_group := (if ctl_cmd c = BARRIER then ctl_barrier_group c else 0),
            ctl_msg_sig := (if ctl_cmd c = ACK then ctl_msg_sig c else 0)\<rparr>)"

lemma unpack_pack_control:
  "unpack_control (if Control_empty c then None else Some (pack_control c)) Control_init = Inr (wire_control c)"
  by (cases c) (simp add: unpack_control_def pack_control_def wire_control_def rmap_inverse Control_empty_def
      Control_init_def)

text \<open>What a header is after a trip: the receiver and the data size are not sent.\<close>

definition wire_meta :: "Meta \<Rightarrow> Meta" where
  "wire_meta m = m\<lparr>m_recver := kEmpty, m_data_size := 0, m_control := wire_control (m_control m)\<rparr>"

lemma unpack_pack_pb: "unpack_pb (PackMeta_pb m) Meta_init = Inr (wire_meta m)"
proof -
  have "unpack_control (pb_control (PackMeta_pb m)) (m_control Meta_init) = Inr (wire_control (m_control m))"
    using unpack_pack_control[of "m_control m"] by (simp add: PackMeta_pb_def Meta_init_def)
  moreover have "rmap (enum_cast data_types) (pb_data_type (PackMeta_pb m)) = Inr (m_data_type m)"
    by (simp add: PackMeta_pb_def rmap_inverse)
  ultimately show ?thesis
    by (cases m) (simp add: unpack_pb_def PackMeta_pb_def wire_meta_def Meta_init_def PBMeta_init_def)
qed

lemma UnpackMeta_PackMeta:
  assumes "PackMeta ser m = Inr buf" and "parse buf = Some (PackMeta_pb m)"
  shows "UnpackMeta parse buf Meta_init = Inr (wire_meta m)"
  using assms by (simp add: UnpackMeta_def unpack_pack_pb)

section \<open>Properties\<close>

text \<open>C33: \<^verbatim>\<open>UnpackMeta\<close> undoes \<^verbatim>\<open>PackMeta\<close>.  When the protobuf library parses what it serialised, the
  unpacked header has every field of the packed one, the unset application id and timestamp
  included, except that the receiver and the data size are not sent and that a control header keeps
  the barrier group only for \<^verbatim>\<open>BARRIER\<close> and the signature only for \<^verbatim>\<open>ACK\<close>.\<close>

theorem PackMeta_roundtrip:
  assumes "PackMeta ser m = Inr buf" and "\<And>b. ser (PackMeta_pb m) = Some b \<Longrightarrow> parse b = Some (PackMeta_pb m)"
  shows "UnpackMeta parse buf Meta_init =
    Inr (m\<lparr>m_recver := kEmpty, m_data_size := 0,
      m_control := (if Control_empty (m_control m) then Control_init
        else (m_control m)\<lparr>
          ctl_barrier_group := (if ctl_cmd (m_control m) = BARRIER then ctl_barrier_group (m_control m) else 0),
          ctl_msg_sig := (if ctl_cmd (m_control m) = ACK then ctl_msg_sig (m_control m) else 0)\<rparr>)\<rparr>)"
proof -
  have "parse buf = Some (PackMeta_pb m)"
    using assms by (auto simp: PackMeta_def split: option.splits)
  then show ?thesis using UnpackMeta_PackMeta[OF assms(1)] by (simp add: wire_meta_def wire_control_def)
qed

definition wire_demo :: Meta where
  "wire_demo = Meta_init\<lparr>m_recver := 8, m_sender := 9, m_app_id := 0, m_timestamp := 3, m_pull := True,
     m_request := True, m_head := 0, m_customer_id := 0, m_data_type := [UINT64, INT32],
     m_control := Control_init\<lparr>ctl_cmd := BARRIER, ctl_barrier_group := 7\<rparr>\<rparr>"

definition ser_demo :: "PBMeta \<Rightarrow> byte list option" where
  "ser_demo pb = (if pb = PackMeta_pb wire_demo then Some [1, 2] else None)"

definition parse_demo :: "byte list \<Rightarrow> PBMeta option" where
  "parse_demo b = (if b = [1, 2] then Some (PackMeta_pb wire_demo) else None)"

theorem PackMeta_roundtrip_witness:
  "PackMeta ser_demo wire_demo = Inr [1, 2]
     \<and> UnpackMeta parse_demo [1, 2] Meta_init = Inr (wire_demo\<lparr>m_recver := kEmpty\<rparr>)"
proof -
  have ser: "PackMeta ser_demo wire_demo = Inr [1, 2]" by (simp add: PackMeta_def ser_demo_def)
  have parse: "\<And>b. ser_demo (PackMeta_pb wire_demo) = Some b \<Longrightarrow> parse_demo b = Some (PackMeta_pb wire_demo)"
    by (simp add: ser_demo_def parse_demo_def)
  have "wire_demo\<lparr>m_recver := kEmpty, m_data_size := 0, m_control := m_control wire_demo\<rparr> = wire_demo\<lparr>m_recver := kEmpty\<rparr>"
    "ctl_cmd (m_control wire_demo) = BARRIER" "ctl_msg_sig (m_control wire_demo) = 0"
    by (simp_all add: wire_demo_def Meta_init_def Control_init_def)
  then show ?thesis using PackMeta_roundtrip[OF ser parse] ser by (simp add: Control_empty_def)
qed

text \<open>C37: \<^verbatim>\<open>PackMetaPB\<close>, the packing of the ibverbs van, loses the pull flag and the sender: whatever
  the header says, the unpacked one is no pull and comes from node 0.\<close>

theorem PackMetaPB_loses_pull:
  "\<exists>m'. unpack_pb (PackMetaPB m PBMeta_init) Meta_init = Inr m' \<and> \<not> m_pull m' \<and> m_sender m' = 0
     \<and> m_push m' = m_push m \<and> m_request m' = m_request m \<and> m_timestamp m' = m_timestamp m"
proof -
  have "pb_control (PackMetaPB m PBMeta_init) = (if Control_empty (m_control m) then None else Some (pack_control (m_control m)))"
    "m_control Meta_init = Control_init"
    by (simp_all add: PackMetaPB_def PBMeta_init_def Meta_init_def)
  then have "unpack_control (pb_control (PackMetaPB m PBMeta_init)) (m_control Meta_init) = Inr (wire_control (m_control m))"
    using unpack_pack_control[of "m_control m"] by simp
  moreover have "rmap (enum_cast data_types) (pb_data_type (PackMetaPB m PBMeta_init)) = Inr (m_data_type m)"
    by (simp add: PackMetaPB_def PBMeta_init_def rmap_inverse)
  ultimately show ?thesis
    by (simp add: unpack_pb_def) (simp add: PackMetaPB_def PBMeta_init_def)
qed

end
