(* ===== verification/Ps_Resender.thy ===== *)
theory Ps_Resender
  imports Ps_Message
begin

unbundle bit_operations_syntax

text \<open>
  \<^verbatim>\<open>src/resender.h\<close>: the buffer of messages that wait for their acknowledgement, the set of keys
  already acknowledged to others, and the monitor thread that sends again what was not acknowledged
  in time.  What the resender reads of its van is an argument: whether the van is ready and its node
  (\<^verbatim>\<open>Van::my_node\<close>), and the clock in milliseconds.  A call of \<^verbatim>\<open>Van::Send\<close> is a message in the
  result.  The monitor walks an unordered map; the model walks it in the order of its list.
\<close>

section \<open>State and operations\<close>

record Entry =
  e_msg :: Message
  e_send :: int
  e_num_retry :: int

record Resender =
  rs_send_buff :: "(u64, Entry) um"
  rs_acked :: "u64 list"
  rs_exit :: bool
  rs_timeout :: int
  rs_max_num_retry :: int

definition Resender_ctor :: "int \<Rightarrow> int \<Rightarrow> Resender" where
  "Resender_ctor timeout max_num_retry = \<lparr>rs_send_buff = [], rs_acked = [], rs_exit = False,
     rs_timeout = timeout, rs_max_num_retry = max_num_retry\<rparr>"

definition Resender_dtor :: "Resender \<Rightarrow> Resender" where
  "Resender_dtor r = r\<lparr>rs_exit := True\<rparr>"

definition Van_my_node :: "bool \<Rightarrow> Node \<Rightarrow> Node res" where
  "Van_my_node ready node = check ready ''call Start() first'' (Inr node)"

text \<open>The key: the application id and the node ids are cut to 16 and 8 bits, and the shifted
  timestamp is a signed 32-bit value that is extended to 64 bits.\<close>

definition key_bits :: "16 word \<Rightarrow> 8 word \<Rightarrow> 8 word \<Rightarrow> i32 \<Rightarrow> bool \<Rightarrow> u64" where
  "key_bits app sender recver ts request =
     push_bit 48 (ucast app) OR push_bit 40 (ucast sender) OR push_bit 32 (ucast recver)
     OR scast (push_bit 1 ts) OR (if request then 1 else 0)"

definition GetKey :: "bool \<Rightarrow> Node \<Rightarrow> Message \<Rightarrow> u64 res" where
  "GetKey ready node msg =
     (let m = msg_meta msg in
      check (m_timestamp m \<noteq> kEmpty) ''msg.meta.timestamp != Meta::kEmpty''
       (rbind (if m_sender m = kEmpty then rbind (Van_my_node ready node) (\<lambda>n. Inr (n_id n)) else Inr (m_sender m)) (\<lambda>sender.
          Inr (key_bits (word_of_int (m_app_id m)) (word_of_int sender) (word_of_int (m_recver m))
                 (word_of_int (m_timestamp m)) (m_request m)))))"

definition AddOutgoing :: "bool \<Rightarrow> Node \<Rightarrow> int \<Rightarrow> Message \<Rightarrow> Resender \<Rightarrow> Resender res" where
  "AddOutgoing ready node now msg r =
     (if ctl_cmd (m_control (msg_meta msg)) = ACK then Inr r
      else check (m_timestamp (msg_meta msg) \<noteq> kEmpty) ''msg.meta.timestamp != Meta::kEmpty''
        (rbind (GetKey ready node msg) (\<lambda>key.
           if um_find (rs_send_buff r) key \<noteq> None then Inr r
           else Inr (r\<lparr>rs_send_buff := um_set key \<lparr>e_msg = msg, e_send = now, e_num_retry = 0\<rparr> (rs_send_buff r)\<rparr>))))"

definition ack_msg :: "Message \<Rightarrow> u64 \<Rightarrow> Message" where
  "ack_msg msg key = Message_init\<lparr>msg_meta := Meta_init\<lparr>m_recver := m_sender (msg_meta msg),
     m_sender := m_recver (msg_meta msg), m_control := Control_init\<lparr>ctl_cmd := ACK, ctl_msg_sig := key\<rparr>\<rparr>\<rparr>"

text \<open>The result: whether the message is an acknowledgement or was seen before, and the
  acknowledgement to send.\<close>

definition AddIncomming :: "bool \<Rightarrow> Node \<Rightarrow> Message \<Rightarrow> Resender \<Rightarrow> (bool \<times> Message option \<times> Resender) res" where
  "AddIncomming ready node msg r =
     (let ctrl = m_control (msg_meta msg) in
      if ctl_cmd ctrl = TERMINATE then Inr (False, None, r)
      else if ctl_cmd ctrl = ACK
      then Inr (True, None, r\<lparr>rs_send_buff := um_erase (ctl_msg_sig ctrl) (rs_send_buff r)\<rparr>)
      else rbind (GetKey ready node msg) (\<lambda>key.
        let duplicated = key \<in> set (rs_acked r) in
        Inr (duplicated, Some (ack_msg msg key),
             if duplicated then r else r\<lparr>rs_acked := key # rs_acked r\<rparr>)))"

text \<open>One round of the monitor over the buffer: an entry that is due counts a retry.\<close>

definition entry_due :: "int \<Rightarrow> int \<Rightarrow> Entry \<Rightarrow> bool" where
  "entry_due timeout now e \<longleftrightarrow> e_send e + timeout * (1 + e_num_retry e) < now"

definition monitor_entry :: "bool \<Rightarrow> int \<Rightarrow> int \<Rightarrow> int \<Rightarrow> u64 \<times> Entry \<Rightarrow> (u64 \<times> Entry) res" where
  "monitor_entry ready timeout max_num_retry now kv = (case kv of (k, e) \<Rightarrow>
     if entry_due timeout now e
     then check ready ''call Start() first''
        (check (e_num_retry e + 1 < max_num_retry) ''it.second.num_retry < max_num_retry_''
          (Inr (k, e\<lparr>e_num_retry := e_num_retry e + 1\<rparr>)))
     else Inr (k, e))"

definition Monitoring_round :: "bool \<Rightarrow> int \<Rightarrow> Resender \<Rightarrow> (Message list \<times> Resender) res" where
  "Monitoring_round ready now r =
     (if rs_exit r then Inr ([], r)
      else rbind (rmap (monitor_entry ready (rs_timeout r) (rs_max_num_retry r) now) (rs_send_buff r)) (\<lambda>buff.
        Inr (map (e_msg \<circ> snd) (filter (entry_due (rs_timeout r) now \<circ> snd) (rs_send_buff r)),
             r\<lparr>rs_send_buff := buff\<rparr>)))"

section \<open>Keys\<close>

lemma scast_positive:
  assumes "0 \<le> t" "t < 2 ^ 30"
  shows "bit (scast (push_bit 1 (word_of_int t :: i32)) :: u64) i \<longleftrightarrow> 1 \<le> i \<and> i < 31 \<and> bit t (i - 1)"
proof -
  have "\<not> bit t 30"
    using assms by (simp add: bit_iff_odd)
  moreover have "bit t j \<Longrightarrow> j < 30" for j
  proof (rule ccontr)
    assume "bit t j" "\<not> j < 30"
    moreover have "t < 2 ^ j" using assms(2) \<open>\<not> j < 30\<close> power_increasing[of 30 j "2 :: int"] by simp
    ultimately show False using assms(1) by (simp add: bit_iff_odd)
  qed
  ultimately show ?thesis
    unfolding bit_signed_iff bit_push_bit_iff bit_word_of_int_iff
    by (auto simp: min_def possible_bit_word)
qed

lemma key_bits_bit:
  assumes "0 \<le> t" "t < 2 ^ 30"
  shows "bit (key_bits a s r (word_of_int t) req) i \<longleftrightarrow>
    (48 \<le> i \<and> i < 64 \<and> bit a (i - 48)) \<or> (40 \<le> i \<and> i < 48 \<and> bit s (i - 40)) \<or> (32 \<le> i \<and> i < 40 \<and> bit r (i - 32))
    \<or> (1 \<le> i \<and> i < 31 \<and> bit t (i - 1)) \<or> (i = 0 \<and> req)"
proof -
  have "bit a (i - 48) \<Longrightarrow> i - 48 < 16" "bit s (i - 40) \<Longrightarrow> i - 40 < 8" "bit r (i - 32) \<Longrightarrow> i - 32 < 8"
    using bit_imp_le_length[of a "i - 48"] bit_imp_le_length[of s "i - 40"] bit_imp_le_length[of r "i - 32"]
    by simp_all
  then show ?thesis
    unfolding key_bits_def bit_or_iff bit_push_bit_iff bit_unsigned_iff scast_positive[OF assms]
    by (cases "i < 32"; cases "i < 40"; cases "i < 48"; cases "i < 64")
      (simp_all add: possible_bit_word bit_1_iff, auto)
qed

text \<open>The fields of a message that its key is made of, and the range in which the key has them.\<close>

definition key_fields :: "Message \<Rightarrow> int \<times> int \<times> int \<times> int \<times> bool" where
  "key_fields msg = (let m = msg_meta msg in (m_app_id m, m_sender m, m_recver m, m_timestamp m, m_request m))"

definition key_range :: "Message \<Rightarrow> bool" where
  "key_range msg \<longleftrightarrow> (let m = msg_meta msg in 0 \<le> m_app_id m \<and> m_app_id m < 2 ^ 16 \<and> 0 \<le> m_sender m \<and> m_sender m < 2 ^ 8
     \<and> 0 \<le> m_recver m \<and> m_recver m < 2 ^ 8 \<and> 0 \<le> m_timestamp m \<and> m_timestamp m < 2 ^ 30)"

lemma word_of_int_inject_range:
  assumes "(word_of_int x :: 'a::len word) = word_of_int y" and "0 \<le> x" "x < 2 ^ LENGTH('a)" "0 \<le> y" "y < 2 ^ LENGTH('a)"
  shows "x = y"
  using assms by (metis take_bit_int_eq_self uint_word_of_int_eq)

lemma key_bits_inject:
  assumes t: "0 \<le> t" "t < 2 ^ 30" "0 \<le> t'" "t' < 2 ^ 30"
    and eq: "key_bits a s r (word_of_int t) q = key_bits a' s' r' (word_of_int t') q'"
  shows "a = a' \<and> s = s' \<and> r = r' \<and> t = t' \<and> q = q'"
proof -
  note bit_of = key_bits_bit[OF t(1,2), of a s r q] key_bits_bit[OF t(3,4), of a' s' r' q']
  have b: "bit (key_bits a s r (word_of_int t) q) i = bit (key_bits a' s' r' (word_of_int t') q') i" for i
    by (simp add: eq)
  have "bit a i = bit a' i" if "i < 16" for i using b[of "i + 48"] that unfolding bit_of by simp
  moreover have "bit s i = bit s' i" if "i < 8" for i using b[of "i + 40"] that unfolding bit_of by simp
  moreover have "bit r i = bit r' i" if "i < 8" for i using b[of "i + 32"] that unfolding bit_of by simp
  moreover have "q = q'" using b[of 0] unfolding bit_of by simp
  moreover have "take_bit 30 t = take_bit 30 t'"
  proof (rule bit_eqI)
    fix i show "bit (take_bit 30 t) i = bit (take_bit 30 t') i"
      using b[of "i + 1"] unfolding bit_of by (auto simp: bit_take_bit_iff)
  qed
  moreover from this have "t = t'" using t by (simp add: take_bit_int_eq_self)
  ultimately show ?thesis by (auto intro!: bit_word_eqI)
qed

definition msg_key :: "Message \<Rightarrow> u64" where
  "msg_key msg = (let m = msg_meta msg in key_bits (word_of_int (m_app_id m)) (word_of_int (m_sender m))
     (word_of_int (m_recver m)) (word_of_int (m_timestamp m)) (m_request m))"

lemma GetKey_msg_key:
  "m_timestamp (msg_meta m) \<noteq> kEmpty \<Longrightarrow> m_sender (msg_meta m) \<noteq> kEmpty \<Longrightarrow> GetKey ready node m = Inr (msg_key m)"
  by (simp add: GetKey_def msg_key_def Let_def)

lemma msg_key_inject:
  assumes "key_range m" "key_range m'"
  shows "msg_key m = msg_key m' \<longleftrightarrow> key_fields m = key_fields m'"
proof
  assume eq: "msg_key m = msg_key m'"
  have "word_of_int (m_app_id (msg_meta m)) = (word_of_int (m_app_id (msg_meta m')) :: 16 word)
    \<and> word_of_int (m_sender (msg_meta m)) = (word_of_int (m_sender (msg_meta m')) :: 8 word)
    \<and> word_of_int (m_recver (msg_meta m)) = (word_of_int (m_recver (msg_meta m')) :: 8 word)
    \<and> m_timestamp (msg_meta m) = m_timestamp (msg_meta m') \<and> m_request (msg_meta m) = m_request (msg_meta m')"
    by (rule key_bits_inject) (use assms eq in \<open>simp_all add: key_range_def msg_key_def Let_def\<close>)
  then show "key_fields m = key_fields m'"
    using assms word_of_int_inject_range[where 'a = 16] word_of_int_inject_range[where 'a = 8]
    by (auto simp: key_fields_def key_range_def Let_def)
qed (auto simp: key_fields_def msg_key_def Let_def)

section \<open>A lossy link\<close>

text \<open>
  Two nodes with resenders and the network between them.  The network may lose and repeat messages
  and acknowledgements and deliver them in any order.  \<open>l_pending\<close> are the messages the monitor has
  collected and not yet sent again: it sends them after it has released its lock.  \<open>l_submitted\<close> and
  \<open>l_delivered\<close> record the messages given to \<^verbatim>\<open>Van::Send\<close> at one end and passed on by
  \<^verbatim>\<open>Van::Receiving\<close> at the other.
\<close>

record link =
  l_snd :: Resender
  l_rcv :: Resender
  l_net :: "Message list"
  l_acks :: "Message list"
  l_pending :: "Message list"
  l_submitted :: "Message list"
  l_delivered :: "Message list"

definition link_init :: "int \<Rightarrow> int \<Rightarrow> link" where
  "link_init timeout max_retry = \<lparr>l_snd = Resender_ctor timeout max_retry, l_rcv = Resender_ctor timeout max_retry,
     l_net = [], l_acks = [], l_pending = [], l_submitted = [], l_delivered = []\<rparr>"

text \<open>A message as the van hands it to the resender: it has a timestamp and a sender, and it is
  neither an acknowledgement nor the stop message of the own receiving thread.\<close>

definition sendable_msg :: "Message \<Rightarrow> bool" where
  "sendable_msg m \<longleftrightarrow> m_timestamp (msg_meta m) \<noteq> kEmpty \<and> m_sender (msg_meta m) \<noteq> kEmpty
     \<and> ctl_cmd (m_control (msg_meta m)) \<notin> {ACK, TERMINATE}"

inductive link_step :: "Node \<Rightarrow> Node \<Rightarrow> link \<Rightarrow> link \<Rightarrow> bool" for me you where
  submit: "sendable_msg m \<Longrightarrow> msg_key m \<notin> msg_key ` set (l_submitted s) \<Longrightarrow> AddOutgoing True me now m (l_snd s) = Inr r
    \<Longrightarrow> link_step me you s (s\<lparr>l_snd := r, l_net := l_net s @ [m], l_submitted := l_submitted s @ [m]\<rparr>)"
| lose: "link_step me you s (s\<lparr>l_net := remove1 m (l_net s)\<rparr>)"
| lose_ack: "link_step me you s (s\<lparr>l_acks := remove1 a (l_acks s)\<rparr>)"
| repeat: "m \<in> set (l_net s) \<Longrightarrow> link_step me you s (s\<lparr>l_net := l_net s @ [m]\<rparr>)"
| repeat_ack: "a \<in> set (l_acks s) \<Longrightarrow> link_step me you s (s\<lparr>l_acks := l_acks s @ [a]\<rparr>)"
| deliver: "m \<in> set (l_net s) \<Longrightarrow> AddIncomming True you m (l_rcv s) = Inr (dup, ack, r)
    \<Longrightarrow> link_step me you s (s\<lparr>l_net := remove1 m (l_net s), l_rcv := r,
          l_acks := (case ack of None \<Rightarrow> l_acks s | Some a \<Rightarrow> l_acks s @ [a]),
          l_delivered := (if dup then l_delivered s else l_delivered s @ [m])\<rparr>)"
| acknowledge: "a \<in> set (l_acks s) \<Longrightarrow> AddIncomming True me a (l_snd s) = Inr (dup, ack, r)
    \<Longrightarrow> link_step me you s (s\<lparr>l_acks := remove1 a (l_acks s), l_snd := r\<rparr>)"
| monitor: "Monitoring_round True now (l_snd s) = Inr (ms, r)
    \<Longrightarrow> link_step me you s (s\<lparr>l_snd := r, l_pending := l_pending s @ ms\<rparr>)"
| resend: "m \<in> set (l_pending s) \<Longrightarrow> AddOutgoing True me now m (l_snd s) = Inr r
    \<Longrightarrow> link_step me you s (s\<lparr>l_pending := remove1 m (l_pending s), l_snd := r, l_net := l_net s @ [m]\<rparr>)"

inductive_cases link_stepE: "link_step me you s s'"

inductive link_reachable :: "Node \<Rightarrow> Node \<Rightarrow> int \<Rightarrow> int \<Rightarrow> link \<Rightarrow> bool" for me you timeout max_retry where
  link_start: "link_reachable me you timeout max_retry (link_init timeout max_retry)"
| link_next: "link_reachable me you timeout max_retry s \<Longrightarrow> link_step me you s s' \<Longrightarrow> link_reachable me you timeout max_retry s'"

text \<open>The buffer holds submitted messages under their keys.\<close>

definition buff_ok :: "Message set \<Rightarrow> (u64, Entry) um \<Rightarrow> bool" where
  "buff_ok S b \<longleftrightarrow> (\<forall>(k, e) \<in> set b. e_msg e \<in> S \<and> msg_key (e_msg e) = k)"

definition link_inv :: "link \<Rightarrow> bool" where
  "link_inv s \<longleftrightarrow> (let S = set (l_submitted s); A = set (rs_acked (l_rcv s)) in
     (\<forall>m \<in> S. sendable_msg m) \<and> inj_on msg_key S
     \<and> set (l_net s) \<subseteq> S \<and> set (l_pending s) \<subseteq> S \<and> set (l_delivered s) \<subseteq> S
     \<and> distinct (map msg_key (l_delivered s)) \<and> A = msg_key ` set (l_delivered s)
     \<and> (\<forall>a \<in> set (l_acks s). ctl_cmd (m_control (msg_meta a)) = ACK \<and> ctl_msg_sig (m_control (msg_meta a)) \<in> A)
     \<and> buff_ok S (rs_send_buff (l_snd s))
     \<and> (\<forall>m \<in> S. msg_key m \<in> um_keys (rs_send_buff (l_snd s)) \<union> A))"

lemma set_um_set: "set (um_set k v m) \<subseteq> insert (k, v) (set m)"
  by (induction m) auto

lemma set_um_erase: "set (um_erase k m) \<subseteq> set m"
  by (induction m) auto

lemma sendable_key: "sendable_msg m \<Longrightarrow> GetKey ready node m = Inr (msg_key m)"
  by (simp add: sendable_msg_def GetKey_msg_key)

lemma AddOutgoing_buff:
  assumes "AddOutgoing ready me now m r = Inr r'" and "sendable_msg m"
  shows "um_keys (rs_send_buff r') = insert (msg_key m) (um_keys (rs_send_buff r))"
    and "buff_ok S (rs_send_buff r) \<Longrightarrow> m \<in> S \<Longrightarrow> buff_ok S (rs_send_buff r')"
    and "rs_acked r' = rs_acked r"
proof -
  have r': "r' = (if msg_key m \<in> um_keys (rs_send_buff r) then r
      else r\<lparr>rs_send_buff := um_set (msg_key m) \<lparr>e_msg = m, e_send = now, e_num_retry = 0\<rparr> (rs_send_buff r)\<rparr>)"
    using assms sendable_key[OF assms(2), of ready me] um_find_None_iff[of "rs_send_buff r" "msg_key m"]
    by (auto simp: AddOutgoing_def sendable_msg_def split: if_splits)
  show "um_keys (rs_send_buff r') = insert (msg_key m) (um_keys (rs_send_buff r))" "rs_acked r' = rs_acked r"
    by (auto simp: r' image_iff dom_update)
  show "buff_ok S (rs_send_buff r) \<Longrightarrow> m \<in> S \<Longrightarrow> buff_ok S (rs_send_buff r')"
    using set_um_set[of "msg_key m" _ "rs_send_buff r"] by (fastforce simp: r' buff_ok_def)
qed

lemma AddIncomming_data:
  assumes "AddIncomming ready you m r = Inr (dup, ack, r')" and "sendable_msg m"
  shows "dup = (msg_key m \<in> set (rs_acked r)) \<and> ack = Some (ack_msg m (msg_key m))
    \<and> set (rs_acked r') = insert (msg_key m) (set (rs_acked r))"
  using assms sendable_key[OF assms(2), of ready you]
  by (auto simp: AddIncomming_def sendable_msg_def Let_def split: if_splits)

lemma AddIncomming_ack:
  assumes "AddIncomming ready me a r = Inr (dup, ack, r')" and "ctl_cmd (m_control (msg_meta a)) = ACK"
  shows "r' = r\<lparr>rs_send_buff := um_erase (ctl_msg_sig (m_control (msg_meta a))) (rs_send_buff r)\<rparr>"
  using assms by (simp add: AddIncomming_def Let_def)

lemma monitor_rmap:
  assumes "rmap (monitor_entry ready t mx now) b = Inr b'"
  shows "map (\<lambda>(k, e). (k, e_msg e)) b' = map (\<lambda>(k, e). (k, e_msg e)) b"
  using assms by (induction b arbitrary: b') (auto simp: monitor_entry_def split: if_splits)

lemma buff_ok_alt: "buff_ok S b \<longleftrightarrow> (\<forall>(k, m) \<in> set (map (\<lambda>(k, e). (k, e_msg e)) b). m \<in> S \<and> msg_key m = k)"
  by (auto simp: buff_ok_def)

lemma um_keys_alt: "um_keys b = fst ` set (map (\<lambda>(k, e). (k, e_msg e)) b)"
  by force

lemma Monitoring_buff:
  assumes "Monitoring_round ready now r = Inr (ms, r')"
  shows "um_keys (rs_send_buff r') = um_keys (rs_send_buff r)"
    and "buff_ok S (rs_send_buff r) \<Longrightarrow> buff_ok S (rs_send_buff r') \<and> set ms \<subseteq> S"
    and "rs_acked r' = rs_acked r"
proof -
  have "map (\<lambda>(k, e). (k, e_msg e)) (rs_send_buff r') = map (\<lambda>(k, e). (k, e_msg e)) (rs_send_buff r)"
    using assms monitor_rmap by (auto simp: Monitoring_round_def split: if_splits)
  then show "um_keys (rs_send_buff r') = um_keys (rs_send_buff r)"
    "buff_ok S (rs_send_buff r) \<Longrightarrow> buff_ok S (rs_send_buff r') \<and> set ms \<subseteq> S"
    using assms unfolding um_keys_alt buff_ok_alt
    by (auto simp: Monitoring_round_def buff_ok_alt split: if_splits) fastforce
  show "rs_acked r' = rs_acked r" using assms by (auto simp: Monitoring_round_def split: if_splits)
qed

lemma link_inv_init: "link_inv (link_init timeout max_retry)"
  by (simp add: link_inv_def link_init_def Resender_ctor_def buff_ok_def)

lemma buff_ok_mono: "buff_ok S b \<Longrightarrow> S \<subseteq> S' \<Longrightarrow> buff_ok S' b"
  by (auto simp: buff_ok_def)

lemma remove1_subset: "set xs \<subseteq> S \<Longrightarrow> set (remove1 x xs) \<subseteq> S"
  using set_remove1_subset[of x xs] by blast

lemma link_inv_step: "link_step me you s s' \<Longrightarrow> link_inv s \<Longrightarrow> link_inv s'"
proof (induction rule: link_step.induct)
  case (submit m s now r)
  note b = AddOutgoing_buff[OF submit(3,1)]
  have "buff_ok (insert m (set (l_submitted s))) (rs_send_buff r)"
    using submit.prems by (intro b(2)) (auto simp: link_inv_def Let_def intro: buff_ok_mono)
  then show ?case using submit b(1) by (auto simp: link_inv_def Let_def inj_on_insert)
next
  case (lose s m)
  then show ?case by (auto simp: link_inv_def Let_def dest: notin_set_remove1)
next
  case (lose_ack s a)
  then show ?case using set_remove1_subset[of a "l_acks s"] by (auto simp: link_inv_def Let_def)
next
  case (deliver m s dup ack r)
  then have m: "sendable_msg m" "m \<in> set (l_submitted s)" by (auto simp: link_inv_def Let_def)
  have net: "set (remove1 m (l_net s)) \<subseteq> set (l_submitted s)"
    using deliver.prems by (auto simp: link_inv_def Let_def intro: remove1_subset dest: notin_set_remove1)
  show ?case using AddIncomming_data[OF deliver(2) m(1)] deliver.prems m net
    by (auto simp: link_inv_def Let_def ack_msg_def Message_init_def Meta_init_def)
next
  case (acknowledge a s dup ack r)
  then have a: "ctl_cmd (m_control (msg_meta a)) = ACK" "ctl_msg_sig (m_control (msg_meta a)) \<in> set (rs_acked (l_rcv s))"
    by (auto simp: link_inv_def Let_def)
  have acks: "set (remove1 a (l_acks s)) \<subseteq> set (l_acks s)" by (rule set_remove1_subset)
  have "buff_ok S (um_erase k b)" if "buff_ok S b" for S k b
    using that set_um_erase[of k b] by (auto simp: buff_ok_def)
  then show ?case using acknowledge.prems a(2) acks unfolding AddIncomming_ack[OF acknowledge(2) a(1)]
    by (auto simp: link_inv_def Let_def)
next
  case (monitor now s ms r)
  then show ?case using Monitoring_buff[OF monitor(1)] by (auto simp: link_inv_def Let_def)
next
  case (resend m s now r)
  then have m: "sendable_msg m" "m \<in> set (l_submitted s)" by (auto simp: link_inv_def Let_def)
  note b = AddOutgoing_buff[OF resend(2) m(1)]
  show ?case using resend.prems b(1) b(2)[of "set (l_submitted s)"] m(2)
    by (auto simp: link_inv_def Let_def remove1_subset dest: notin_set_remove1)
qed (auto simp: link_inv_def Let_def)

lemma link_reachable_inv: "link_reachable me you timeout max_retry s \<Longrightarrow> link_inv s"
  by (induction rule: link_reachable.induct) (auto intro: link_inv_init link_inv_step)

section \<open>Properties\<close>


definition demo_msg :: Message where
  "demo_msg = Message_init\<lparr>msg_meta := Meta_init\<lparr>m_app_id := 0, m_sender := 9, m_recver := 8, m_timestamp := 0, m_request := True\<rparr>\<rparr>"

definition demo_node :: "int \<Rightarrow> Node" where
  "demo_node i = \<lparr>n_role = WORKER, n_id = i, n_customer_id = 0, n_hostname = ''h'', n_port = 1, n_is_recovery = False\<rparr>"


text \<open>C35: the key of a message determines its application, sender, receiver, timestamp and direction as
  long as the application id fits in 16 bits, the node ids in 8 and the timestamp in 30.\<close>

theorem GetKey_injective:
  assumes "key_range m" and "key_range m'"
  shows "(\<exists>k. GetKey ready node m = Inr k) \<and> (GetKey ready node m = GetKey ready node m' \<longleftrightarrow>
      m_app_id (msg_meta m) = m_app_id (msg_meta m') \<and> m_sender (msg_meta m) = m_sender (msg_meta m')
      \<and> m_recver (msg_meta m) = m_recver (msg_meta m') \<and> m_timestamp (msg_meta m) = m_timestamp (msg_meta m')
      \<and> m_request (msg_meta m) = m_request (msg_meta m'))"
proof -
  have "GetKey ready node m = Inr (msg_key m)" "GetKey ready node m' = Inr (msg_key m')"
    using assms by (auto simp: key_range_def Let_def kEmpty_def intro!: GetKey_msg_key)
  then show ?thesis using msg_key_inject[OF assms] by (simp add: key_fields_def Let_def)
qed

definition demo_msg2 :: Message where
  "demo_msg2 = demo_msg\<lparr>msg_meta := (msg_meta demo_msg)\<lparr>m_timestamp := 1\<rparr>\<rparr>"

theorem GetKey_injective_witness:
  "GetKey True (demo_node 9) demo_msg \<noteq> GetKey True (demo_node 9) demo_msg2"
proof -
  have r: "key_range demo_msg" "key_range demo_msg2" by (simp_all add: key_range_def demo_msg2_def demo_msg_def)
  have "m_timestamp (msg_meta demo_msg) \<noteq> m_timestamp (msg_meta demo_msg2)" by (simp add: demo_msg2_def demo_msg_def)
  then show ?thesis using GetKey_injective[OF r] by metis
qed

text \<open>C38: the key does not contain the customer.  A message that agrees with one received before in
  application, sender, receiver, timestamp and direction is dropped as a duplicate, even when it
  comes from another customer of the sender and carries other data: customers count their timestamps
  separately.\<close>

theorem AddIncomming_drops_other_customer:
  assumes "AddIncomming ready node m r = Inr (False, ack, r1)"
    and "ctl_cmd (m_control (msg_meta m)) \<noteq> TERMINATE"
    and "m' = \<lparr>msg_meta = (msg_meta m)\<lparr>m_customer_id := other\<rparr>, msg_data = data\<rparr>"
  shows "\<exists>ack'. AddIncomming ready node m' r1 = Inr (True, ack', r1)"
proof -
  have "ctl_cmd (m_control (msg_meta m)) \<noteq> ACK" using assms(1) by (auto simp: AddIncomming_def Let_def)
  moreover have "GetKey ready node m' = GetKey ready node m" by (simp add: assms(3) GetKey_def Let_def)
  ultimately show ?thesis using assms by (auto simp: AddIncomming_def Let_def split: if_splits)
qed

theorem AddIncomming_drops_other_customer_witness:
  "\<exists>ack r1. AddIncomming True (demo_node 8) demo_msg (Resender_ctor 1000 10) = Inr (False, ack, r1)
    \<and> (\<exists>ack'. AddIncomming True (demo_node 8)
          \<lparr>msg_meta = (msg_meta demo_msg)\<lparr>m_customer_id := 1\<rparr>, msg_data = [[7]]\<rparr> r1 = Inr (True, ack', r1))"
proof -
  have m: "sendable_msg demo_msg" by (simp add: sendable_msg_def demo_msg_def Meta_init_def Control_init_def kEmpty_def Message_init_def)
  have a: "AddIncomming True (demo_node 8) demo_msg (Resender_ctor 1000 10) =
     Inr (False, Some (ack_msg demo_msg (msg_key demo_msg)), (Resender_ctor 1000 10)\<lparr>rs_acked := [msg_key demo_msg]\<rparr>)"
    using m by (simp add: AddIncomming_def sendable_key sendable_msg_def Resender_ctor_def)
  show ?thesis
    using a AddIncomming_drops_other_customer[OF a _ refl, of 1 "[[7]]"] m by (auto simp: sendable_msg_def)
qed



end
