(* ===== verification/Ps_NetUtils.thy ===== *)
theory Ps_NetUtils
  imports Ps_Prelude
begin

text \<open>
  \<^verbatim>\<open>src/network_utils.h\<close> on a POSIX system.  What \<^verbatim>\<open>getifaddrs\<close> returns is a list of interfaces with
  their name, their IPv4 address as text (none for an interface without an address or of another
  address family) and whether it is a loopback interface.  \<^verbatim>\<open>bind\<close> and \<^verbatim>\<open>getsockname\<close> are a result
  each.
\<close>

record ifaddrs =
  ifa_name :: string
  ifa_inet :: "string option"
  ifa_loopback :: bool

text \<open>\<^verbatim>\<open>strncmp(name, interface, interface.size()) == 0\<close>: the name starts with the interface.\<close>

definition name_matches :: "string \<Rightarrow> string \<Rightarrow> bool" where
  "name_matches interface name \<longleftrightarrow> take (length interface) name = interface"

fun GetIP :: "ifaddrs list \<Rightarrow> string \<Rightarrow> string \<Rightarrow> string" where
  "GetIP [] interface ip = ip"
| "GetIP (ifa # ifas) interface ip = (case ifa_inet ifa of
      Some a \<Rightarrow> if name_matches interface (ifa_name ifa) then a else GetIP ifas interface ip
    | None \<Rightarrow> GetIP ifas interface ip)"

fun GetAvailableInterfaceAndIP :: "ifaddrs list \<Rightarrow> string \<times> string" where
  "GetAvailableInterfaceAndIP [] = ('''', '''')"
| "GetAvailableInterfaceAndIP (ifa # ifas) = (case ifa_inet ifa of
      Some a \<Rightarrow> if \<not> ifa_loopback ifa then (ifa_name ifa, a) else GetAvailableInterfaceAndIP ifas
    | None \<Rightarrow> GetAvailableInterfaceAndIP ifas)"

definition GetAvailablePort :: "bool \<Rightarrow> int option \<Rightarrow> int" where
  "GetAvailablePort bind_ok sockname =
     (if \<not> bind_ok then 0 else case sockname of None \<Rightarrow> 0 | Some p \<Rightarrow> p)"

definition if_candidate :: "string \<Rightarrow> ifaddrs \<Rightarrow> bool" where
  "if_candidate interface ifa \<longleftrightarrow> ifa_inet ifa \<noteq> None \<and> name_matches interface (ifa_name ifa)"

lemma GetIP_find: "GetIP ifas interface ip =
    (case find (if_candidate interface) ifas of None \<Rightarrow> ip | Some ifa \<Rightarrow> the (ifa_inet ifa))"
  by (induction ifas) (auto simp: if_candidate_def split: option.splits)

lemma GetAvailable_find: "GetAvailableInterfaceAndIP ifas =
    (case find (\<lambda>ifa. ifa_inet ifa \<noteq> None \<and> \<not> ifa_loopback ifa) ifas of
       None \<Rightarrow> ('''', '''') | Some ifa \<Rightarrow> (ifa_name ifa, the (ifa_inet ifa)))"
  by (induction ifas) (auto split: option.splits)

section \<open>Properties\<close>



end
