(* ===== verification/Ps_Van.thy ===== *)
theory Ps_Van
  imports Ps_Resender Ps_NetUtils Ps_Customer "HOL-Library.Char_ord" "HOL-Library.List_Lexorder"
begin

text \<open>
  \<^verbatim>\<open>src/van.cc\<close> and \<^verbatim>\<open>include/ps/internal/van.h\<close>: start-up, node registration, heartbeats, barriers,
  dispatch of received messages and shutdown of a node.  The virtual methods a van implements are
  the record \<open>Transport\<close> over the implementation's own state \<open>'t\<close>; \<^verbatim>\<open>SendMsg\<close> takes the message by
  reference, so it also returns the message it leaves behind.  A process is a \<open>Host\<close>: its van,
  its office, the customer objects the office points to, the environment variable \<^verbatim>\<open>DMLC_RANK\<close> that
  the van sets, and the two local headers of the receiving thread.  What a step reads of the system
  (other settings, clocks, network interfaces, ports) is the record \<open>Ctx\<close>.  A blocking call is split
  at its wait.  \<^verbatim>\<open>std::sort\<close> of the nodes is an insertion sort: nodes have distinct addresses unless
  they share a process.
\<close>

section \<open>State\<close>

record 't Van =
  v_scheduler :: Node
  v_my_node :: Node
  v_is_scheduler :: bool
  v_connected_nodes :: "(string, int) um"
  v_shared_node_mapping :: "(int, int) um"
  v_add_node_record :: "(int, int) um"
  v_ready :: bool
  v_send_bytes :: int
  v_recv_bytes :: int
  v_num_servers :: int
  v_num_workers :: int
  v_barrier_count :: "int list"
  v_resender :: "Resender option"
  v_drop_rate :: int
  v_timestamp :: int
  v_init_stage :: int
  v_heartbeat_timeout :: int
  v_net :: 't

record 't Host =
  h_van :: "'t Van"
  h_office :: "nat Postoffice"
  h_customers :: "(nat, Customer) um"
  h_dmlc_rank :: "string option"
  h_nodes :: Meta
  h_recovery_nodes :: Meta

record 't Transport =
  tr_SendMsg :: "Node \<Rightarrow> Message \<Rightarrow> Node option \<Rightarrow> bool \<Rightarrow> 't \<Rightarrow> (int \<times> Message \<times> 't) res"
  tr_Connect :: "Node \<Rightarrow> Node \<Rightarrow> 't \<Rightarrow> 't res"
  tr_Bind :: "Node \<Rightarrow> nat \<Rightarrow> 't \<Rightarrow> (int \<times> 't) res"

record 't Ctx =
  cx_tr :: "'t Transport"
  cx_sys :: "string \<Rightarrow> string option"
  cx_env :: Environment
  cx_time :: int
  cx_ms :: int
  cx_ifas :: "ifaddrs list"
  cx_port :: int

definition Node_init :: Node where
  "Node_init = \<lparr>n_role = SERVER, n_id = kEmpty, n_customer_id = 0, n_hostname = '''', n_port = kEmpty, n_is_recovery = False\<rparr>"

definition Van_init :: "(string \<Rightarrow> string option) \<Rightarrow> Environment \<Rightarrow> 't \<Rightarrow> 't Van" where
  "Van_init sys env net = \<lparr>v_scheduler = Node_init, v_my_node = Node_init, v_is_scheduler = False,
     v_connected_nodes = [], v_shared_node_mapping = [], v_add_node_record = [], v_ready = False,
     v_send_bytes = 0, v_recv_bytes = 0, v_num_servers = 0, v_num_workers = 0, v_barrier_count = [],
     v_resender = None, v_drop_rate = 0, v_timestamp = 0, v_init_stage = 0,
     v_heartbeat_timeout = (case env_find sys env ''PS_HEARTBEAT_TIMEOUT'' of None \<Rightarrow> 0 | Some s \<Rightarrow> atoi s),
     v_net = net\<rparr>"

text \<open>The receiving thread starts with \<^verbatim>\<open>nodes\<close> empty and \<^verbatim>\<open>recovery_nodes\<close> an empty \<^verbatim>\<open>ADD_NODE\<close>.\<close>

definition Host_init :: "'t Van \<Rightarrow> nat Postoffice \<Rightarrow> 't Host" where
  "Host_init v po = \<lparr>h_van = v, h_office = po, h_customers = [], h_dmlc_rank = None, h_nodes = Meta_init,
     h_recovery_nodes = Meta_init\<lparr>m_control := Control_init\<lparr>ctl_cmd := ADD_NODE\<rparr>\<rparr>\<rparr>"

abbreviation upd_van :: "('t Van \<Rightarrow> 't Van) \<Rightarrow> 't Host \<Rightarrow> 't Host" where
  "upd_van f h \<equiv> h\<lparr>h_van := f (h_van h)\<rparr>"

abbreviation meta_nodes :: "Meta \<Rightarrow> Node list" where
  "meta_nodes m \<equiv> ctl_node (m_control m)"

definition set_nodes :: "Node list \<Rightarrow> Meta \<Rightarrow> Meta" where
  "set_nodes ns m = m\<lparr>m_control := (m_control m)\<lparr>ctl_node := ns\<rparr>\<rparr>"

definition control_msg :: "Command \<Rightarrow> int \<Rightarrow> Message" where
  "control_msg cmd recver = Message_init\<lparr>msg_meta := Meta_init\<lparr>m_recver := recver,
     m_control := Control_init\<lparr>ctl_cmd := cmd\<rparr>\<rparr>\<rparr>"

section \<open>Sending\<close>

definition Van_Send :: "'t Ctx \<Rightarrow> Message \<Rightarrow> Node option \<Rightarrow> bool \<Rightarrow> 't Host \<Rightarrow> (int \<times> 't Host) res" where
  "Van_Send cx msg node connect h =
     (let v = h_van h in
      rbind (tr_SendMsg (cx_tr cx) (v_my_node v) msg node connect (v_net v)) (\<lambda>(send_bytes, msg', net).
      check (send_bytes \<noteq> -1) ''send_bytes != -1''
       (if connect then Inr (send_bytes, h\<lparr>h_van := v\<lparr>v_net := net\<rparr>\<rparr>)
        else
          rbind (case v_resender v of None \<Rightarrow> Inr None
                 | Some r \<Rightarrow> rbind (AddOutgoing (v_ready v) (v_my_node v) (cx_ms cx) msg' r) (\<lambda>r'. Inr (Some r'))) (\<lambda>r.
          rbind (if 2 \<le> po_verbose (h_office h) then Message_DebugString msg' else Inr []) (\<lambda>_.
            Inr (send_bytes, h\<lparr>h_van := v\<lparr>v_net := net, v_send_bytes := v_send_bytes v + send_bytes, v_resender := r\<rparr>\<rparr>))))))"

definition send_plain :: "'t Ctx \<Rightarrow> Message \<Rightarrow> 't Host \<Rightarrow> 't Host res" where
  "send_plain cx msg h = rbind (Van_Send cx msg None False h) (\<lambda>(_, h'). Inr h')"

definition send_connect :: "'t Ctx \<Rightarrow> int \<Rightarrow> Node \<Rightarrow> 't Host \<Rightarrow> 't Host res" where
  "send_connect cx recver node h =
     (let msg = control_msg CONNECT recver;
          msg' = msg\<lparr>msg_meta := (msg_meta msg)\<lparr>m_sender := n_id (v_my_node (h_van h))\<rparr>\<rparr>
      in rbind (Van_Send cx msg' (Some node) True h) (\<lambda>(_, h'). Inr h'))"

text \<open>\<^verbatim>\<open>msg.meta.timestamp = timestamp_++; Send(msg)\<close>.\<close>

definition GetTimestamp :: "'t Van \<Rightarrow> int \<times> 't Van" where
  "GetTimestamp v = (v_timestamp v, v\<lparr>v_timestamp := v_timestamp v + 1\<rparr>)"

definition send_stamped :: "'t Ctx \<Rightarrow> Message \<Rightarrow> 't Host \<Rightarrow> 't Host res" where
  "send_stamped cx msg h = (case GetTimestamp (h_van h) of (ts, v) \<Rightarrow>
     send_plain cx (msg\<lparr>msg_meta := (msg_meta msg)\<lparr>m_timestamp := ts\<rparr>\<rparr>) (h\<lparr>h_van := v\<rparr>))"

section \<open>Node registration at the scheduler\<close>

text \<open>\<^verbatim>\<open>(a.hostname.compare(b.hostname) | (a.port < b.port)) > 0\<close>: a negative comparison stays
  negative, an equal one leaves the order of the ports.\<close>

definition node_less :: "Node \<Rightarrow> Node \<Rightarrow> bool" where
  "node_less a b \<longleftrightarrow>
     (if n_hostname a < n_hostname b then False
      else if n_hostname a = n_hostname b then n_port a < n_port b
      else True)"

fun node_insert :: "Node \<Rightarrow> Node list \<Rightarrow> Node list" where
  "node_insert x [] = [x]"
| "node_insert x (y # ys) = (if node_less y x then y # node_insert x ys else x # y # ys)"

definition node_sort :: "Node list \<Rightarrow> Node list" where
  "node_sort ns = foldr node_insert ns []"

definition node_addr :: "Node \<Rightarrow> string" where
  "node_addr n = n_hostname n @ '':'' @ to_string (n_port n)"

definition next_id :: "Role \<Rightarrow> 't Van \<Rightarrow> int" where
  "next_id role v = (if role = SERVER then ServerRankToID (v_num_servers v) else WorkerRankToID (v_num_workers v))"

definition count_node :: "Role \<Rightarrow> 't Van \<Rightarrow> 't Van" where
  "count_node role v = v\<lparr>v_num_servers := v_num_servers v + (if role = SERVER then 1 else 0),
     v_num_workers := v_num_workers v + (if role = WORKER then 1 else 0)\<rparr>"

fun assign_nodes :: "'t Ctx \<Rightarrow> Node list \<Rightarrow> 't Host \<Rightarrow> (Node list \<times> 't Host) res" where
  "assign_nodes cx [] h = Inr ([], h)"
| "assign_nodes cx (node # ns) h =
     (let addr = node_addr node; new_id = next_id (n_role node) (h_van h) in
      rbind (case um_find (v_connected_nodes (h_van h)) addr of
          None \<Rightarrow> check (n_id node = kEmpty) ''node.id == Node::kEmpty''
            (let node' = node\<lparr>n_id := new_id\<rparr> in
             rbind (send_connect cx new_id node' h) (\<lambda>h1.
               Inr (node', upd_van (\<lambda>v. v\<lparr>v_connected_nodes := um_set addr new_id (v_connected_nodes v)\<rparr>)
                     (h1\<lparr>h_office := UpdateHeartbeat new_id (cx_time cx) (h_office h1)\<rparr>))))
        | Some old \<Rightarrow>
            Inr (node\<lparr>n_id := old\<rparr>,
                 upd_van (\<lambda>v. v\<lparr>v_shared_node_mapping := um_set new_id old (v_shared_node_mapping v)\<rparr>) h)) (\<lambda>(node', h1).
      rbind (assign_nodes cx ns (upd_van (count_node (n_role node)) h1)) (\<lambda>(ns', h2).
        Inr (node' # ns', h2))))"

text \<open>\<^verbatim>\<open>int recver_id;\<close> stays unassigned when every node is recorded already.\<close>

definition next_recver :: "'t Host \<Rightarrow> int res" where
  "next_recver h =
     rbind (GetNodeIDs (h_office h) (kWorkerGroup + kServerGroup)) (\<lambda>ids.
       case find (\<lambda>r. um_find (v_add_node_record (h_van h)) r = None) ids of
         None \<Rightarrow> Inl Uninitialised | Some r \<Rightarrow> Inr r)"

definition bump_record :: "int \<Rightarrow> 't Van \<Rightarrow> 't Van" where
  "bump_record r v = v\<lparr>v_add_node_record := um_set r (um_get 0 (v_add_node_record v) r + 1) (v_add_node_record v)\<rparr>"

text \<open>The node list goes to the first node that is not recorded; only the first list is recorded when
  it is sent.\<close>

definition send_node_list :: "'t Ctx \<Rightarrow> bool \<Rightarrow> 't Host \<Rightarrow> 't Host res" where
  "send_node_list cx record_it h =
     rbind (next_recver h) (\<lambda>r.
       if um_find (v_shared_node_mapping (h_van h)) r \<noteq> None then Inr h
       else rbind (send_stamped cx \<lparr>msg_meta = (h_nodes h)\<lparr>m_recver := r\<rparr>, msg_data = []\<rparr> h) (\<lambda>h'.
         Inr (if record_it then upd_van (bump_record r) h' else h')))"

definition send_recovery :: "'t Ctx \<Rightarrow> 't Host \<Rightarrow> 't Host res" where
  "send_recovery cx h =
     rbind (GetDeadNodes (v_ready (h_van h)) (cx_time cx) (v_heartbeat_timeout (h_van h)) (h_office h)) (\<lambda>dead.
     check (length (meta_nodes (h_recovery_nodes h)) = 1) ''recovery_nodes->control.node.size() == 1''
      (let node = hd (meta_nodes (h_recovery_nodes h)) in
       rbind (tr_Connect (cx_tr cx) (v_my_node (h_van h)) node (v_net (h_van h))) (\<lambda>net.
       let h1 = upd_van (\<lambda>v. v\<lparr>v_net := net\<rparr>) (h\<lparr>h_office := UpdateHeartbeat (n_id node) (cx_time cx) (h_office h)\<rparr>) in
       rbind (GetNodeIDs (h_office h1) (kWorkerGroup + kServerGroup)) (\<lambda>ids.
         rfold (\<lambda>r h. if r \<noteq> n_id node \<and> r \<in> set dead then Inr h
                 else send_stamped cx \<lparr>msg_meta = (if r = n_id node then h_nodes h else h_recovery_nodes h)\<lparr>m_recver := r\<rparr>,
                        msg_data = []\<rparr> h) ids h1))))"

definition num_nodes :: "'c Postoffice \<Rightarrow> int" where
  "num_nodes po = po_num_servers po + po_num_workers po"

definition record_back :: "Message \<Rightarrow> 't Host \<Rightarrow> 't Host" where
  "record_back msg h =
     (if meta_nodes (msg_meta msg) = []
      then let v = bump_record (m_sender (msg_meta msg)) (h_van h) in
           h\<lparr>h_van := (if int (um_size (v_add_node_record v)) = num_nodes (h_office h) then v\<lparr>v_ready := True\<rparr> else v)\<rparr>
      else h)"

definition ProcessAddNodeCommandAtScheduler :: "'t Ctx \<Rightarrow> Message \<Rightarrow> 't Host \<Rightarrow> 't Host res" where
  "ProcessAddNodeCommandAtScheduler cx msg h0 =
     (let h = record_back msg (h0\<lparr>h_recovery_nodes := (h_recovery_nodes h0)\<lparr>m_control :=
                 (m_control (h_recovery_nodes h0))\<lparr>ctl_cmd := ADD_NODE\<rparr>\<rparr>\<rparr>);
          n = num_nodes (h_office h) in
      if int (length (meta_nodes (h_nodes h))) = n
      then rbind (assign_nodes cx (node_sort (meta_nodes (h_nodes h))) h) (\<lambda>(ns, h1).
             send_node_list cx True (h1\<lparr>h_nodes := (h_nodes h1)\<lparr>m_control :=
               (m_control (h_nodes h1))\<lparr>ctl_node := ns @ [v_my_node (h_van h1)], ctl_cmd := ADD_NODE\<rparr>\<rparr>\<rparr>))
      else if int (um_size (v_connected_nodes (h_van h))) = n \<and> int (um_size (v_add_node_record (h_van h))) \<noteq> n
      then send_node_list cx False h
      else if meta_nodes (h_recovery_nodes h) \<noteq> [] then send_recovery cx h
      else Inr h)"

section \<open>Ids and registration at every node\<close>

text \<open>The loop over the registered nodes that replaces a dead node of the same role; the last node is
  the scheduler and is left out.\<close>

fun replace_dead :: "int list \<Rightarrow> Node \<Rightarrow> Node list \<Rightarrow> (Node list \<times> Node) option" where
  "replace_dead dead new [] = None"
| "replace_dead dead new [s] = None"
| "replace_dead dead new (node # n1 # ns) =
     (if n_id node \<in> set dead \<and> n_role node = n_role new
      then let r = new\<lparr>n_id := n_id node, n_is_recovery := True\<rparr> in Some (r # n1 # ns, r)
      else map_option (\<lambda>(ns', r). (node # ns', r)) (replace_dead dead new (n1 # ns)))"

text \<open>A node that has no id yet: register it, or let it take the place of a dead one.  The node in the
  message is updated too.\<close>

definition register_node :: "int list \<Rightarrow> Message \<Rightarrow> 't Host \<Rightarrow> (Node list \<times> 't Host) res" where
  "register_node dead msg h =
     (let ns = meta_nodes (msg_meta msg); nodes = meta_nodes (h_nodes h) in
      check (v_is_scheduler (h_van h)) ''is_scheduler_''
     (check (length ns = 1) ''ctrl.node.size() == 1''
       (if int (length nodes) < num_nodes (h_office h)
        then Inr (ns, h\<lparr>h_nodes := set_nodes (nodes @ [hd ns]) (h_nodes h)\<rparr>)
        else check (v_ready (h_van h)) ''ready_.load()''
          (if nodes = [] then Inl OutOfBounds
           else case replace_dead dead (hd ns) nodes of
             None \<Rightarrow> Inr (ns, h)
           | Some (nodes', r) \<Rightarrow>
               Inr ([r], h\<lparr>h_nodes := set_nodes nodes' (h_nodes h),
                 h_recovery_nodes := set_nodes (meta_nodes (h_recovery_nodes h) @ [r]) (h_recovery_nodes h)\<rparr>)))))"

definition update_my_id :: "Node \<Rightarrow> 't Host \<Rightarrow> 't Host" where
  "update_my_id node h =
     (let me = v_my_node (h_van h) in
      if n_hostname me = n_hostname node \<and> n_port me = n_port node
         \<and> (h_dmlc_rank h = None \<or> n_id me = kEmpty)
      then upd_van (\<lambda>v. v\<lparr>v_my_node := node\<rparr>) (h\<lparr>h_dmlc_rank := Some (to_string (IDtoRank (n_id node)))\<rparr>)
      else h)"

definition UpdateLocalID :: "int list \<Rightarrow> Message \<Rightarrow> 't Host \<Rightarrow> (Message \<times> 't Host) res" where
  "UpdateLocalID dead msg h =
     rbind (if m_sender (msg_meta msg) = kEmpty then register_node dead msg h
            else Inr (meta_nodes (msg_meta msg), h)) (\<lambda>(ns, h1).
       Inr (msg\<lparr>msg_meta := set_nodes ns (msg_meta msg)\<rparr>, fold update_my_id ns h1))"

text \<open>The part of a node that is not the scheduler: connect to the nodes of the list and answer.\<close>

definition connect_listed :: "'t Ctx \<Rightarrow> Node \<Rightarrow> 't Host \<Rightarrow> 't Host res" where
  "connect_listed cx node h =
     (let addr = node_addr node in
      rbind (if um_find (v_connected_nodes (h_van h)) addr = None \<and> n_id (v_my_node (h_van h)) \<noteq> n_id node
             then rbind (send_connect cx (n_id node) node h) (\<lambda>h1.
               Inr (upd_van (\<lambda>v. v\<lparr>v_connected_nodes := um_set addr (n_id node) (v_connected_nodes v)\<rparr>) h1))
             else Inr h) (\<lambda>h2.
       Inr (if n_is_recovery node then h2 else upd_van (count_node (n_role node)) h2)))"

definition ProcessAddNodeCommand :: "'t Ctx \<Rightarrow> Message \<Rightarrow> 't Host \<Rightarrow> 't Host res" where
  "ProcessAddNodeCommand cx msg h =
     rbind (GetDeadNodes (v_ready (h_van h)) (cx_time cx) (v_heartbeat_timeout (h_van h)) (h_office h)) (\<lambda>dead.
     rbind (if meta_nodes (msg_meta msg) \<noteq> [] then UpdateLocalID dead msg h else Inr (msg, h)) (\<lambda>(msg', h1).
       if v_is_scheduler (h_van h1) then ProcessAddNodeCommandAtScheduler cx msg' h1
       else rbind (rfold (connect_listed cx) (meta_nodes (msg_meta msg')) h1) (\<lambda>h2.
            rbind (send_plain cx (let m = control_msg ADD_NODE kScheduler in
                     m\<lparr>msg_meta := (msg_meta m)\<lparr>m_sender := n_id (v_my_node (h_van h2))\<rparr>\<rparr>) h2) (\<lambda>h3.
              Inr (upd_van (\<lambda>v. v\<lparr>v_ready := True\<rparr>) h3)))))"

section \<open>Heartbeats, barriers and data\<close>

definition ProcessHearbeat :: "'t Ctx \<Rightarrow> Message \<Rightarrow> 't Host \<Rightarrow> 't Host res" where
  "ProcessHearbeat cx msg h =
     rfold (\<lambda>node h.
       let h1 = h\<lparr>h_office := UpdateHeartbeat (n_id node) (cx_time cx) (h_office h)\<rparr> in
       if v_is_scheduler (h_van h1)
       then send_stamped cx (let m = control_msg HEARTBEAT (n_id node) in
              m\<lparr>msg_meta := set_nodes [v_my_node (h_van h1)] (msg_meta m)\<rparr>) h1
       else Inr h1) (meta_nodes (msg_meta msg)) h"

definition barrier_response :: "Meta \<Rightarrow> int \<Rightarrow> Message" where
  "barrier_response req r = (let m = control_msg BARRIER r in
     m\<lparr>msg_meta := (msg_meta m)\<lparr>m_request := False, m_app_id := m_app_id req, m_customer_id := m_customer_id req\<rparr>\<rparr>)"

definition ProcessBarrierCommand :: "'t Ctx \<Rightarrow> Message \<Rightarrow> 't Host \<Rightarrow> 't Host res" where
  "ProcessBarrierCommand cx msg h =
     (let meta = msg_meta msg in
      if m_request meta
      then let count = (if v_barrier_count (h_van h) = [] then replicate 8 0 else v_barrier_count (h_van h));
               group = ctl_barrier_group (m_control meta) in
        if \<not> (0 \<le> group \<and> nat group < length count) then Inl OutOfBounds
        else rbind (GetNodeIDs (h_office h) group) (\<lambda>ids.
          let c = count ! nat group + 1;
              h1 = upd_van (\<lambda>v. v\<lparr>v_barrier_count := count[nat group := c]\<rparr>) h in
          if c = int (length ids) \<and> v_init_stage (h_van h) = 2
          then rbind (rfold (\<lambda>r h. if um_find (v_shared_node_mapping (h_van h)) r \<noteq> None then Inr h
                               else send_stamped cx (barrier_response meta r) h) ids
                       (upd_van (\<lambda>v. v\<lparr>v_barrier_count := count[nat group := 0]\<rparr>) h1)) (\<lambda>h2.
                 Inr (h2\<lparr>h_office := ManageForScheduler (m_app_id meta) (h_office h2)\<rparr>))
          else Inr h1)
      else rbind (Manage msg (h_office h)) (\<lambda>po. Inr (h\<lparr>h_office := po\<rparr>)))"

text \<open>\<^verbatim>\<open>GetCustomer\<close> polls the office for five seconds; \<open>polls\<close> are the offices it sees.\<close>

definition ProcessDataMsg :: "(nat \<Rightarrow> nat Postoffice) \<Rightarrow> Message \<Rightarrow> 't Host \<Rightarrow> 't Host res" where
  "ProcessDataMsg polls msg h =
     (let meta = msg_meta msg; app_id = m_app_id meta;
          customer_id = (if po_is_worker (h_office h) then m_customer_id meta else app_id) in
      check (m_sender meta \<noteq> kEmpty) ''msg->meta.sender != Meta::kEmpty''
     (check (m_recver meta \<noteq> kEmpty) ''msg->meta.recver != Meta::kEmpty''
     (check (app_id \<noteq> kEmpty) ''msg->meta.app_id != Meta::kEmpty''
       (case GetCustomer app_id customer_id 5 polls of
          None \<Rightarrow> Inl (Check ''timeout (5 sec) to wait App'')
        | Some p \<Rightarrow> (case um_find (h_customers h) p of
            None \<Rightarrow> Inl NullPointer
          | Some c \<Rightarrow> Inr (h\<lparr>h_customers := um_set p (Accept msg c) (h_customers h)\<rparr>))))))"

definition ProcessTerminateCommand :: "'t Host \<Rightarrow> 't Host res" where
  "ProcessTerminateCommand h =
     check (1 \<le> po_verbose (h_office h) \<longrightarrow> v_ready (h_van h)) ''call Start() first''
       (Inr (upd_van (\<lambda>v. v\<lparr>v_ready := False\<rparr>) h))"

section \<open>The receiving thread\<close>

definition check_duplicate :: "'t Ctx \<Rightarrow> Message \<Rightarrow> 't Host \<Rightarrow> (bool \<times> 't Host) res" where
  "check_duplicate cx msg h = (case v_resender (h_van h) of
      None \<Rightarrow> Inr (False, h)
    | Some r \<Rightarrow> rbind (AddIncomming (v_ready (h_van h)) (v_my_node (h_van h)) msg r) (\<lambda>(dup, ack, r').
        let h1 = upd_van (\<lambda>v. v\<lparr>v_resender := Some r'\<rparr>) h in
        case ack of None \<Rightarrow> Inr (dup, h1)
        | Some a \<Rightarrow> rbind (send_plain cx a h1) (\<lambda>h2. Inr (dup, h2))))"

definition dispatch :: "'t Ctx \<Rightarrow> (nat \<Rightarrow> nat Postoffice) \<Rightarrow> Message \<Rightarrow> 't Host \<Rightarrow> (bool \<times> 't Host) res" where
  "dispatch cx polls msg h =
     (let go_on = (\<lambda>r. rbind r (\<lambda>h'. Inr (True, h'))); ctrl = m_control (msg_meta msg) in
      if Control_empty ctrl then go_on (ProcessDataMsg polls msg h)
      else case ctl_cmd ctrl of
          TERMINATE \<Rightarrow> rbind (ProcessTerminateCommand h) (\<lambda>h'. Inr (False, h'))
        | ADD_NODE \<Rightarrow> go_on (ProcessAddNodeCommand cx msg h)
        | BARRIER \<Rightarrow> go_on (ProcessBarrierCommand cx msg h)
        | HEARTBEAT \<Rightarrow> go_on (ProcessHearbeat cx msg h)
        | CONNECT \<Rightarrow> Inr (True, h)
        | _ \<Rightarrow> rbind (Message_DebugString msg) (\<lambda>_. Inr (True, h)))"

text \<open>One round of \<^verbatim>\<open>Receiving\<close> on a received message; \<open>rnd\<close> is the random number of the debugging
  option that drops messages.  The result says whether the thread goes on.\<close>

definition Van_Receiving_step ::
  "'t Ctx \<Rightarrow> int \<Rightarrow> (nat \<Rightarrow> nat Postoffice) \<Rightarrow> int \<Rightarrow> Message \<Rightarrow> 't Host \<Rightarrow> (bool \<times> 't Host) res" where
  "Van_Receiving_step cx rnd polls recv_bytes msg h =
     (if v_ready (h_van h) \<and> 0 < v_drop_rate (h_van h) \<and> rnd mod 100 < v_drop_rate (h_van h)
      then rbind (Message_DebugString msg) (\<lambda>_. Inr (True, h))
      else check (recv_bytes \<noteq> -1) ''recv_bytes != -1''
       (let h1 = upd_van (\<lambda>v. v\<lparr>v_recv_bytes := v_recv_bytes v + recv_bytes\<rparr>) h in
        rbind (if 2 \<le> po_verbose (h_office h1) then Message_DebugString msg else Inr []) (\<lambda>_.
        rbind (check_duplicate cx msg h1) (\<lambda>(dup, h2).
          if dup then Inr (True, h2) else dispatch cx polls msg h2))))"

section \<open>Start, stop and the heartbeat thread\<close>

definition my_address :: "'t Ctx \<Rightarrow> string res" where
  "my_address cx =
     (let ip0 = (case env_find (cx_sys cx) (cx_env cx) ''DMLC_NODE_HOST'' of None \<Rightarrow> '''' | Some s \<Rightarrow> s) in
      if ip0 \<noteq> [] then Inr ip0
      else let itf = (case env_find (cx_sys cx) (cx_env cx) ''DMLC_INTERFACE'' of None \<Rightarrow> '''' | Some s \<Rightarrow> s);
               (interface, ip) = (if itf \<noteq> [] then (itf, GetIP (cx_ifas cx) itf ip0)
                                  else GetAvailableInterfaceAndIP (cx_ifas cx)) in
        check (interface \<noteq> []) ''failed to get the interface'' (Inr ip))"

definition my_node_info :: "'t Ctx \<Rightarrow> int \<Rightarrow> 't Host \<Rightarrow> Node res" where
  "my_node_info cx customer_id h =
     (let v = h_van h in
      if v_is_scheduler v then Inr (v_scheduler v)
      else rbind (my_address cx) (\<lambda>ip.
        let port = (case env_find (cx_sys cx) (cx_env cx) ''PORT'' of None \<Rightarrow> cx_port cx | Some s \<Rightarrow> atoi s) in
        check (ip \<noteq> []) ''failed to get ip''
       (check (port \<noteq> 0) ''failed to get a port''
         (Inr ((v_my_node v)\<lparr>n_hostname := ip, n_role := (if po_is_worker (h_office h) then WORKER else SERVER),
            n_port := port, n_id := kEmpty, n_customer_id := customer_id\<rparr>)))))"

text \<open>The first critical section of \<^verbatim>\<open>Start\<close>: settings, address, binding, the receiving thread with its
  empty headers, and the connection to the scheduler.\<close>

definition Van_Start_connect :: "'t Ctx \<Rightarrow> int \<Rightarrow> 't Host \<Rightarrow> 't Host res" where
  "Van_Start_connect cx customer_id h =
     (if v_init_stage (h_van h) \<noteq> 0 then Inr h
      else case env_find (cx_sys cx) (cx_env cx) ''DMLC_PS_ROOT_URI'' of None \<Rightarrow> Inl (Check ''DMLC_PS_ROOT_URI not null'') | Some uri \<Rightarrow>
      case env_find (cx_sys cx) (cx_env cx) ''DMLC_PS_ROOT_PORT'' of None \<Rightarrow> Inl (Check ''DMLC_PS_ROOT_PORT not null'') | Some port \<Rightarrow>
      let sch = (v_scheduler (h_van h))\<lparr>n_hostname := uri, n_port := atoi port, n_role := SCHEDULER, n_id := kScheduler\<rparr>;
          h1 = upd_van (\<lambda>v. v\<lparr>v_scheduler := sch, v_is_scheduler := po_is_scheduler (h_office h)\<rparr>) h in
      rbind (my_node_info cx customer_id h1) (\<lambda>me.
      rbind (tr_Bind (cx_tr cx) me (if v_is_scheduler (h_van h1) then 0 else 40) (v_net (h_van h1))) (\<lambda>(bound, net).
      check (bound \<noteq> -1) ''bind failed''
       (let drop_rate = (case env_find (cx_sys cx) (cx_env cx) ''PS_DROP_MSG'' of None \<Rightarrow> v_drop_rate (h_van h1) | Some s \<Rightarrow> atoi s);
            h2 = (upd_van (\<lambda>v. v\<lparr>v_my_node := me\<lparr>n_port := bound\<rparr>, v_net := net, v_drop_rate := drop_rate\<rparr>) h1)\<lparr>
              h_nodes := Meta_init, h_recovery_nodes := Meta_init\<lparr>m_control := Control_init\<lparr>ctl_cmd := ADD_NODE\<rparr>\<rparr>\<rparr> in
        rbind (if v_is_scheduler (h_van h2) then Inr h2 else send_connect cx kScheduler sch h2) (\<lambda>h3.
          Inr (upd_van (\<lambda>v. v\<lparr>v_init_stage := v_init_stage v + 1\<rparr>) h3))))))"

definition register_msg :: "Node \<Rightarrow> Message" where
  "register_msg node = (let m = control_msg ADD_NODE kScheduler in m\<lparr>msg_meta := set_nodes [node] (msg_meta m)\<rparr>)"

definition Van_Start_register :: "'t Ctx \<Rightarrow> int \<Rightarrow> 't Host \<Rightarrow> 't Host res" where
  "Van_Start_register cx customer_id h =
     (if v_is_scheduler (h_van h) then Inr h
      else send_stamped cx (register_msg ((v_my_node (h_van h))\<lparr>n_customer_id := customer_id\<rparr>)) h)"

text \<open>\<^verbatim>\<open>Start\<close> then waits until the van is ready; this is what follows.\<close>

definition Van_Start_finish :: "'t Ctx \<Rightarrow> 't Host \<Rightarrow> 't Host" where
  "Van_Start_finish cx h =
     (if v_init_stage (h_van h) \<noteq> 1 then h
      else let r = (case env_find (cx_sys cx) (cx_env cx) ''PS_RESEND'' of
                 Some s \<Rightarrow> if atoi s \<noteq> 0
                   then Some (Resender_ctor (case env_find (cx_sys cx) (cx_env cx) ''PS_RESEND_TIMEOUT'' of
                          None \<Rightarrow> 1000 | Some t \<Rightarrow> atoi t) 10)
                   else v_resender (h_van h)
               | None \<Rightarrow> v_resender (h_van h)) in
        upd_van (\<lambda>v. v\<lparr>v_resender := r, v_init_stage := v_init_stage v + 1\<rparr>) h)"

definition stop_msg :: "int \<Rightarrow> Message" where
  "stop_msg me = (let m = control_msg TERMINATE me in m\<lparr>msg_meta := (msg_meta m)\<lparr>m_customer_id := 0\<rparr>\<rparr>)"

definition Van_Stop_send :: "'t Ctx \<Rightarrow> 't Host \<Rightarrow> 't Host res" where
  "Van_Stop_send cx h =
     (let me = v_my_node (h_van h) in
      rbind (Van_Send cx (stop_msg (n_id me)) (Some me) True h) (\<lambda>(ret, h').
        check (ret \<noteq> -1) ''ret != -1'' (Inr h')))"

text \<open>What \<^verbatim>\<open>Stop\<close> resets after it has joined the threads.  The pointer to the deleted resender and the
  counters of nodes and registrations are left as they are.\<close>

definition Van_Stop_rest :: "'t Host \<Rightarrow> 't Host" where
  "Van_Stop_rest h = upd_van (\<lambda>v. v\<lparr>v_init_stage := 0, v_resender := map_option Resender_dtor (v_resender v),
     v_ready := False, v_connected_nodes := [], v_shared_node_mapping := [], v_send_bytes := 0, v_timestamp := 0,
     v_my_node := (v_my_node v)\<lparr>n_id := kEmpty\<rparr>, v_barrier_count := []\<rparr>) h"

text \<open>One round of the heartbeat thread; \<open>None\<close> when the thread ends.\<close>

definition Heartbeat_round :: "'t Ctx \<Rightarrow> 't Host \<Rightarrow> 't Host option res" where
  "Heartbeat_round cx h =
     (let interval = (case env_find (cx_sys cx) (cx_env cx) ''PS_HEARTBEAT_INTERVAL'' of None \<Rightarrow> 0 | Some s \<Rightarrow> atoi s) in
      if \<not> (0 < interval \<and> v_ready (h_van h)) then Inr None
      else rbind (send_stamped cx (let m = control_msg HEARTBEAT kScheduler in
             m\<lparr>msg_meta := set_nodes [v_my_node (h_van h)] (msg_meta m)\<rparr>) h) (\<lambda>h'. Inr (Some h')))"

section \<open>The order of the nodes\<close>

lemma node_less_asym: "node_less a b \<Longrightarrow> \<not> node_less b a"
  by (auto simp: node_less_def split: if_splits)

lemma node_less_trans: "node_less a b \<Longrightarrow> node_less b c \<Longrightarrow> node_less a c"
  by (auto simp: node_less_def split: if_splits)

lemma node_less_total: "\<not> node_less a b \<Longrightarrow> \<not> node_less b a \<Longrightarrow> n_hostname a = n_hostname b \<and> n_port a = n_port b"
  by (auto simp: node_less_def split: if_splits)

lemma mset_node_insert [simp]: "mset (node_insert x ys) = add_mset x (mset ys)"
  by (induction ys) auto

lemma mset_node_sort [simp]: "mset (node_sort ns) = mset ns"
  by (induction ns) (auto simp: node_sort_def)

lemma set_node_insert [simp]: "set (node_insert x ys) = insert x (set ys)"
  by (induction ys) auto

lemma set_node_sort [simp]: "set (node_sort ns) = set ns"
  by (induction ns) (auto simp: node_sort_def)

lemma length_node_sort [simp]: "length (node_sort ns) = length ns"
  using mset_node_sort[of ns] by (rule mset_eq_length)

lemma node_less_le_trans: "\<not> node_less y x \<Longrightarrow> \<not> node_less z y \<Longrightarrow> \<not> node_less z x"
  by (auto simp: node_less_def split: if_splits)

lemma sorted_node_insert:
  "sorted_wrt (\<lambda>a b. \<not> node_less b a) ys \<Longrightarrow> sorted_wrt (\<lambda>a b. \<not> node_less b a) (node_insert x ys)"
proof (induction ys)
  case (Cons y ys)
  show ?case
  proof (cases "node_less y x")
    case True
    then show ?thesis using Cons node_less_asym[OF True] by simp
  next
    case False
    then have "\<forall>z \<in> set ys. \<not> node_less z x" using Cons.prems node_less_le_trans by fastforce
    then show ?thesis using Cons.prems False by simp
  qed
qed simp

lemma sorted_node_sort: "sorted_wrt (\<lambda>a b. \<not> node_less b a) (node_sort ns)"
  by (induction ns) (auto simp: node_sort_def sorted_node_insert)

lemma node_addr_inject: "node_addr a = node_addr b \<longleftrightarrow> n_hostname a = n_hostname b \<and> n_port a = n_port b"
  using append_colon_inject[OF to_string_no_colon to_string_no_colon, of "n_hostname a" "n_port a" "n_hostname b" "n_port b"]
  by (simp add: node_addr_def to_string_inject)

text \<open>What \<^verbatim>\<open>SendMsg\<close> leaves in the message: its sender and the number of its data parts.\<close>

definition stamped :: "Node \<Rightarrow> Message \<Rightarrow> Message" where
  "stamped me m = m\<lparr>msg_meta := (msg_meta m)\<lparr>m_sender := n_id me, m_more := int (length (msg_data m))\<rparr>\<rparr>"

lemma stamped_fields [simp]:
  "m_recver (msg_meta (stamped me m)) = m_recver (msg_meta m)"
  "m_control (msg_meta (stamped me m)) = m_control (msg_meta m)"
  "m_sender (msg_meta (stamped me m)) = n_id me" "msg_data (stamped me m) = msg_data m"
  "m_timestamp (msg_meta (stamped me m)) = m_timestamp (msg_meta m)"
  "m_request (msg_meta (stamped me m)) = m_request (msg_meta m)"
  "m_app_id (msg_meta (stamped me m)) = m_app_id (msg_meta m)"
  by (simp_all add: stamped_def)

end
