(* ===== verification/Ps_QuicVan.thy ===== *)
theory Ps_QuicVan
  imports Ps_Van Ps_Wire
begin

text \<open>
  \<^verbatim>\<open>src/quic_van.cc\<close>, \<^verbatim>\<open>src/quic_van.h\<close>: the van over QUIC.  The \<^verbatim>\<open>picoquic\<close> library with the
  sockets and the clock it works on is the record \<open>Pico\<close> of functions over a state \<open>'q\<close>; the
  protobuf library is \<open>ser\<close> and \<open>parse\<close>.  A connection \<^verbatim>\<open>picoquic_cnx_t*\<close> is a number, the null
  pointer \<open>None\<close>.  The loops that wait for packets may run forever: they are partial functions,
  and \<open>None\<close> is a call that does not return.  Stream ids are 64-bit numbers in the code; every
  message takes one, so the model does not let them wrap around.  Logging, the file of round-trip
  times and the addresses of packets are left out.
\<close>

section \<open>The library\<close>

text \<open>\<^verbatim>\<open>picoquic_state_enum\<close>, as far as the van looks at it.\<close>

datatype CnxState = CnxOther | CnxClientAlmostReady | CnxServerAlmostReady | CnxClientReady | CnxDisconnected

definition PICOQUIC_ERROR_DISCONNECTED :: int where
  "PICOQUIC_ERROR_DISCONNECTED = 0x400 + 20"

definition STREAM_ID_INITIAL :: int where
  "STREAM_ID_INITIAL = 2 ^ 64 - 1"

text \<open>The stream description \<^verbatim>\<open>post_file\<close>: the bytes to post, the cell in which the library counts the
  bytes posted, and the stream ids.  A callback context without a stream is \<open>None\<close>.\<close>

record Post =
  d_data :: "byte list"
  d_size :: int
  d_sent :: nat
  d_previous :: int
  d_stream :: int

record 'q Pico =
  pq_get_server_address :: "string \<Rightarrow> int \<Rightarrow> 'q \<Rightarrow> int"
  pq_create_cnx :: "string \<Rightarrow> int \<Rightarrow> 'q \<Rightarrow> nat option \<times> 'q"
  pq_local_cnxid :: "'q \<Rightarrow> nat \<Rightarrow> byte list"
  pq_socket :: "'q \<Rightarrow> int \<times> 'q"
  pq_setsockopt :: "int \<Rightarrow> 'q \<Rightarrow> int \<times> 'q"
  pq_bind :: "int \<Rightarrow> int \<Rightarrow> 'q \<Rightarrow> int \<times> 'q"
  pq_rand :: "'q \<Rightarrow> int \<times> 'q"
  pq_new_cell :: "'q \<Rightarrow> nat \<times> 'q"
  pq_cell :: "'q \<Rightarrow> nat \<Rightarrow> int"
  pq_parse_scenario :: "'q \<Rightarrow> int \<times> 'q"
  pq_initialize_context :: "Post option \<Rightarrow> 'q \<Rightarrow> int \<times> 'q"
  pq_set_callback :: "nat \<Rightarrow> Post option \<Rightarrow> 'q \<Rightarrow> 'q"
  pq_set_alpn :: "nat \<Rightarrow> 'q \<Rightarrow> 'q"
  pq_start_client_cnx :: "nat \<Rightarrow> 'q \<Rightarrow> int \<times> 'q"
  pq_is_0rtt_available :: "'q \<Rightarrow> nat \<Rightarrow> bool"
  pq_start_streams :: "nat \<Rightarrow> int \<Rightarrow> 'q \<Rightarrow> int \<times> 'q"
  pq_prepare_packet :: "nat \<Rightarrow> 'q \<Rightarrow> (int \<times> nat) \<times> 'q"
  pq_send :: "int \<Rightarrow> nat \<Rightarrow> 'q \<Rightarrow> 'q"
  pq_get_cnx_state :: "'q \<Rightarrow> nat \<Rightarrow> CnxState"
  pq_select :: "int \<Rightarrow> 'q \<Rightarrow> int \<times> 'q"
  pq_incoming_packet :: "'q \<Rightarrow> (int \<times> byte list \<times> bool) \<times> 'q"
  pq_earliest_to_wake :: "'q \<Rightarrow> nat option \<Rightarrow> nat option"
  pq_fin_sent :: "'q \<Rightarrow> nat \<Rightarrow> int \<Rightarrow> bool"
  pq_fin_received :: "'q \<Rightarrow> nat \<Rightarrow> int \<Rightarrow> bool"
  pq_delete_cnx :: "nat \<Rightarrow> 'q \<Rightarrow> 'q"
  pq_reset_minrtt :: "nat \<Rightarrow> 'q \<Rightarrow> 'q"
  pq_first_cnx :: "'q \<Rightarrow> nat option"
  pq_msg :: "'q \<Rightarrow> nat \<Rightarrow> byte list option"
  pq_reset_msg :: "nat \<Rightarrow> 'q \<Rightarrow> 'q"

section \<open>State\<close>

record QUICCnxParameter =
  p_cnx :: "nat option"
  p_qsocket :: "int option"
  p_zero_rtt_avaliable :: bool
  p_notified_ready :: bool
  p_established :: bool
  p_client_receive_loop :: int
  p_new_context_created :: bool

record 'q Quic =
  q_rcv_nid2cnx :: "(int, string) um"
  q_snd_nid2cnx :: "(int, string) um"
  q_snd_cnx2nid :: "(string, int) um"
  q_qsnd :: "(string, QUICCnxParameter) um"
  q_qrcv :: "(string, QUICCnxParameter) um"
  q_receiver :: "int option"
  q_previous_stream_id :: int
  q_cur_stream_id :: int
  q_new_context_created :: bool
  q_lib :: 'q

definition QUICCnxParameter_zero :: QUICCnxParameter where
  "QUICCnxParameter_zero = \<lparr>p_cnx = None, p_qsocket = None, p_zero_rtt_avaliable = False, p_notified_ready = False,
     p_established = False, p_client_receive_loop = 0, p_new_context_created = False\<rparr>"

definition QUICVan_init :: "'q \<Rightarrow> int \<Rightarrow> int \<Rightarrow> 'q Quic" where
  "QUICVan_init lib prev cur = \<lparr>q_rcv_nid2cnx = [], q_snd_nid2cnx = [], q_snd_cnx2nid = [], q_qsnd = [], q_qrcv = [],
     q_receiver = None, q_previous_stream_id = prev, q_cur_stream_id = cur, q_new_context_created = False, q_lib = lib\<rparr>"

fun ByteArrayToString :: "byte list \<Rightarrow> string" where
  "ByteArrayToString [] = []"
| "ByteArrayToString (b # bs) = to_string (uint b) @ ByteArrayToString bs"

definition UpdateNodeID :: "int \<Rightarrow> int \<Rightarrow> 'q Quic \<Rightarrow> 'q Quic" where
  "UpdateNodeID old_id new_id s = (case um_find (q_snd_nid2cnx s) old_id of
      None \<Rightarrow> s
    | Some c \<Rightarrow> s\<lparr>q_snd_nid2cnx := um_set new_id c (q_snd_nid2cnx s)\<rparr>)"

section \<open>Sockets\<close>

definition CreateQUICSocket :: "'q Pico \<Rightarrow> 'q \<Rightarrow> int \<times> int \<times> 'q" where
  "CreateQUICSocket pi q = (let (fd, q1) = pq_socket pi q; (ret, q2) = pq_setsockopt pi fd q1 in
     (fd, if ret \<noteq> 0 then 0 else ret, q2))"

text \<open>\<open>left\<close> counts the tries after this one.  The address is built once, from the port of the node.\<close>

fun bind_loop :: "'q Pico \<Rightarrow> int \<Rightarrow> int \<Rightarrow> nat \<Rightarrow> int \<Rightarrow> 'q \<Rightarrow> int \<times> 'q" where
  "bind_loop pi fd addr 0 port q = (let (ret, q1) = pq_bind pi fd addr q in (if ret = 0 then port else -1, q1))"
| "bind_loop pi fd addr (Suc left) port q = (let (ret, q1) = pq_bind pi fd addr q in
     if ret = 0 then (port, q1)
     else let (r, q2) = pq_rand pi q1 in bind_loop pi fd addr left (10000 + r mod 40000) q2)"

definition QUICVan_Bind :: "'q Pico \<Rightarrow> Node \<Rightarrow> nat \<Rightarrow> 'q Quic \<Rightarrow> (int \<times> 'q Quic) res" where
  "QUICVan_Bind pi node max_retry s =
     (let (fd, ret, q1) = CreateQUICSocket pi (q_lib s) in
      if ret \<noteq> 0 then Inr (ret, s\<lparr>q_receiver := Some fd, q_lib := q1\<rparr>)
      else let (port, q2) = bind_loop pi fd (n_port node mod 2 ^ 16) max_retry (n_port node) q1 in
        Inr (port, s\<lparr>q_receiver := Some fd, q_lib := q2\<rparr>))"

section \<open>Sending\<close>

text \<open>\<^verbatim>\<open>m_proposed_version & 0x0a0a0a0a\<close> in the test for 0-RTT.\<close>

definition m_proposed_version :: "32 word" where
  "m_proposed_version = 0xff00000b"

definition zero_rtt :: "'q Pico \<Rightarrow> 'q \<Rightarrow> nat \<Rightarrow> bool" where
  "zero_rtt pi q c \<longleftrightarrow> pq_is_0rtt_available pi q c \<and> m_proposed_version AND 0x0a0a0a0a \<noteq> 0x0a0a0a0a"

text \<open>In the loop of the connecting branch: the first time the connection is ready, the stream is started.\<close>

definition establish :: "'q Pico \<Rightarrow> nat \<Rightarrow> QUICCnxParameter \<Rightarrow> 'q \<Rightarrow> QUICCnxParameter \<times> 'q" where
  "establish pi c p q = (if pq_get_cnx_state pi q c = CnxClientReady \<and> \<not> p_established p
     then (p\<lparr>p_established := True\<rparr>,
           if p_zero_rtt_avaliable p then q else snd (pq_start_streams pi c STREAM_ID_INITIAL q))
     else (p, q))"

text \<open>The inner loop: packets are prepared and sent while the connection is to be woken.  \<open>con\<close> tells the
  connecting branch of \<^verbatim>\<open>SendMsg\<close> from \<^verbatim>\<open>QUICMsgSend\<close>; the result is \<^verbatim>\<open>ret\<close>.\<close>

partial_function (option) wake_loop ::
  "'q Pico \<Rightarrow> bool \<Rightarrow> Post \<Rightarrow> QUICCnxParameter \<Rightarrow> 'q \<Rightarrow> (int \<times> QUICCnxParameter \<times> 'q) option" where
  "wake_loop pi con d p q =
     (case pq_earliest_to_wake pi q (p_cnx p) of
        None \<Rightarrow> Some (0, p, q)
      | Some c \<Rightarrow>
          if pq_fin_sent pi q c (d_stream d) then Some (0, p, q)
          else let (p1, q1) = (if con then establish pi c p q else (p, q));
                   ((ret, len), q2) = pq_prepare_packet pi c q1 in
            if ret = PICOQUIC_ERROR_DISCONNECTED
            then Some (0, if p_cnx p1 = Some c then p1\<lparr>p_cnx := None\<rparr> else p1, pq_delete_cnx pi c q2)
            else if ret \<noteq> 0 then Some (ret, p1, q2)
            else if 0 < len then wake_loop pi con d p1 (pq_send pi (the (p_qsocket p1)) c q2)
            else Some (0, p1, q2))"

definition receive_answer :: "'q Pico \<Rightarrow> QUICCnxParameter \<Rightarrow> 'q \<Rightarrow> (QUICCnxParameter \<times> 'q) res" where
  "receive_answer pi p q = (let q1 = snd (pq_incoming_packet pi q) in
     case p_cnx p of
       None \<Rightarrow> Inl NullPointer
     | Some c \<Rightarrow> Inr (if pq_get_cnx_state pi q1 c = CnxClientAlmostReady then p\<lparr>p_notified_ready := True\<rparr> else p, q1))"

text \<open>At the end of a round: all bytes posted and the answer of the peer complete?\<close>

definition posted_all :: "'q Pico \<Rightarrow> Post \<Rightarrow> QUICCnxParameter \<Rightarrow> 'q \<Rightarrow> int option res" where
  "posted_all pi d p q =
     (if pq_cell pi q (d_sent d) \<ge> d_size d
      then case p_cnx p of
             None \<Rightarrow> Inl NullPointer
           | Some c \<Rightarrow> Inr (if pq_fin_received pi q c (d_stream d) then Some (pq_cell pi q (d_sent d)) else None)
      else Inr None)"

definition send_round ::
  "'q Pico \<Rightarrow> bool \<Rightarrow> Post \<Rightarrow> QUICCnxParameter \<Rightarrow> 'q \<Rightarrow> (int option \<times> int \<times> QUICCnxParameter \<times> 'q) res option" where
  "send_round pi con d p q = (case p_qsocket p of None \<Rightarrow> Some (Inl NullPointer) | Some fd \<Rightarrow>
     let (bytes_recv, q1) = pq_select pi fd q;
         woken = (if bytes_recv < 0 then Some (Inr (-1, p, q1))
           else case (if 0 < bytes_recv then receive_answer pi p q1 else Inr (p, q1)) of
                  Inl e \<Rightarrow> Some (Inl e)
                | Inr (p2, q2) \<Rightarrow> map_option Inr (wake_loop pi con d p2 q2)) in
     map_option (\<lambda>w. rbind w (\<lambda>(ret, p3, q3). rbind (posted_all pi d p3 q3) (\<lambda>done. Inr (done, ret, p3, q3)))) woken)"

text \<open>The outer loop; the result is \<^verbatim>\<open>post_sent\<close>.\<close>

partial_function (option) msg_loop ::
  "'q Pico \<Rightarrow> bool \<Rightarrow> Post \<Rightarrow> int \<Rightarrow> QUICCnxParameter \<Rightarrow> 'q \<Rightarrow> (int \<times> QUICCnxParameter \<times> 'q) res option" where
  "msg_loop pi con d ret p q =
     (if ret \<noteq> 0 then Some (Inr (0, p, q))
      else case p_cnx p of
        None \<Rightarrow> Some (Inl NullPointer)
      | Some c \<Rightarrow>
          if pq_get_cnx_state pi q c = CnxDisconnected then Some (Inr (0, p, q))
          else Option.bind (send_round pi con d p q) (\<lambda>r. case r of
                 Inl e \<Rightarrow> Some (Inl e)
               | Inr (done, ret', p', q') \<Rightarrow>
                   (case done of
                      Some n \<Rightarrow> Some (Inr (n, p', q'))
                    | None \<Rightarrow> msg_loop pi con d ret' p' q')))"

definition store :: "string \<Rightarrow> QUICCnxParameter \<Rightarrow> 'q \<Rightarrow> 'q Quic \<Rightarrow> 'q Quic" where
  "store nid p q s = s\<lparr>q_qsnd := um_set nid p (q_qsnd s), q_lib := q\<rparr>"

definition run_loop ::
  "'q Pico \<Rightarrow> bool \<Rightarrow> Post \<Rightarrow> string \<Rightarrow> int \<Rightarrow> QUICCnxParameter \<Rightarrow> 'q \<Rightarrow> 'q Quic \<Rightarrow> (int \<times> 'q Quic) res option" where
  "run_loop pi con d nid ret p q s =
     map_option (\<lambda>r. rbind r (\<lambda>(post_sent, p', q'). Inr (post_sent, store nid p' q' s))) (msg_loop pi con d ret p q)"

definition QUICMsgSend :: "'q Pico \<Rightarrow> byte list \<Rightarrow> string \<Rightarrow> 'q Quic \<Rightarrow> (int \<times> 'q Quic) res option" where
  "QUICMsgSend pi msg nid s = (case um_find (q_qsnd s) nid of
      None \<Rightarrow> Some (Inl NullPointer)
    | Some p \<Rightarrow>
        let (ret, q1) = pq_parse_scenario pi (q_lib s);
            (cell, q2) = pq_new_cell pi q1;
            d = \<lparr>d_data = msg, d_size = int (length msg), d_sent = cell,
                 d_previous = q_cur_stream_id s, d_stream = q_cur_stream_id s + 4\<rparr>;
            s1 = s\<lparr>q_previous_stream_id := d_previous d, q_cur_stream_id := d_stream d\<rparr> in
        if ret \<noteq> 0 then Some (Inr (-1, store nid p q2 s1))
        else let (ret1, q3) = pq_initialize_context pi (Some d) q2 in
          if ret1 \<noteq> 0 then Some (Inr (0, store nid p q3 s1))
          else (case p_cnx p of
             None \<Rightarrow> Some (Inl NullPointer)
           | Some c \<Rightarrow>
               let q4 = pq_set_alpn pi c (pq_set_callback pi c (Some d) q3);
                   (p5, q5) = (if zero_rtt pi q4 c
                     then (p\<lparr>p_zero_rtt_avaliable := True\<rparr>, snd (pq_start_streams pi c (d_previous d) q4)) else (p, q4));
                   (ret6, q6) = pq_start_streams pi c (d_previous d) q5 in
               run_loop pi False d nid ret6 p5 q6 s1))"

section \<open>Connecting\<close>

text \<open>The connection, its entry in the tables and its socket; \<open>None\<close> when the node needs no connection.\<close>

definition new_cnx ::
  "'q Pico \<Rightarrow> Node \<Rightarrow> Node \<Rightarrow> 'q Quic \<Rightarrow> (string \<times> QUICCnxParameter \<times> 'q Quic) option res" where
  "new_cnx pi me n s =
     check (n_id n \<noteq> kEmpty) ''node.id != kEmpty'' (check (n_port n \<noteq> kEmpty) ''node.port != kEmpty''
     (check (n_hostname n \<noteq> []) ''node.hostname.size()''
       (if n_role n = n_role me \<and> n_id n \<noteq> n_id me then Inr None
        else if pq_get_server_address pi (n_hostname n) (n_port n) (q_lib s) \<noteq> 0 then Inl Uninitialised
        else (case pq_create_cnx pi (n_hostname n) (n_port n) (q_lib s) of
            (None, _) \<Rightarrow> Inl NullPointer
          | (Some c, q) \<Rightarrow>
              let nid = ByteArrayToString (pq_local_cnxid pi q c);
                  s1 = s\<lparr>q_snd_nid2cnx := um_set (n_id n) nid (q_snd_nid2cnx s),
                         q_snd_cnx2nid := um_set nid (n_id n) (q_snd_cnx2nid s), q_lib := q\<rparr> in
              (case um_find (q_qsnd s1) nid of
                 Some p \<Rightarrow> Inr (Some (nid, p, s1))
               | None \<Rightarrow>
                   let (fd, _, q1) = CreateQUICSocket pi q;
                       p = QUICCnxParameter_zero\<lparr>p_cnx := Some c, p_qsocket := Some fd\<rparr> in
                   Inr (Some (nid, p, s1\<lparr>q_qsnd := um_set nid p (q_qsnd s1), q_lib := q1\<rparr>)))))))"

text \<open>The handshake up to the first packet; the result is \<^verbatim>\<open>ret\<close>.\<close>

definition first_packet ::
  "'q Pico \<Rightarrow> Post option \<Rightarrow> nat \<Rightarrow> QUICCnxParameter \<Rightarrow> 'q \<Rightarrow> int \<times> QUICCnxParameter \<times> 'q" where
  "first_packet pi d c p q =
     (let (ret, q1) = pq_start_client_cnx pi c (pq_set_alpn pi c (pq_set_callback pi c d q)) in
      if ret \<noteq> 0 then (ret, p, q1)
      else let (ret2, p2, q2) = (if zero_rtt pi q1 c
                 then let (r, q') = pq_start_streams pi c STREAM_ID_INITIAL q1 in (r, p\<lparr>p_zero_rtt_avaliable := True\<rparr>, q')
                 else (0, p, q1)) in
        if ret2 \<noteq> 0 then (ret2, p2, q2)
        else let ((ret3, len), q3) = pq_prepare_packet pi c q2 in
          if ret3 = 0 \<and> 0 < len then (0, p2, pq_send pi (the (p_qsocket p2)) c q3) else (ret3, p2, q3))"

definition connect_msg ::
  "'q Pico \<Rightarrow> (PBMeta \<Rightarrow> byte list option) \<Rightarrow> Node \<Rightarrow> Message \<Rightarrow> Node \<Rightarrow> 'q Quic \<Rightarrow> (int \<times> Message \<times> 'q Quic) res option" where
  "connect_msg pi ser me msg n s = (case new_cnx pi me n s of
      Inl e \<Rightarrow> Some (Inl e)
    | Inr None \<Rightarrow> Some (Inr (0, msg, s))
    | Inr (Some (nid, p, s1)) \<Rightarrow>
        (case PackMeta ser (msg_meta (stamped me msg)) of
           Inl e \<Rightarrow> Some (Inl e)
         | Inr buf \<Rightarrow>
             let p1 = p\<lparr>p_client_receive_loop := 0\<rparr>;
                 (ret, q1) = pq_parse_scenario pi (q_lib s1);
                 (cell, q2) = pq_new_cell pi q1;
                 d = \<lparr>d_data = buf, d_size = int (length buf), d_sent = cell,
                      d_previous = STREAM_ID_INITIAL, d_stream = 0\<rparr>;
                 s2 = s1\<lparr>q_previous_stream_id := d_previous d, q_cur_stream_id := d_stream d\<rparr> in
             if ret \<noteq> 0 then Some (Inr (-1, stamped me msg, store nid p1 q2 s2))
             else let (ret1, q3) = pq_initialize_context pi (Some d) q2 in
               if ret1 \<noteq> 0 then Some (Inr (0, stamped me msg, store nid p1 q3 s2))
               else (case p_cnx p1 of
                   None \<Rightarrow> Some (Inl NullPointer)
                 | Some c \<Rightarrow>
                     let (ret4, p4, q4) = first_packet pi (Some d) c p1 q3 in
                     map_option (\<lambda>r. rbind r (\<lambda>(post_sent, s'). Inr (post_sent, stamped me msg, s')))
                       (run_loop pi True d nid ret4 p4 q4 s2))))"

text \<open>The parts of a message, one after the other; the result is the number of bytes posted.\<close>

fun send_parts :: "'q Pico \<Rightarrow> string \<Rightarrow> byte list list \<Rightarrow> 'q Quic \<Rightarrow> (int \<times> 'q Quic) res option" where
  "send_parts pi nid [] s = Some (Inr (0, s))"
| "send_parts pi nid (b # bs) s = Option.bind (QUICMsgSend pi b nid s) (\<lambda>r. case r of
      Inl e \<Rightarrow> Some (Inl e)
    | Inr (n, s1) \<Rightarrow> map_option (\<lambda>r. rbind r (\<lambda>(m, s2). Inr (n + m, s2))) (send_parts pi nid bs s1))"

definition send_msg ::
  "'q Pico \<Rightarrow> (PBMeta \<Rightarrow> byte list option) \<Rightarrow> Node \<Rightarrow> Message \<Rightarrow> 'q Quic \<Rightarrow> (int \<times> Message \<times> 'q Quic) res option" where
  "send_msg pi ser me msg s =
     (if m_recver (msg_meta msg) = kEmpty then Some (Inl (Check ''id != kEmpty''))
      else case um_find (q_snd_nid2cnx s) (m_recver (msg_meta msg)) of
        None \<Rightarrow> Some (Inr (-1, msg, s))
      | Some nid \<Rightarrow>
          (case PackMeta ser (msg_meta (stamped me msg)) of
             Inl e \<Rightarrow> Some (Inl e)
           | Inr buf \<Rightarrow>
               map_option (\<lambda>r. rbind r (\<lambda>(bytes_sent, s1).
                 case Option.bind (um_find (q_qsnd s1) nid) p_cnx of
                   None \<Rightarrow> Inl NullPointer
                 | Some c \<Rightarrow>
                     Inr (if bytes_sent \<noteq> int (length (concat (buf # msg_data msg))) then -1 else bytes_sent,
                          stamped me msg, s1\<lparr>q_lib := pq_reset_minrtt pi c (q_lib s1)\<rparr>)))
                 (send_parts pi nid (buf # msg_data msg) s)))"

definition QUICVan_SendMsg ::
  "'q Pico \<Rightarrow> (PBMeta \<Rightarrow> byte list option) \<Rightarrow> Node \<Rightarrow> Message \<Rightarrow> Node option \<Rightarrow> bool \<Rightarrow> 'q Quic \<Rightarrow>
    (int \<times> Message \<times> 'q Quic) res option" where
  "QUICVan_SendMsg pi ser me msg node connect s =
     (if connect then (case node of None \<Rightarrow> Some (Inl NullPointer) | Some n \<Rightarrow> connect_msg pi ser me msg n s)
      else send_msg pi ser me msg s)"

text \<open>\<^verbatim>\<open>Connect\<close>, which the scheduler calls for a node that comes back, has a loop of its own.\<close>

definition connect_round :: "'q Pico \<Rightarrow> QUICCnxParameter \<Rightarrow> nat \<Rightarrow> 'q \<Rightarrow> (bool \<times> int \<times> QUICCnxParameter \<times> 'q) res" where
  "connect_round pi p c q = (case p_qsocket p of None \<Rightarrow> Inl NullPointer | Some fd \<Rightarrow>
     let (bytes_recv, q1) = pq_select pi fd q in
     if bytes_recv < 0 then Inr (False, -1, p, q1)
     else let ((ret, _), q2) = (if 0 < bytes_recv then pq_incoming_packet pi q1 else ((0, [], False), q1));
              p2 = (if 0 < bytes_recv
                    then p\<lparr>p_client_receive_loop := p_client_receive_loop p + 1, p_notified_ready :=
                      (p_notified_ready p \<or> pq_get_cnx_state pi q2 c = CnxClientAlmostReady)\<rparr> else p) in
       if \<not> (bytes_recv = 0 \<or> (ret = 0 \<and> 4 < p_client_receive_loop p2)) then Inr (False, ret, p2, q2)
       else let p3 = p2\<lparr>p_client_receive_loop := 0\<rparr> in
         if ret \<noteq> 0 then Inr (False, ret, p3, q2)
         else if pq_get_cnx_state pi q2 c = CnxClientReady then Inr (True, 0, p3\<lparr>p_established := True\<rparr>, q2)
         else let ((ret3, len), q3) = pq_prepare_packet pi c q2 in
           Inr (False, ret3, p3, if ret3 = 0 \<and> 0 < len then pq_send pi fd c q3 else q3))"

partial_function (option) connect_loop ::
  "'q Pico \<Rightarrow> int \<Rightarrow> QUICCnxParameter \<Rightarrow> nat \<Rightarrow> 'q \<Rightarrow> (QUICCnxParameter \<times> 'q) res option" where
  "connect_loop pi ret p c q =
     (if ret \<noteq> 0 \<or> pq_get_cnx_state pi q c = CnxDisconnected then Some (Inr (p, q))
      else case connect_round pi p c q of
        Inl e \<Rightarrow> Some (Inl e)
      | Inr (done, ret', p', q') \<Rightarrow>
          if done then Some (Inr (p', q')) else connect_loop pi ret' p' c q')"

definition QUICVan_Connect :: "'q Pico \<Rightarrow> Node \<Rightarrow> Node \<Rightarrow> 'q Quic \<Rightarrow> 'q Quic res option" where
  "QUICVan_Connect pi me n s = (case new_cnx pi me n s of
      Inl e \<Rightarrow> Some (Inl e)
    | Inr None \<Rightarrow> Some (Inr s)
    | Inr (Some (nid, p, s1)) \<Rightarrow>
        (case p_cnx p of
           None \<Rightarrow> Some (Inl NullPointer)
         | Some c \<Rightarrow>
             let q1 = snd (pq_initialize_context pi None (q_lib s1));
                 (ret, p2, q2) = first_packet pi None c (p\<lparr>p_client_receive_loop := 0\<rparr>) q1 in
             map_option (\<lambda>r. rbind r (\<lambda>(p3, q3). Inr (store nid p3 q3 s1))) (connect_loop pi ret p2 c q2)))"

section \<open>Receiving\<close>

text \<open>\<^verbatim>\<open>QUICMsgRcv\<close>: a packet comes in; an unknown connection is entered; an answer is sent now and then;
  a complete message is taken.  \<open>nid\<close>, \<open>ret\<close> and \<open>n\<close> are the local variables.\<close>

definition enter_cnx :: "'q Pico \<Rightarrow> string \<Rightarrow> 'q Quic \<Rightarrow> 'q Quic res" where
  "enter_cnx pi nid s = (case um_find (q_qrcv s) nid of
      Some _ \<Rightarrow> Inr s
    | None \<Rightarrow>
        let p = QUICCnxParameter_zero\<lparr>p_new_context_created := q_new_context_created s\<rparr> in
        if p_new_context_created p
        then (case pq_first_cnx pi (q_lib s) of
            None \<Rightarrow> Inl NullPointer
          | Some c \<Rightarrow> Inr (s\<lparr>q_qrcv := um_set nid (p\<lparr>p_cnx := Some c\<rparr>) (q_qrcv s)\<rparr>))
        else Inr (s\<lparr>q_qrcv := um_set nid p (q_qrcv s)\<rparr>))"

definition answer_peer :: "'q Pico \<Rightarrow> int \<Rightarrow> nat \<Rightarrow> int \<Rightarrow> 'q \<Rightarrow> int \<times> 'q" where
  "answer_peer pi fd c ret q =
     (if ret \<noteq> 0 then (ret, q)
      else let ((ret1, len), q1) = pq_prepare_packet pi c q in
        (ret1, if ret1 = 0 \<and> 0 < len then pq_send pi fd c q1 else q1))"

definition rcv_round ::
  "'q Pico \<Rightarrow> string \<Rightarrow> int \<Rightarrow> int \<Rightarrow> 'q Quic \<Rightarrow> (byte list option \<times> string \<times> int \<times> int \<times> 'q Quic) res" where
  "rcv_round pi nid ret n s = (case q_receiver s of None \<Rightarrow> Inl NullPointer | Some fd \<Rightarrow>
     let (bytes_recv, q1) = pq_select pi fd (q_lib s) in
     if bytes_recv < 0 then Inr (None, nid, -1, n, s\<lparr>q_lib := q1\<rparr>)
     else let ((ret1, cid, new), q2) = (if 0 < bytes_recv then pq_incoming_packet pi q1 else ((ret, [], q_new_context_created s), q1));
              nid1 = (if 0 < bytes_recv then ByteArrayToString cid else nid);
              n1 = (if 0 < bytes_recv then n + 1 else n);
              s2 = s\<lparr>q_lib := q2, q_new_context_created := new\<rparr> in
       rbind (if 0 < bytes_recv then enter_cnx pi nid1 s2 else Inr s2) (\<lambda>s3.
       case um_find (q_qrcv s3) nid1 of
         None \<Rightarrow> Inr (None, nid1, ret1, n1, s3)
       | Some p \<Rightarrow>
           (case p_cnx p of
              None \<Rightarrow> Inl NullPointer
            | Some c \<Rightarrow>
                let due = (pq_get_cnx_state pi q2 c = CnxServerAlmostReady \<or> bytes_recv = 0 \<or> (ret1 = 0 \<and> 4 < n1));
                    (ret4, q4) = (if due then answer_peer pi fd c ret1 q2 else (ret1, q2));
                    n4 = (if due then 0 else n1) in
                (case pq_msg pi q4 c of
                   None \<Rightarrow> Inr (None, nid1, ret4, n4, s3\<lparr>q_lib := q4\<rparr>)
                 | Some b \<Rightarrow> Inr (Some b, nid1, ret4, n4, s3\<lparr>q_lib := pq_reset_msg pi c q4\<rparr>)))))"

partial_function (option) rcv_loop ::
  "'q Pico \<Rightarrow> string \<Rightarrow> int \<Rightarrow> int \<Rightarrow> 'q Quic \<Rightarrow> (byte list \<times> 'q Quic) res option" where
  "rcv_loop pi nid ret n s = (case rcv_round pi nid ret n s of
      Inl e \<Rightarrow> Some (Inl e)
    | Inr (received, nid', ret', n', s') \<Rightarrow>
        (case received of Some b \<Rightarrow> Some (Inr (b, s')) | None \<Rightarrow> rcv_loop pi nid' ret' n' s'))"

definition QUICMsgRcv :: "'q Pico \<Rightarrow> 'q Quic \<Rightarrow> (byte list \<times> 'q Quic) res option" where
  "QUICMsgRcv pi s = rcv_loop pi [] 0 0 s"

text \<open>\<^verbatim>\<open>RecvMsg\<close>: the header first, then as many parts as the header says.\<close>

partial_function (option) recv_data_parts ::
  "'q Pico \<Rightarrow> int \<Rightarrow> Message \<Rightarrow> 'q Quic \<Rightarrow> (int \<times> Message \<times> 'q Quic) res option" where
  "recv_data_parts pi i msg s = Option.bind (QUICMsgRcv pi s) (\<lambda>r. case r of
      Inl e \<Rightarrow> Some (Inl e)
    | Inr (b, s') \<Rightarrow>
        let msg' = msg\<lparr>msg_data := msg_data msg @ [b]\<rparr> in
        if i = m_more (msg_meta msg') then Some (Inr (int (length b), msg', s'))
        else recv_data_parts pi (i + 1) msg' s')"

definition QUICVan_RecvMsg ::
  "'q Pico \<Rightarrow> (byte list \<Rightarrow> PBMeta option) \<Rightarrow> Node \<Rightarrow> Message \<Rightarrow> 'q Quic \<Rightarrow> (int \<times> Message \<times> 'q Quic) res option" where
  "QUICVan_RecvMsg pi parse me msg s = Option.bind (QUICMsgRcv pi s) (\<lambda>r. case r of
      Inl e \<Rightarrow> Some (Inl e)
    | Inr (b, s') \<Rightarrow>
        (case UnpackMeta parse b (msg_meta msg) of
           Inl e \<Rightarrow> Some (Inl e)
         | Inr meta \<Rightarrow>
             let msg' = \<lparr>msg_meta = meta\<lparr>m_recver := n_id me\<rparr>, msg_data = []\<rparr> in
             if m_more (msg_meta msg') = 0 then Some (Inr (int (length b), msg', s'))
             else recv_data_parts pi 1 msg' s'))"

section \<open>The van\<close>

definition returned :: "'a res option \<Rightarrow> 'a res" where
  "returned r = (case r of None \<Rightarrow> Inl NoReturn | Some x \<Rightarrow> x)"

definition QUICVan :: "'q Pico \<Rightarrow> (PBMeta \<Rightarrow> byte list option) \<Rightarrow> 'q Quic Transport" where
  "QUICVan pi ser = \<lparr>tr_SendMsg = (\<lambda>me msg node connect s. returned (QUICVan_SendMsg pi ser me msg node connect s)),
     tr_Connect = (\<lambda>me node s. returned (QUICVan_Connect pi me node s)),
     tr_Bind = QUICVan_Bind pi\<rparr>"

end
