(* ===== verification/Ps_VanStart.thy ===== *)
theory Ps_VanStart
  imports Ps_Van
begin

text \<open>
  The protocols of the van over a transport that works.  \<open>van_transport\<close> is what the van relies on:
  a connection message to a node of another role (or to itself) succeeds and connects it, and a
  message to a connected node is sent; both leave the sender and the number of parts in the message.
  Connections must come first: see \<open>o_fresh\<close>.
\<close>

definition connectable :: "Node \<Rightarrow> Node \<Rightarrow> bool" where
  "connectable me n \<longleftrightarrow> n_id n \<noteq> kEmpty \<and> n_port n \<noteq> kEmpty \<and> n_hostname n \<noteq> []
     \<and> (n_role n \<noteq> n_role me \<or> n_id n = n_id me)"

text \<open>What can be observed of a transport: \<open>o_ok\<close> when it works, \<open>o_fresh\<close> while it has sent nothing but
  connection messages, the nodes it is connected to, and the byte strings it has handed to the network,
  each with the node it is for.  \<open>o_wire\<close> are the byte strings of a message.\<close>

record 't Obs =
  o_ok :: "'t \<Rightarrow> bool"
  o_fresh :: "'t \<Rightarrow> bool"
  o_conn :: "'t \<Rightarrow> int set"
  o_sent :: "'t \<Rightarrow> (int \<times> byte list) list"
  o_wire :: "Message \<Rightarrow> byte list list"

definition posts :: "'t Obs \<Rightarrow> Message list \<Rightarrow> (int \<times> byte list) list" where
  "posts ob ms = concat (map (\<lambda>m. map (Pair (m_recver (msg_meta m))) (o_wire ob m)) ms)"

lemma posts_append [simp]: "posts ob [] = []" "posts ob (ms @ ms') = posts ob ms @ posts ob ms'"
  by (simp_all add: posts_def)

lemma posts_Cons: "posts ob (m # ms) = posts ob [m] @ posts ob ms"
  by (simp add: posts_def)

text \<open>What sending changes of a host: the transport, the byte counter and the next timestamp.\<close>

definition sends :: "'t Obs \<Rightarrow> 't Host \<Rightarrow> int set \<Rightarrow> Message list \<Rightarrow> 't Host \<Rightarrow> bool" where
  "sends ob h C ms h' \<longleftrightarrow> (\<exists>net b ts.
     h' = upd_van (\<lambda>v. v\<lparr>v_net := net, v_send_bytes := b, v_timestamp := ts\<rparr>) h \<and> o_ok ob net
     \<and> o_conn ob net = o_conn ob (v_net (h_van h)) \<union> C \<and> o_sent ob net = o_sent ob (v_net (h_van h)) @ posts ob ms)"

definition quiet :: "'t Host \<Rightarrow> bool" where
  "quiet h \<longleftrightarrow> v_resender (h_van h) = None \<and> po_verbose (h_office h) < 2"

lemma sends_fields:
  assumes "sends ob h C ms h'"
  shows "h_office h' = h_office h" "h_nodes h' = h_nodes h" "h_recovery_nodes h' = h_recovery_nodes h"
    "v_my_node (h_van h') = v_my_node (h_van h)" "v_is_scheduler (h_van h') = v_is_scheduler (h_van h)"
    "v_connected_nodes (h_van h') = v_connected_nodes (h_van h)" "v_ready (h_van h') = v_ready (h_van h)"
    "v_shared_node_mapping (h_van h') = v_shared_node_mapping (h_van h)" "quiet h' = quiet h"
    "v_add_node_record (h_van h') = v_add_node_record (h_van h)" "v_barrier_count (h_van h') = v_barrier_count (h_van h)"
    "v_init_stage (h_van h') = v_init_stage (h_van h)" "v_num_servers (h_van h') = v_num_servers (h_van h)"
    "v_num_workers (h_van h') = v_num_workers (h_van h)" "v_resender (h_van h') = v_resender (h_van h)"
    "o_conn ob (v_net (h_van h')) = o_conn ob (v_net (h_van h)) \<union> C" "o_sent ob (v_net (h_van h')) = o_sent ob (v_net (h_van h)) @ posts ob ms" "o_ok ob (v_net (h_van h'))"
proof -
  obtain net b ts where "h' = upd_van (\<lambda>v. v\<lparr>v_net := net, v_send_bytes := b, v_timestamp := ts\<rparr>) h"
    "o_ok ob net" "o_conn ob net = o_conn ob (v_net (h_van h)) \<union> C" "o_sent ob net = o_sent ob (v_net (h_van h)) @ posts ob ms"
    using assms unfolding sends_def by blast
  note h' = this
  show "h_office h' = h_office h" "h_nodes h' = h_nodes h" "h_recovery_nodes h' = h_recovery_nodes h"
    "v_my_node (h_van h') = v_my_node (h_van h)" "v_is_scheduler (h_van h') = v_is_scheduler (h_van h)"
    "v_connected_nodes (h_van h') = v_connected_nodes (h_van h)" "v_ready (h_van h') = v_ready (h_van h)"
    "v_shared_node_mapping (h_van h') = v_shared_node_mapping (h_van h)" "quiet h' = quiet h"
    "v_add_node_record (h_van h') = v_add_node_record (h_van h)" "v_barrier_count (h_van h') = v_barrier_count (h_van h)"
    "v_init_stage (h_van h') = v_init_stage (h_van h)" "v_num_servers (h_van h') = v_num_servers (h_van h)"
    "v_num_workers (h_van h') = v_num_workers (h_van h)" "v_resender (h_van h') = v_resender (h_van h)"
    "o_conn ob (v_net (h_van h')) = o_conn ob (v_net (h_van h)) \<union> C" "o_sent ob (v_net (h_van h')) = o_sent ob (v_net (h_van h)) @ posts ob ms"
    "o_ok ob (v_net (h_van h'))"
    by (simp_all add: h' quiet_def)
qed

section \<open>Ids\<close>

text \<open>The ids the scheduler gives out when it has given \<open>a\<close> ids to servers and \<open>b\<close> to workers.\<close>

fun assigned :: "int \<Rightarrow> int \<Rightarrow> Node list \<Rightarrow> Node list" where
  "assigned a b [] = []"
| "assigned a b (n # ns) =
     (if n_role n = SERVER then n\<lparr>n_id := ServerRankToID a\<rparr> # assigned (a + 1) b ns
      else n\<lparr>n_id := WorkerRankToID b\<rparr> # assigned a (b + 1) ns)"

definition count_role :: "Role \<Rightarrow> Node list \<Rightarrow> int" where
  "count_role r ns = int (length (filter (\<lambda>n. n_role n = r) ns))"

definition fresh_node :: "Node \<Rightarrow> bool" where
  "fresh_node n \<longleftrightarrow> n_id n = kEmpty \<and> n_hostname n \<noteq> [] \<and> n_port n \<noteq> kEmpty \<and> n_role n \<in> {SERVER, WORKER}"

lemma count_role_simps [simp]:
  "count_role r [] = 0" "count_role r (n # ns) = (if n_role n = r then 1 + count_role r ns else count_role r ns)"
  "0 \<le> count_role r ns"
  by (simp_all add: count_role_def)

lemma count_role_sum: "\<forall>n \<in> set ns. n_role n \<in> {SERVER, WORKER} \<Longrightarrow> count_role SERVER ns + count_role WORKER ns = int (length ns)"
  by (induction ns) auto

lemma count_role_mset: "mset ns = mset ns' \<Longrightarrow> count_role r ns = count_role r ns'"
  unfolding count_role_def by (metis mset_filter size_mset)

lemma length_assigned [simp]: "length (assigned a b ns) = length ns"
  by (induction a b ns rule: assigned.induct) auto

lemma mset_assigned_ids:
  assumes "\<forall>n \<in> set ns. n_role n \<in> {SERVER, WORKER}"
  shows "mset (map n_id (assigned a b ns)) =
    mset (map ServerRankToID [a..a + count_role SERVER ns - 1]) + mset (map WorkerRankToID [b..b + count_role WORKER ns - 1])"
  using assms
proof (induction a b ns rule: assigned.induct)
  case (2 a b n ns)
  have "[c..c + (1 + k) - 1] = c # [c + 1..(c + 1) + k - 1]" if "0 \<le> k" for c k :: int
    using that by (simp add: upto_rec1)
  then show ?case using 2 by auto
qed simp

lemma assigned_ids:
  assumes "\<forall>n \<in> set ns. n_role n \<in> {SERVER, WORKER}"
  shows "distinct (map n_id (assigned 0 0 ns))"
    and "set (map n_id (assigned 0 0 ns)) = set (worker_ids (count_role WORKER ns) @ server_ids (count_role SERVER ns))"
proof -
  have m: "mset (map n_id (assigned 0 0 ns)) = mset (worker_ids (count_role WORKER ns) @ server_ids (count_role SERVER ns))"
    using mset_assigned_ids[OF assms, of 0 0] by (simp add: worker_ids_def server_ids_def)
  have "distinct (worker_ids w @ server_ids s)" for w s using distinct_ids ids_disjoint by auto
  then show "distinct (map n_id (assigned 0 0 ns))" using mset_eq_imp_distinct_iff[OF m] by blast
  show "set (map n_id (assigned 0 0 ns)) = set (worker_ids (count_role WORKER ns) @ server_ids (count_role SERVER ns))"
    using m by (rule mset_eq_setD)
qed

lemma assigned_erased: "\<forall>n \<in> set ns. n_id n = kEmpty \<Longrightarrow> map (\<lambda>n. n\<lparr>n_id := kEmpty\<rparr>) (assigned a b ns) = ns"
  by (induction a b ns rule: assigned.induct) auto

lemma assigned_role:
  "\<forall>n \<in> set ns. n_role n \<in> {SERVER, WORKER} \<Longrightarrow> n \<in> set (assigned a b ns) \<Longrightarrow> n_role n = (if even (n_id n) then SERVER else WORKER)"
  by (induction a b ns rule: assigned.induct) (auto simp: ServerRankToID_def WorkerRankToID_def)

text \<open>A scheduler that has not heard of a failed node.\<close>

definition sched_core :: "int \<Rightarrow> int \<Rightarrow> 't Host \<Rightarrow> bool" where
  "sched_core s w h \<longleftrightarrow> v_is_scheduler (h_van h) \<and> quiet h \<and> n_role (v_my_node (h_van h)) = SCHEDULER
     \<and> v_shared_node_mapping (h_van h) = [] \<and> po_num_servers (h_office h) = s \<and> po_num_workers (h_office h) = w
     \<and> GetNodeIDs (h_office h) (kWorkerGroup + kServerGroup) = Inr (worker_ids w @ server_ids s)
     \<and> ctl_cmd (m_control (h_recovery_nodes h)) = ADD_NODE \<and> meta_nodes (h_recovery_nodes h) = []"

lemma sched_core_sends: "sends ob h C ms h' \<Longrightarrow> sched_core s w h' = sched_core s w h"
  by (simp add: sched_core_def sends_fields)

text \<open>What assigning the ids of \<open>ns\<close> does: it connects to every node, in order.\<close>

definition assigns ::
  "'t Obs \<Rightarrow> int \<Rightarrow> int \<Rightarrow> Node list \<Rightarrow> 't Host \<Rightarrow> 't Host \<Rightarrow> bool" where
  "assigns ob s w ns h h' \<longleftrightarrow> sched_core s w h' \<and> o_fresh ob (v_net (h_van h')) \<and> h_nodes h' = h_nodes h
    \<and> um_size (v_connected_nodes (h_van h')) = um_size (v_connected_nodes (h_van h)) + length ns
    \<and> v_add_node_record (h_van h') = v_add_node_record (h_van h) \<and> v_ready (h_van h') = v_ready (h_van h)
    \<and> v_my_node (h_van h') = v_my_node (h_van h)
    \<and> o_conn ob (v_net (h_van h')) = o_conn ob (v_net (h_van h)) \<union> set (map n_id ns)
    \<and> (\<exists>ms. o_sent ob (v_net (h_van h')) = o_sent ob (v_net (h_van h)) @ posts ob ms
        \<and> map (\<lambda>m. (ctl_cmd (m_control (msg_meta m)), m_recver (msg_meta m))) ms = map (\<lambda>n. (CONNECT, n_id n)) ns)"

text \<open>The two kinds of \<^verbatim>\<open>ADD_NODE\<close> message a scheduler receives, and its phases: collecting
  registrations, and handing the node list to one node after the other.\<close>

definition is_register :: "Node \<Rightarrow> Message \<Rightarrow> bool" where
  "is_register n m \<longleftrightarrow> meta_nodes (msg_meta m) = [n] \<and> m_sender (msg_meta m) = kEmpty"

definition is_back :: "int \<Rightarrow> Message \<Rightarrow> bool" where
  "is_back r m \<longleftrightarrow> meta_nodes (msg_meta m) = [] \<and> m_sender (msg_meta m) = r"

definition registering :: "int \<Rightarrow> int \<Rightarrow> Node list \<Rightarrow> 't Host \<Rightarrow> bool" where
  "registering s w ns h \<longleftrightarrow> sched_core s w h \<and> meta_nodes (h_nodes h) = ns \<and> \<not> v_ready (h_van h)
     \<and> v_connected_nodes (h_van h) = [] \<and> v_add_node_record (h_van h) = []
     \<and> v_num_servers (h_van h) = 0 \<and> v_num_workers (h_van h) = 0"

definition all_ids :: "int \<Rightarrow> int \<Rightarrow> int list" where
  "all_ids s w = worker_ids w @ server_ids s"

definition distributing :: "'t Obs \<Rightarrow> int \<Rightarrow> int \<Rightarrow> Node list \<Rightarrow> nat \<Rightarrow> 't Host \<Rightarrow> bool" where
  "distributing ob s w ns k h \<longleftrightarrow> sched_core s w h \<and> o_ok ob (v_net (h_van h)) \<and> meta_nodes (h_nodes h) = ns \<and> int (length ns) = s + w + 1
     \<and> ctl_cmd (m_control (h_nodes h)) = ADD_NODE \<and> \<not> v_ready (h_van h)
     \<and> int (um_size (v_connected_nodes (h_van h))) = s + w
     \<and> set (all_ids s w) \<subseteq> o_conn ob (v_net (h_van h)) \<and> um_wf (v_add_node_record (h_van h))
     \<and> um_keys (v_add_node_record (h_van h)) = set (take (max 1 k) (all_ids s w))"

lemma all_ids_facts:
  "distinct (all_ids s w)" "0 \<le> s \<Longrightarrow> 0 \<le> w \<Longrightarrow> int (length (all_ids s w)) = s + w"
  "s < 2 ^ 29 \<Longrightarrow> w < 2 ^ 29 \<Longrightarrow> r \<in> set (all_ids s w) \<Longrightarrow> r \<noteq> kEmpty"
proof -
  show "distinct (all_ids s w)" using distinct_ids ids_disjoint by (auto simp: all_ids_def)
qed (auto simp: all_ids_def worker_ids_def server_ids_def WorkerRankToID_def ServerRankToID_def kEmpty_def)

lemma find_next:
  assumes "distinct xs" and "j < length xs" and "\<And>r. um_find m r = None \<longleftrightarrow> r \<notin> set (take j xs)"
  shows "find (\<lambda>r. um_find m r = None) xs = Some (xs ! j)"
proof -
  have "xs ! j \<notin> set (take j xs)"
    using assms(1,2) by (metis distinct_take id_take_nth_drop not_distinct_conv_prefix distinct_append
      disjoint_iff list.set_intros(1) set_append append_take_drop_id Cons_nth_drop_Suc)
  moreover have "xs ! i \<in> set (take j xs)" if "i < j" for i
    using that assms(2) by (metis in_set_conv_nth length_take min.absorb4 nth_take)
  ultimately show ?thesis using assms(2,3) unfolding find_Some_iff by blast
qed

lemma update_my_id_other: "node_addr n \<noteq> node_addr (v_my_node (h_van h)) \<Longrightarrow> update_my_id n h = h"
  using node_addr_inject[of n "v_my_node (h_van h)"] by (auto simp: update_my_id_def)

section \<open>The interface of a transport\<close>

locale van_transport =
  fixes tr :: "'t Transport" and ob :: "'t Obs"
  assumes fresh_ok: "o_fresh ob s \<Longrightarrow> o_ok ob s"
    and connect_ok: "o_fresh ob s \<Longrightarrow> connectable me n \<Longrightarrow> m_recver (msg_meta m) = n_id n \<Longrightarrow> msg_data m = [] \<Longrightarrow>
      \<exists>b s'. tr_SendMsg tr me m (Some n) True s = Inr (b, stamped me m, s') \<and> b \<noteq> -1 \<and> o_fresh ob s'
        \<and> o_conn ob s' = o_conn ob s \<union> {n_id n} \<and> o_sent ob s' = o_sent ob s @ posts ob [stamped me m]"
    and send_ok: "o_ok ob s \<Longrightarrow> m_recver (msg_meta m) \<in> o_conn ob s \<Longrightarrow> m_recver (msg_meta m) \<noteq> kEmpty \<Longrightarrow>
      \<exists>b s'. tr_SendMsg tr me m None False s = Inr (b, stamped me m, s') \<and> b \<noteq> -1 \<and> o_ok ob s'
        \<and> o_conn ob s' = o_conn ob s \<and> o_sent ob s' = o_sent ob s @ posts ob [stamped me m]"
begin

lemma send_plain_ok:
  assumes "cx_tr cx = tr" and "quiet h" and "o_ok ob (v_net (h_van h))" and "m_recver (msg_meta m) \<in> o_conn ob (v_net (h_van h))" "m_recver (msg_meta m) \<noteq> kEmpty"
  shows "\<exists>h'. send_plain cx m h = Inr h' \<and> sends ob h {} [stamped (v_my_node (h_van h)) m] h'"
proof -
  obtain b s where s: "tr_SendMsg tr (v_my_node (h_van h)) m None False (v_net (h_van h)) =
      Inr (b, stamped (v_my_node (h_van h)) m, s)" "b \<noteq> -1" "o_conn ob s = o_conn ob (v_net (h_van h)) \<union> {}"
    "o_sent ob s = o_sent ob (v_net (h_van h)) @ posts ob [stamped (v_my_node (h_van h)) m]" "o_ok ob s"
    using send_ok[OF assms(3-5)] by (metis sup_bot_right)
  let ?h = "upd_van (\<lambda>v. v\<lparr>v_net := s, v_send_bytes := v_send_bytes v + b, v_resender := None\<rparr>) h"
  have eq: "send_plain cx m h = Inr ?h" using s(1,2) assms(1,2) by (simp add: send_plain_def Van_Send_def Let_def quiet_def)
  have "?h = upd_van (\<lambda>v. v\<lparr>v_net := s, v_send_bytes := v_send_bytes v + b, v_timestamp := v_timestamp v\<rparr>) h"
    using assms(2) by (cases h; cases "h_van h") (simp add: quiet_def)
  then have "sends ob h {} [stamped (v_my_node (h_van h)) m] ?h"
    unfolding sends_def using s(3-5) by blast
  then show ?thesis using eq by blast
qed

lemma send_stamped_ok:
  assumes "cx_tr cx = tr" and "quiet h" and "o_ok ob (v_net (h_van h))" and "m_recver (msg_meta m) \<in> o_conn ob (v_net (h_van h))" "m_recver (msg_meta m) \<noteq> kEmpty"
  shows "\<exists>h' ts. send_stamped cx m h = Inr h' \<and> sends ob h {}
    [stamped (v_my_node (h_van h)) (m\<lparr>msg_meta := (msg_meta m)\<lparr>m_timestamp := ts\<rparr>\<rparr>)] h'"
proof -
  let ?h = "upd_van (\<lambda>v. v\<lparr>v_timestamp := v_timestamp v + 1\<rparr>) h" and ?m = "m\<lparr>msg_meta := (msg_meta m)\<lparr>m_timestamp := v_timestamp (h_van h)\<rparr>\<rparr>"
  obtain h' where h': "send_plain cx ?m ?h = Inr h'" "sends ob ?h {} [stamped (v_my_node (h_van ?h)) ?m] h'"
    using send_plain_ok[of cx ?h ?m] assms by (auto simp: quiet_def)
  then have "sends ob h {} [stamped (v_my_node (h_van h)) ?m] h'" by (fastforce simp: sends_def)
  then show ?thesis using h'(1) by (auto simp: send_stamped_def GetTimestamp_def)
qed

lemma send_connect_ok:
  assumes "cx_tr cx = tr" and "o_fresh ob (v_net (h_van h))" and "connectable (v_my_node (h_van h)) n" and "r = n_id n"
  shows "\<exists>h' m. send_connect cx r n h = Inr h' \<and> sends ob h {n_id n} [m] h' \<and> o_fresh ob (v_net (h_van h'))
    \<and> ctl_cmd (m_control (msg_meta m)) = CONNECT \<and> m_recver (msg_meta m) = r"
proof -
  let ?m0 = "control_msg CONNECT r"
  let ?m = "?m0\<lparr>msg_meta := (msg_meta ?m0)\<lparr>m_sender := n_id (v_my_node (h_van h))\<rparr>\<rparr>" and ?me = "v_my_node (h_van h)"
  obtain b s where s: "tr_SendMsg tr ?me ?m (Some n) True (v_net (h_van h)) = Inr (b, stamped ?me ?m, s)" "b \<noteq> -1"
    "o_conn ob s = o_conn ob (v_net (h_van h)) \<union> {n_id n}" "o_sent ob s = o_sent ob (v_net (h_van h)) @ posts ob [stamped ?me ?m]"
    "o_fresh ob s"
    using connect_ok[OF assms(2,3), of ?m] assms(4) by (auto simp: control_msg_def Message_init_def)
  have eq: "send_connect cx r n h = Inr (upd_van (\<lambda>v. v\<lparr>v_net := s\<rparr>) h)"
    using s(1,2) assms(1) by (simp add: send_connect_def Van_Send_def Let_def)
  have "upd_van (\<lambda>v. v\<lparr>v_net := s\<rparr>) h = upd_van (\<lambda>v. v\<lparr>v_net := s, v_send_bytes := v_send_bytes v, v_timestamp := v_timestamp v\<rparr>) h"
    by (cases h; cases "h_van h") simp
  then have "sends ob h {n_id n} [stamped ?me ?m] (upd_van (\<lambda>v. v\<lparr>v_net := s\<rparr>) h)"
    unfolding sends_def using s(3-5) fresh_ok by blast
  then show ?thesis using eq by (intro exI[of _ "upd_van (\<lambda>v. v\<lparr>v_net := s\<rparr>) h"] exI[of _ "stamped ?me ?m"])
    (simp add: control_msg_def s(5))
qed

lemma assign_nodes_ok:
  assumes tr: "cx_tr cx = tr" and "o_fresh ob (v_net (h_van h))" and "sched_core s w h" and "\<forall>n \<in> set ns. fresh_node n" and "distinct (map node_addr ns)"
    and "node_addr ` set ns \<inter> um_keys (v_connected_nodes (h_van h)) = {}"
    and "v_num_servers (h_van h) = a" "v_num_workers (h_van h) = b" "0 \<le> a" "0 \<le> b" "a + b + int (length ns) < 2 ^ 29"
  shows "\<exists>h'. assign_nodes cx ns h = Inr (assigned a b ns, h') \<and> assigns ob s w (assigned a b ns) h h'"
  using assms(2-)
proof (induction ns arbitrary: h a b)
  case (Cons n ns)
  define i where "i = next_id (n_role n) (h_van h)"
  define n' where "n' = n\<lparr>n_id := i\<rparr>"
  have i': "n_id n' = i" by (simp add: n'_def)
  have n: "n_id n = kEmpty" "n_role n \<in> {SERVER, WORKER}" using Cons.prems(3) by (auto simp: fresh_node_def)
  have i: "i = (if n_role n = SERVER then ServerRankToID a else WorkerRankToID b)"
    using Cons.prems(6,7) by (simp add: i_def next_id_def)
  have "i \<noteq> kEmpty" using Cons.prems(8-10) by (auto simp: i ServerRankToID_def WorkerRankToID_def kEmpty_def)
  then have "connectable (v_my_node (h_van h)) n'"
    using Cons.prems(2,3) n by (auto simp: connectable_def n'_def fresh_node_def sched_core_def)
  then obtain h1 m where h1: "send_connect cx i n' h = Inr h1" "sends ob h {i} [m] h1" "o_fresh ob (v_net (h_van h1))"
    "ctl_cmd (m_control (msg_meta m)) = CONNECT" "m_recver (msg_meta m) = i"
    using send_connect_ok[OF tr Cons.prems(1) _ i'[symmetric], unfolded i'] by blast
  note f = sends_fields[OF h1(2)]
  define h2 where "h2 = upd_van (count_node (n_role n)) (upd_van (\<lambda>v. v\<lparr>v_connected_nodes := um_set (node_addr n) i (v_connected_nodes v)\<rparr>)
    (h1\<lparr>h_office := UpdateHeartbeat i (cx_time cx) (h_office h1)\<rparr>))"
  have new: "um_find (v_connected_nodes (h_van h)) (node_addr n) = None"
    using Cons.prems(5) by (auto simp: um_find_None_iff)
  have h2: "sched_core s w h2" "o_fresh ob (v_net (h_van h2))" "h_nodes h2 = h_nodes h" "v_add_node_record (h_van h2) = v_add_node_record (h_van h)"
    "v_ready (h_van h2) = v_ready (h_van h)" "v_my_node (h_van h2) = v_my_node (h_van h)"
    "um_size (v_connected_nodes (h_van h2)) = Suc (um_size (v_connected_nodes (h_van h)))"
    "um_keys (v_connected_nodes (h_van h2)) = insert (node_addr n) (um_keys (v_connected_nodes (h_van h)))"
    "o_conn ob (v_net (h_van h2)) = o_conn ob (v_net (h_van h)) \<union> {i}" "o_sent ob (v_net (h_van h2)) = o_sent ob (v_net (h_van h)) @ posts ob [m]"
    "v_num_servers (h_van h2) = a + (if n_role n = SERVER then 1 else 0)"
    "v_num_workers (h_van h2) = b + (if n_role n = WORKER then 1 else 0)"
    using Cons.prems(2,6,7) f new h1(3)
    by (simp_all add: h2_def count_node_def sched_core_def quiet_def UpdateHeartbeat_def GetNodeIDs_def um_size_set)
  have eq: "assign_nodes cx (n # ns) h = rbind (assign_nodes cx ns h2) (\<lambda>(ns', h3). Inr (n' # ns', h3))"
    using new n(1) h1(1) by (simp add: Let_def i_def[symmetric] n'_def[symmetric] h2_def)
  let ?a = "a + (if n_role n = SERVER then 1 else 0)" and ?b = "b + (if n_role n = WORKER then 1 else 0)"
  have as: "assigned a b (n # ns) = n' # assigned ?a ?b ns" using n(2) by (auto simp: n'_def i)
  have "\<exists>h'. assign_nodes cx ns h2 = Inr (assigned ?a ?b ns, h') \<and> assigns ob s w (assigned ?a ?b ns) h2 h'"
    by (rule Cons.IH) (use Cons.prems h2 in \<open>auto split: if_splits\<close>)
  then obtain h' ms where h': "assign_nodes cx ns h2 = Inr (assigned ?a ?b ns, h')" "assigns ob s w (assigned ?a ?b ns) h2 h'"
    "o_sent ob (v_net (h_van h')) = o_sent ob (v_net (h_van h2)) @ posts ob ms"
    "map (\<lambda>m. (ctl_cmd (m_control (msg_meta m)), m_recver (msg_meta m))) ms = map (\<lambda>n. (CONNECT, n_id n)) (assigned ?a ?b ns)"
    unfolding assigns_def by blast
  have "assigns ob s w (n' # assigned ?a ?b ns) h h'"
    unfolding assigns_def using h'(2) h2 h1(4,5) i'
    by (intro conjI exI[of _ "m # ms"]) (simp_all add: assigns_def h'(3,4) posts_Cons[of _ m ms])
  then show ?case unfolding eq as using h'(1) by simp
qed (auto simp: assigns_def)

lemma send_node_list_ok:
  assumes tr: "cx_tr cx = tr" and h: "sched_core s w h" "o_ok ob (v_net (h_van h))" and r: "next_recver h = Inr r" "r \<in> o_conn ob (v_net (h_van h))" "r \<noteq> kEmpty"
  shows "\<exists>h1 m. send_node_list cx rec h = Inr (if rec then upd_van (bump_record r) h1 else h1) \<and> sends ob h {} [m] h1
    \<and> m_recver (msg_meta m) = r \<and> m_control (msg_meta m) = m_control (h_nodes h)"
proof -
  let ?m = "\<lparr>msg_meta = (h_nodes h)\<lparr>m_recver := r\<rparr>, msg_data = []\<rparr>"
  obtain h1 ts where "send_stamped cx ?m h = Inr h1"
    "sends ob h {} [stamped (v_my_node (h_van h)) (?m\<lparr>msg_meta := (msg_meta ?m)\<lparr>m_timestamp := ts\<rparr>\<rparr>)] h1"
    using send_stamped_ok[OF tr, of h ?m] h r by (auto simp: sched_core_def)
  then show ?thesis using r(1) h
    by (intro exI[of _ h1] exI[of _ "stamped (v_my_node (h_van h)) (?m\<lparr>msg_meta := (msg_meta ?m)\<lparr>m_timestamp := ts\<rparr>\<rparr>)"])
       (simp add: send_node_list_def sched_core_def)
qed

lemma register_host:
  assumes h: "registering s w ns h" "int (length ns) < s + w" and n: "node_addr n \<noteq> node_addr (v_my_node (h_van h))"
    and m: "is_register n m"
  shows "\<exists>h1. ProcessAddNodeCommand cx m h =
      (if int (length ns) + 1 = s + w
       then rbind (assign_nodes cx (node_sort (ns @ [n])) h1) (\<lambda>(ns', h2).
             send_node_list cx True (h2\<lparr>h_nodes := (h_nodes h2)\<lparr>m_control :=
               (m_control (h_nodes h2))\<lparr>ctl_node := ns' @ [v_my_node (h_van h2)], ctl_cmd := ADD_NODE\<rparr>\<rparr>\<rparr>))
       else Inr h1)
    \<and> registering s w (ns @ [n]) h1 \<and> h_van h1 = h_van h"
proof -
  let ?h1 = "h\<lparr>h_nodes := set_nodes (ns @ [n]) (h_nodes h),
    h_recovery_nodes := (h_recovery_nodes h)\<lparr>m_control := (m_control (h_recovery_nodes h))\<lparr>ctl_cmd := ADD_NODE\<rparr>\<rparr>\<rparr>"
  have nodes: "meta_nodes (h_nodes ?h1) = ns @ [n]" by (simp add: set_nodes_def)
  have r: "registering s w (ns @ [n]) ?h1"
    using h(1) nodes by (simp add: registering_def sched_core_def quiet_def)
  have "UpdateLocalID [] m h = Inr (m\<lparr>msg_meta := set_nodes [n] (msg_meta m)\<rparr>, h\<lparr>h_nodes := set_nodes (ns @ [n]) (h_nodes h)\<rparr>)"
    using h n m
    by (simp add: UpdateLocalID_def register_node_def Let_def is_register_def registering_def sched_core_def
        num_nodes_def update_my_id_other)
  then have "ProcessAddNodeCommand cx m h =
      ProcessAddNodeCommandAtScheduler cx (m\<lparr>msg_meta := set_nodes [n] (msg_meta m)\<rparr>) (h\<lparr>h_nodes := set_nodes (ns @ [n]) (h_nodes h)\<rparr>)"
    using h m by (simp add: ProcessAddNodeCommand_def GetDeadNodes_def registering_def is_register_def sched_core_def)
  also have "\<dots> = (if int (length ns) + 1 = s + w
       then rbind (assign_nodes cx (node_sort (ns @ [n])) ?h1) (\<lambda>(ns', h2).
             send_node_list cx True (h2\<lparr>h_nodes := (h_nodes h2)\<lparr>m_control :=
               (m_control (h_nodes h2))\<lparr>ctl_node := ns' @ [v_my_node (h_van h2)], ctl_cmd := ADD_NODE\<rparr>\<rparr>\<rparr>))
       else Inr ?h1)"
    using r h nodes
    by (simp add: ProcessAddNodeCommandAtScheduler_def record_back_def Let_def registering_def sched_core_def num_nodes_def
        set_nodes_def)
  finally show ?thesis using r by (intro exI[of _ ?h1]) simp
qed

lemma register_all:
  assumes "registering s w ns h" and "list_all2 is_register ns' ms" and "int (length ns + length ns') < s + w"
    and "\<forall>n \<in> set ns'. node_addr n \<noteq> node_addr (v_my_node (h_van h))"
  shows "\<exists>h'. rfold (ProcessAddNodeCommand cx) ms h = Inr h' \<and> registering s w (ns @ ns') h' \<and> h_van h' = h_van h"
  using assms
proof (induction ns' arbitrary: ns h ms)
  case (Cons n ns')
  then obtain m ms' where ms: "ms = m # ms'" "is_register n m" "list_all2 is_register ns' ms'"
    by (auto simp: list_all2_Cons1)
  obtain h1 where h1: "ProcessAddNodeCommand cx m h = Inr h1" "registering s w (ns @ [n]) h1" "h_van h1 = h_van h"
    using register_host[OF Cons.prems(1) _ _ ms(2), of cx] Cons.prems(3,4) by fastforce
  then show ?case using Cons.IH[OF h1(2) ms(3)] Cons.prems(3,4) ms(1) by simp
qed auto

lemma next_recver_distributing:
  assumes "sched_core s w h" and "j < length (all_ids s w)" and "um_keys (v_add_node_record (h_van h)) = set (take j (all_ids s w))"
  shows "next_recver h = Inr (all_ids s w ! j)"
proof -
  have "find (\<lambda>r. um_find (v_add_node_record (h_van h)) r = None) (all_ids s w) = Some (all_ids s w ! j)"
    by (rule find_next) (use all_ids_facts(1) assms(2,3) um_find_None_iff in \<open>auto simp: map_of_eq_None_iff\<close>)
  then show ?thesis using assms(1) by (simp add: next_recver_def sched_core_def all_ids_def)
qed

text \<open>Once all nodes have registered: the scheduler assigns the ids, and the first node gets the list.\<close>

lemma assign_all:
  assumes tr: "cx_tr cx = tr" and h: "registering s w ns0 h" "o_fresh ob (v_net (h_van h))" and len: "int (length ns) = s + w" "s + w < 2 ^ 29"
    and ns: "\<forall>x \<in> set ns. fresh_node x" "distinct (map node_addr ns)" "count_role SERVER ns = s" "count_role WORKER ns = w"
  shows "\<exists>h' ms. assign_nodes cx (node_sort ns) h = Inr (assigned 0 0 (node_sort ns), h')
    \<and> assigns ob s w (assigned 0 0 (node_sort ns)) h h' \<and> set (all_ids s w) \<subseteq> o_conn ob (v_net (h_van h'))
    \<and> o_sent ob (v_net (h_van h')) = o_sent ob (v_net (h_van h)) @ posts ob ms \<and> map (\<lambda>m. ctl_cmd (m_control (msg_meta m))) ms = map (\<lambda>_. CONNECT) ns"
proof -
  let ?ns = "node_sort ns" and ?f = "\<lambda>m. (ctl_cmd (m_control (msg_meta m)), m_recver (msg_meta m))"
  have sorted: "\<forall>x \<in> set ?ns. fresh_node x" "distinct (map node_addr ?ns)" "\<forall>x \<in> set ?ns. n_role x \<in> {SERVER, WORKER}"
    using ns(1,2) mset_eq_imp_distinct_iff[of "map node_addr ?ns" "map node_addr ns"] by (auto simp: fresh_node_def)
  obtain h' where h': "assign_nodes cx ?ns h = Inr (assigned 0 0 ?ns, h')" "assigns ob s w (assigned 0 0 ?ns) h h'"
    using assign_nodes_ok[OF tr h(2) _ sorted(1,2), of s w 0 0] h(1) len by (auto simp: registering_def)
  have cnt: "count_role SERVER ?ns = s" "count_role WORKER ?ns = w" using count_role_mset[OF mset_node_sort, of _ ns] ns(3,4) by auto
  have "set (map n_id (assigned 0 0 ?ns)) = set (all_ids s w)"
    using assigned_ids(2)[OF sorted(3)] cnt by (simp add: all_ids_def)
  then have c: "set (all_ids s w) \<subseteq> o_conn ob (v_net (h_van h'))" using h'(2) by (auto simp: assigns_def)
  obtain ms where ms: "o_sent ob (v_net (h_van h')) = o_sent ob (v_net (h_van h)) @ posts ob ms" "map ?f ms = map (\<lambda>n. (CONNECT, n_id n)) (assigned 0 0 ?ns)"
    using h'(2) unfolding assigns_def by blast
  have "map fst (map ?f ms) = map fst (map (\<lambda>n. (CONNECT, n_id n)) (assigned 0 0 ?ns))" using ms(2) by (rule arg_cong)
  then have "map (\<lambda>m. ctl_cmd (m_control (msg_meta m))) ms = map (\<lambda>_. CONNECT) ns" by (simp add: comp_def map_replicate_const)
  then show ?thesis using h' c ms(1) by blast
qed

lemma first_list:
  assumes tr: "cx_tr cx = tr" and h: "registering s w ns0 h" and as: "assigns ob s w ns h h2" "int (length ns) = s + w" "0 < s + w"
    and sw: "0 \<le> s" "0 \<le> w" "s + w < 2 ^ 29" and c: "set (all_ids s w) \<subseteq> o_conn ob (v_net (h_van h2))"
    and h3: "h3 = h2\<lparr>h_nodes := (h_nodes h2)\<lparr>m_control := (m_control (h_nodes h2))\<lparr>ctl_node := ns @ [v_my_node (h_van h2)], ctl_cmd := ADD_NODE\<rparr>\<rparr>\<rparr>"
  shows "\<exists>h' lm. send_node_list cx True h3 = Inr h' \<and> distributing ob s w (ns @ [v_my_node (h_van h)]) 0 h'
    \<and> o_sent ob (v_net (h_van h')) = o_sent ob (v_net (h_van h2)) @ posts ob [lm] \<and> m_recver (msg_meta lm) = all_ids s w ! 0
    \<and> m_control (msg_meta lm) = m_control (h_nodes h')"
proof -
  have core2: "sched_core s w h2" using as(1) unfolding assigns_def by blast
  have core: "sched_core s w h3" using core2 by (simp add: h3 sched_core_def quiet_def)
  have ok: "o_ok ob (v_net (h_van h3))" using as(1) fresh_ok by (auto simp: h3 assigns_def)
  have fields: "v_add_node_record (h_van h2) = []" "\<not> v_ready (h_van h2)" "v_my_node (h_van h2) = v_my_node (h_van h)"
    "int (um_size (v_connected_nodes (h_van h2))) = s + w"
    using as(1,2) h unfolding assigns_def registering_def by auto
  have len: "0 < length (all_ids s w)" using all_ids_facts(2)[OF sw(1,2)] as(3) by linarith
  have r: "next_recver h3 = Inr (all_ids s w ! 0)" using next_recver_distributing[OF core len] fields(1) by (simp add: h3)
  have "all_ids s w ! 0 \<in> set (all_ids s w)" using len by simp
  then obtain h4 lm where h4: "send_node_list cx True h3 = Inr (upd_van (bump_record (all_ids s w ! 0)) h4)"
    "sends ob h3 {} [lm] h4" "m_recver (msg_meta lm) = all_ids s w ! 0" "m_control (msg_meta lm) = m_control (h_nodes h3)"
    using send_node_list_ok[OF tr core ok r, of True] c all_ids_facts(3)[of s w] sw by (fastforce simp: h3)
  note f = sends_fields[OF h4(2)]
  have "take (max 1 0) (all_ids s w) = [all_ids s w ! 0]" using len by (cases "all_ids s w") auto
  moreover have "sched_core s w h4" using core sched_core_sends[OF h4(2)] by blast
  then have "sched_core s w (upd_van (bump_record (all_ids s w ! 0)) h4)" by (simp add: sched_core_def quiet_def bump_record_def)
  ultimately have "distributing ob s w (ns @ [v_my_node (h_van h)]) 0 (upd_van (bump_record (all_ids s w ! 0)) h4)"
    using f fields c as(2) unfolding distributing_def by (simp add: h3 bump_record_def)
  then show ?thesis using h4 f
    by (intro exI[of _ "upd_van (bump_record (all_ids s w ! 0)) h4"] exI[of _ lm]) (simp add: bump_record_def h3)
qed

text \<open>A node that answers makes the scheduler send the list to the next one, or makes it ready.\<close>

lemma back_step:
  assumes tr: "cx_tr cx = tr" and h: "distributing ob s w ns k h" and k: "k < length (all_ids s w)"
    and sw: "0 \<le> s" "0 \<le> w" "s + w < 2 ^ 29" and m: "is_back (all_ids s w ! k) m"
  shows "\<exists>h'. ProcessAddNodeCommand cx m h = Inr h'
    \<and> (if Suc k = length (all_ids s w) then v_ready (h_van h') \<and> o_sent ob (v_net (h_van h')) = o_sent ob (v_net (h_van h))
       else distributing ob s w ns (Suc k) h' \<and> m_control (h_nodes h') = m_control (h_nodes h)
         \<and> (\<exists>lm. o_sent ob (v_net (h_van h')) = o_sent ob (v_net (h_van h)) @ posts ob [lm] \<and> m_recver (msg_meta lm) = all_ids s w ! Suc k
              \<and> m_control (msg_meta lm) = m_control (h_nodes h)))"
proof -
  define ids where "ids = all_ids s w"
  define h1 where "h1 = record_back m (h\<lparr>h_recovery_nodes := (h_recovery_nodes h)\<lparr>m_control :=
     (m_control (h_recovery_nodes h))\<lparr>ctl_cmd := ADD_NODE\<rparr>\<rparr>\<rparr>)"
  have core: "sched_core s w h" and len: "int (length ids) = s + w" "k < length ids" and dist: "distinct ids"
    using h k all_ids_facts(1,2)[of s w] sw by (auto simp: ids_def distributing_def)
  have keys: "insert (ids ! k) (set (take (max 1 k) ids)) = set (take (Suc k) ids)"
    using len(2) by (cases k; cases ids) (auto simp: take_Suc_conv_app_nth)
  define rec where "rec = v_add_node_record (bump_record (ids ! k) (h_van h))"
  have rec: "um_wf rec" "um_keys rec = set (take (Suc k) ids)"
    using h keys by (auto simp: rec_def bump_record_def distributing_def ids_def)
  then have size: "um_size rec = Suc k" using um_size_keys[OF rec(1)] distinct_card[OF distinct_take[OF dist]] len(2) by simp
  have h1: "v_add_node_record (h_van h1) = rec" "v_ready (h_van h1) = (Suc k = length ids)" "h_nodes h1 = h_nodes h"
    "v_net (h_van h1) = v_net (h_van h)" "v_connected_nodes (h_van h1) = v_connected_nodes (h_van h)" "sched_core s w h1"
    "num_nodes (h_office h1) = s + w"
    using h m core size len(1) unfolding h1_def record_back_def
    by (auto simp: Let_def is_back_def distributing_def rec_def[symmetric] ids_def[symmetric] num_nodes_def
        sched_core_def quiet_def bump_record_def rec_def)
  have eq: "ProcessAddNodeCommand cx m h = (if Suc k = length ids then Inr h1 else send_node_list cx False h1)"
    using h m core h1 size len
    by (auto simp: ProcessAddNodeCommand_def GetDeadNodes_def is_back_def distributing_def sched_core_def
        ProcessAddNodeCommandAtScheduler_def Let_def h1_def[symmetric])
  show ?thesis
  proof (cases "Suc k = length ids")
    case True
    then show ?thesis using eq h1 by (simp add: ids_def)
  next
    case False
    have r: "next_recver h1 = Inr (ids ! Suc k)"
      using next_recver_distributing[OF h1(6), of "Suc k"] rec(2) h1(1) len(2) False by (simp add: ids_def)
    have ok: "o_ok ob (v_net (h_van h1))" using h h1(4) by (simp add: distributing_def)
    have "ids ! Suc k \<in> set (all_ids s w)" using len(2) False by (simp add: ids_def)
    then obtain h' lm where h': "send_node_list cx False h1 = Inr h'" "sends ob h1 {} [lm] h'"
      "m_recver (msg_meta lm) = ids ! Suc k" "m_control (msg_meta lm) = m_control (h_nodes h1)"
      using send_node_list_ok[OF tr h1(6) ok r, of False] h h1(4) all_ids_facts(3)[of s w] sw by (fastforce simp: distributing_def)
    note f = sends_fields[OF h'(2)]
    have "distributing ob s w ns (Suc k) h'"
      using h f h1 rec False sched_core_sends[OF h'(2)] unfolding distributing_def by (simp add: ids_def)
    then show ?thesis using eq h' f h1 False by (auto simp: ids_def)
  qed
qed

lemma backs:
  assumes tr: "cx_tr cx = tr" and sw: "0 \<le> s" "0 \<le> w" "s + w < 2 ^ 29"
    and "distributing ob s w ns k h" and "k < length (all_ids s w)" and "list_all2 is_back (drop k (all_ids s w)) bs"
  shows "\<exists>h' lists. rfold (ProcessAddNodeCommand cx) bs h = Inr h' \<and> v_ready (h_van h')
    \<and> o_sent ob (v_net (h_van h')) = o_sent ob (v_net (h_van h)) @ posts ob lists
    \<and> map (\<lambda>m. m_recver (msg_meta m)) lists = drop (Suc k) (all_ids s w)
    \<and> (\<forall>m \<in> set lists. m_control (msg_meta m) = m_control (h_nodes h))"
  using assms(5-)
proof (induction bs arbitrary: k h)
  case (Cons b bs)
  then have b: "is_back (all_ids s w ! k) b" "list_all2 is_back (drop (Suc k) (all_ids s w)) bs"
    using Cons_nth_drop_Suc[OF Cons.prems(2)] by (metis list_all2_Cons)+
  note step = back_step[OF tr Cons.prems(1,2) sw b(1)]
  show ?case
  proof (cases "Suc k = length (all_ids s w)")
    case True
    then show ?thesis using step b(2) by (auto intro: exI[of _ "[]"])
  next
    case False
    then obtain h1 lm where h1: "ProcessAddNodeCommand cx b h = Inr h1" "distributing ob s w ns (Suc k) h1"
      "m_control (h_nodes h1) = m_control (h_nodes h)" "o_sent ob (v_net (h_van h1)) = o_sent ob (v_net (h_van h)) @ posts ob [lm]"
      "m_recver (msg_meta lm) = all_ids s w ! Suc k" "m_control (msg_meta lm) = m_control (h_nodes h)"
      using step by auto
    have k: "Suc k < length (all_ids s w)" using False Cons.prems(2) by simp
    obtain h' lists where "rfold (ProcessAddNodeCommand cx) bs h1 = Inr h'" "v_ready (h_van h')"
      "o_sent ob (v_net (h_van h')) = o_sent ob (v_net (h_van h1)) @ posts ob lists"
      "map (\<lambda>m. m_recver (msg_meta m)) lists = drop (Suc (Suc k)) (all_ids s w)"
      "\<forall>m \<in> set lists. m_control (msg_meta m) = m_control (h_nodes h1)"
      using Cons.IH[OF h1(2) k b(2)] by blast
    then show ?thesis using h1 Cons_nth_drop_Suc[OF k]
      by (intro exI[of _ h'] exI[of _ "lm # lists"]) (simp add: posts_Cons[of _ lm lists])
  qed
qed (use Cons_nth_drop_Suc in force)

end

section \<open>Start-up\<close>

text \<open>A scheduler whose van has just started, and the host \<^verbatim>\<open>Van::Start\<close> makes of a new one.\<close>

definition sched_fresh :: "'t Host \<Rightarrow> bool" where
  "sched_fresh h \<longleftrightarrow> v_is_scheduler (h_van h) \<and> quiet h \<and> n_role (v_my_node (h_van h)) = SCHEDULER
     \<and> v_shared_node_mapping (h_van h) = [] \<and> v_connected_nodes (h_van h) = [] \<and> v_add_node_record (h_van h) = []
     \<and> \<not> v_ready (h_van h) \<and> v_num_servers (h_van h) = 0 \<and> v_num_workers (h_van h) = 0
     \<and> meta_nodes (h_nodes h) = [] \<and> ctl_cmd (m_control (h_recovery_nodes h)) = ADD_NODE
     \<and> meta_nodes (h_recovery_nodes h) = []"

lemma Van_Start_connect_scheduler:
  assumes "Van_Start_connect cx customer_id (Host_init (Van_init sys env net) po) = Inr h"
    and "po_is_scheduler po" and "po_verbose po < 2"
  shows "sched_fresh h \<and> h_office h = po"
  using assms
  by (auto simp: Van_Start_connect_def Host_init_def Van_init_def my_node_info_def sched_fresh_def quiet_def Let_def
      Meta_init_def Control_init_def split: option.splits)

lemma Van_Start_connect_net:
  assumes "Van_Start_connect cx customer_id (Host_init (Van_init sys env net) po) = Inr h" and "po_is_scheduler po"
  shows "\<exists>n k port. tr_Bind (cx_tr cx) n k net = Inr (port, v_net (h_van h))"
  using assms by (auto simp: Van_Start_connect_def Host_init_def Van_init_def Let_def split: option.splits) blast+

lemma group_all_members:
  assumes "table_inv po" "0 < po_init_stage po" "0 < po_num_servers po + po_num_workers po"
    "0 \<le> po_num_servers po" "0 \<le> po_num_workers po"
  shows "GetNodeIDs po (kWorkerGroup + kServerGroup) = Inr (worker_ids (po_num_workers po) @ server_ids (po_num_servers po))"
proof -
  have "bit (6::int) 1" "bit (6::int) 2" "\<not> bit (6::int) 0" by (simp_all add: bit_iff_odd)
  moreover have "worker_ids (po_num_workers po) @ server_ids (po_num_servers po) \<noteq> []"
    using assms(3-5) by (auto simp: worker_ids_def server_ids_def)
  ultimately show ?thesis using assms(1,2)
    by (simp add: table_inv_def group_members_def kWorkerGroup_def kServerGroup_def)
qed

text \<open>Start-up completes.  \<open>s\<close> servers and \<open>w\<close> workers with addresses of their own register, in any
  order, and every node that gets the node list answers.  Then the scheduler connects to every
  node, gives out every id of the system exactly once, servers even and workers odd ids, sends the
  complete node list, itself included, to every node exactly once, and becomes ready, but not
  before the last answer.\<close>

lemma startup_completes:
  fixes h :: "'t Host"
  assumes tr: "van_transport tr ob" "cx_tr cx = tr" "o_fresh ob (v_net (h_van h))"
    and po: "po_reachable sys env (h_office h)" "0 < po_init_stage (h_office h)"
      "po_num_servers (h_office h) = s" "po_num_workers (h_office h) = w"
    and sw: "0 \<le> s" "0 \<le> w" "0 < s + w" "s + w < 2 ^ 29" and h: "sched_fresh h"
    and regs: "list_all2 is_register ns ms" "\<forall>n \<in> set ns. fresh_node n" "distinct (map node_addr (v_my_node (h_van h) # ns))"
      "count_role SERVER ns = s" "count_role WORKER ns = w"
    and answers: "list_all2 is_back (all_ids s w) bs"
  shows "\<exists>h1 h2 as conns lists. rfold (ProcessAddNodeCommand cx) ms h = Inr h1 \<and> \<not> v_ready (h_van h1)
    \<and> rfold (ProcessAddNodeCommand cx) bs h1 = Inr h2 \<and> v_ready (h_van h2)
    \<and> distinct (map n_id as) \<and> set (map n_id as) = set (all_ids s w)
    \<and> mset (map (\<lambda>n. n\<lparr>n_id := kEmpty\<rparr>) as) = mset ns \<and> (\<forall>n \<in> set as. n_role n = (if even (n_id n) then SERVER else WORKER))
    \<and> o_sent ob (v_net (h_van h2)) = o_sent ob (v_net (h_van h)) @ posts ob (conns @ lists)
    \<and> map (\<lambda>m. ctl_cmd (m_control (msg_meta m))) conns = map (\<lambda>_. CONNECT) ns
    \<and> map (\<lambda>m. m_recver (msg_meta m)) lists = all_ids s w
    \<and> (\<forall>m \<in> set lists. ctl_cmd (m_control (msg_meta m)) = ADD_NODE \<and> meta_nodes (msg_meta m) = as @ [v_my_node (h_van h)])"
proof -
  have core: "registering s w [] h"
    using h po group_all_members[OF reachable_table_inv[OF po(1)] po(2)] sw
    by (simp add: registering_def sched_fresh_def sched_core_def)
  define n where "n = last ns" define ns' where "ns' = butlast ns"
  define me where "me = v_my_node (h_van h)"
  have roles: "\<forall>x \<in> set ns. n_role x \<in> {SERVER, WORKER}" using regs(2) by (simp add: fresh_node_def)
  have len: "int (length ns) = s + w" using count_role_sum[OF roles] regs(4,5) by simp
  then have ns: "ns = ns' @ [n]" using sw(3) by (cases ns rule: rev_cases) (auto simp: n_def ns'_def)
  then obtain ms' m where ms: "ms = ms' @ [m]" "list_all2 is_register ns' ms'" "is_register n m"
    using regs(1) by (auto simp: list_all2_append1 list_all2_Cons1)
  have others: "\<forall>x \<in> set ns'. node_addr x \<noteq> node_addr (v_my_node (h_van h))" "node_addr n \<noteq> node_addr (v_my_node (h_van h))"
    and short: "int (length ns') + 1 = s + w"
    using regs(3) len by (auto simp: ns image_iff)
  obtain h0 where h0: "rfold (ProcessAddNodeCommand cx) ms' h = Inr h0" "registering s w ns' h0" "h_van h0 = h_van h"
    using van_transport.register_all[OF tr(1) core ms(2), of cx] short others(1) by auto
  obtain hr where hr: "ProcessAddNodeCommand cx m h0 = rbind (assign_nodes cx (node_sort ns) hr) (\<lambda>(ns', h2).
        send_node_list cx True (h2\<lparr>h_nodes := (h_nodes h2)\<lparr>m_control :=
          (m_control (h_nodes h2))\<lparr>ctl_node := ns' @ [v_my_node (h_van h2)], ctl_cmd := ADD_NODE\<rparr>\<rparr>\<rparr>))"
    "registering s w ns hr" "h_van hr = h_van h"
    using van_transport.register_host[OF tr(1) h0(2) _ _ ms(3), of cx] short others(2) h0(3) by (auto simp: ns)
  have dist: "distinct (map node_addr ns)" using regs(3) by simp
  let ?as = "assigned 0 0 (node_sort ns)"
  obtain ha conns where ha: "assign_nodes cx (node_sort ns) hr = Inr (?as, ha)" "assigns ob s w ?as hr ha"
    "set (all_ids s w) \<subseteq> o_conn ob (v_net (h_van ha))" "o_sent ob (v_net (h_van ha)) = o_sent ob (v_net (h_van h)) @ posts ob conns"
    "map (\<lambda>m. ctl_cmd (m_control (msg_meta m))) conns = map (\<lambda>_. CONNECT) ns"
    using van_transport.assign_all[OF tr(1,2) hr(2) _ len sw(4) regs(2) dist regs(4,5)] hr(3) tr(3) by auto
  obtain h1 lm where h1: "ProcessAddNodeCommand cx m h0 = Inr h1" "distributing ob s w (?as @ [me]) 0 h1"
    "o_sent ob (v_net (h_van h1)) = o_sent ob (v_net (h_van ha)) @ posts ob [lm]" "m_recver (msg_meta lm) = all_ids s w ! 0"
    "m_control (msg_meta lm) = m_control (h_nodes h1)"
    using van_transport.first_list[OF tr(1,2) hr(2) ha(2) _ sw(3,1,2,4) ha(3) refl] len hr(1,3) ha(1) by (auto simp: me_def)
  have k: "0 < length (all_ids s w)" using all_ids_facts(2)[OF sw(1,2)] sw(3) by linarith
  obtain h2 lists where h2: "rfold (ProcessAddNodeCommand cx) bs h1 = Inr h2" "v_ready (h_van h2)"
    "o_sent ob (v_net (h_van h2)) = o_sent ob (v_net (h_van h1)) @ posts ob lists" "map (\<lambda>m. m_recver (msg_meta m)) lists = drop (Suc 0) (all_ids s w)"
    "\<forall>m \<in> set lists. m_control (msg_meta m) = m_control (h_nodes h1)"
    using van_transport.backs[OF tr(1,2) sw(1,2,4) h1(2) k, of bs] answers by auto
  have ids: "distinct (map n_id ?as)" "set (map n_id ?as) = set (all_ids s w)"
    using assigned_ids[of "node_sort ns"] roles count_role_mset[OF mset_node_sort, of _ ns] regs(4,5) by (simp_all add: all_ids_def)
  have erased: "mset (map (\<lambda>n. n\<lparr>n_id := kEmpty\<rparr>) ?as) = mset ns"
    using assigned_erased[of "node_sort ns" 0 0] regs(2) by (simp add: fresh_node_def)
  have parity: "\<forall>n \<in> set ?as. n_role n = (if even (n_id n) then SERVER else WORKER)"
    using assigned_role[of "node_sort ns" _ 0 0] roles by simp
  have lists: "map (\<lambda>m. m_recver (msg_meta m)) (lm # lists) = all_ids s w" using h1(4) h2(4) Cons_nth_drop_Suc[OF k] by simp
  have run: "rfold (ProcessAddNodeCommand cx) ms h = Inr h1" using h0(1) h1(1) by (simp add: ms(1) rfold_append)
  have nr: "\<not> v_ready (h_van h1)" and ctl: "ctl_cmd (m_control (h_nodes h1)) = ADD_NODE" "meta_nodes (h_nodes h1) = ?as @ [me]"
    using h1(2) by (auto simp: distributing_def)
  show ?thesis
    by (intro exI[of _ h1] exI[of _ h2] exI[of _ ?as] exI[of _ conns] exI[of _ "lm # lists"] conjI)
       (use run nr h2 ids erased parity lists ha h1 ctl in \<open>simp_all add: me_def posts_Cons[of _ lm lists]\<close>)
qed

end
