(* ===== verification/Ps_QuicSession.thy ===== *)
theory Ps_QuicSession
  imports Ps_QuicVan Ps_VanStart
begin

text \<open>
  The QUIC van over a library that works.  \<open>picoquic_session\<close> is what \<^verbatim>\<open>quic_van.cc\<close> relies on in
  \<^verbatim>\<open>picoquic\<close>; the van then completes every send, and is a \<open>van_transport\<close>.
\<close>

section \<open>What the van relies on\<close>

text \<open>Observations of the library: the connections created and those established, the socket a
  connection uses, the callback context of a connection, the stream ids used on connections, the byte
  strings posted on connections, and \<open>s_flight q c d st n\<close>: the post \<open>d\<close> is under way on connection \<open>c\<close>,
  with its stream started if \<open>st\<close>, and \<open>n\<close> more steps (packets sent or received, the start of the stream)
  lead to the complete answer of the peer.\<close>

record 'q Session =
  s_ok :: "'q \<Rightarrow> bool"
  s_live :: "'q \<Rightarrow> nat set"
  s_ready :: "'q \<Rightarrow> nat set"
  s_sock :: "'q \<Rightarrow> nat \<Rightarrow> int option"
  s_callback :: "'q \<Rightarrow> nat \<Rightarrow> Post option"
  s_used :: "'q \<Rightarrow> (nat \<times> int) set"
  s_posted :: "'q \<Rightarrow> (nat \<times> byte list) list"
  s_flight :: "'q \<Rightarrow> nat \<Rightarrow> Post \<Rightarrow> bool \<Rightarrow> nat \<Rightarrow> bool"

definition cnx_name :: "'q Pico \<Rightarrow> 'q \<Rightarrow> nat \<Rightarrow> string" where
  "cnx_name pi q c = ByteArrayToString (pq_local_cnxid pi q c)"

text \<open>\<open>moved pi se c P U q q'\<close>: between \<open>q\<close> and \<open>q'\<close> only connection \<open>c\<close> was worked on, the byte strings \<open>P\<close> were
  posted and the stream ids \<open>U\<close> used.\<close>

definition moved :: "'q Pico \<Rightarrow> 'q Session \<Rightarrow> nat \<Rightarrow> (nat \<times> byte list) list \<Rightarrow> (nat \<times> int) set \<Rightarrow> 'q \<Rightarrow> 'q \<Rightarrow> bool" where
  "moved pi se c P U q q' \<longleftrightarrow> s_ok se q' \<and> s_live se q' = s_live se q \<and> (\<forall>d \<in> s_live se q. cnx_name pi q' d = cnx_name pi q d)
     \<and> (\<forall>d. d \<noteq> c \<longrightarrow> (d \<in> s_ready se q' \<longleftrightarrow> d \<in> s_ready se q) \<and> s_sock se q' d = s_sock se q d)
     \<and> (c \<in> s_ready se q \<longrightarrow> c \<in> s_ready se q') \<and> (s_sock se q c \<noteq> None \<longrightarrow> s_sock se q' c = s_sock se q c)
     \<and> s_posted se q' = s_posted se q @ P \<and> s_used se q' = s_used se q \<union> U"

definition still :: "'q Pico \<Rightarrow> 'q Session \<Rightarrow> 'q \<Rightarrow> 'q \<Rightarrow> bool" where
  "still pi se q q' \<longleftrightarrow> s_ok se q' \<and> s_live se q' = s_live se q \<and> (\<forall>d \<in> s_live se q. cnx_name pi q' d = cnx_name pi q d)
     \<and> s_ready se q' = s_ready se q \<and> s_sock se q' = s_sock se q \<and> s_posted se q' = s_posted se q \<and> s_used se q' = s_used se q"

lemma moved_trans: "moved pi se c P U q q' \<Longrightarrow> moved pi se c P' U' q' q'' \<Longrightarrow> moved pi se c (P @ P') (U \<union> U') q q''"
  unfolding moved_def by auto

lemma still_moved: "still pi se q q' \<Longrightarrow> moved pi se c [] {} q q'"
  unfolding moved_def still_def by auto

lemma still_trans: "still pi se q q' \<Longrightarrow> still pi se q' q'' \<Longrightarrow> still pi se q q''"
  unfolding still_def by auto

text \<open>The van's own tables agree with the library: every entry is an established connection with its socket
  under its name, and no stream id beyond the last one was used.\<close>

definition quic_ok :: "'q Pico \<Rightarrow> 'q Session \<Rightarrow> 'q Quic \<Rightarrow> bool" where
  "quic_ok pi se s \<longleftrightarrow> s_ok se (q_lib s)
     \<and> (\<forall>nm p. um_find (q_qsnd s) nm = Some p \<longrightarrow> (\<exists>c fd. p_cnx p = Some c \<and> p_qsocket p = Some fd \<and> c \<in> s_ready se (q_lib s)
          \<and> s_sock se (q_lib s) c = Some fd \<and> nm = cnx_name pi (q_lib s) c))
     \<and> (\<forall>i nm. um_find (q_snd_nid2cnx s) i = Some nm \<longrightarrow> um_find (q_qsnd s) nm \<noteq> None \<and> um_find (q_snd_cnx2nid s) nm = Some i)
     \<and> (\<forall>x \<in> s_used se (q_lib s). snd x \<le> q_cur_stream_id s)"

lemma quic_ok_entry:
  assumes "quic_ok pi se s" and "um_find (q_qsnd s) nm = Some p"
  obtains c fd where "p_cnx p = Some c" "p_qsocket p = Some fd" "c \<in> s_ready se (q_lib s)" "s_sock se (q_lib s) c = Some fd"
    "nm = cnx_name pi (q_lib s) c"
  using assms unfolding quic_ok_def by blast

lemma quic_ok_nid:
  assumes "quic_ok pi se s" and "um_find (q_snd_nid2cnx s) i = Some nm"
  obtains p where "um_find (q_qsnd s) nm = Some p" "um_find (q_snd_cnx2nid s) nm = Some i"
  using assms unfolding quic_ok_def by blast

definition quic_sent :: "'q Pico \<Rightarrow> 'q Session \<Rightarrow> 'q Quic \<Rightarrow> (int \<times> byte list) list" where
  "quic_sent pi se s = map (\<lambda>(c, b). (um_get kEmpty (q_snd_cnx2nid s) (cnx_name pi (q_lib s) c), b)) (s_posted se (q_lib s))"

definition quic_obs :: "'q Pico \<Rightarrow> 'q Session \<Rightarrow> (PBMeta \<Rightarrow> byte list option) \<Rightarrow> 'q Quic Obs" where
  "quic_obs pi se ser = \<lparr>o_ok = quic_ok pi se,
     o_fresh = (\<lambda>s. quic_ok pi se s \<and> (\<forall>x \<in> s_used se (q_lib s). snd x = 0)),
     o_conn = (\<lambda>s. um_keys (q_snd_nid2cnx s)), o_sent = quic_sent pi se,
     o_wire = (\<lambda>m. the (ser (PackMeta_pb (msg_meta m))) # msg_data m)\<rparr>"

definition whole :: "Post \<Rightarrow> bool" where
  "whole d \<longleftrightarrow> d_size d = int (length (d_data d))"

locale picoquic_session =
  fixes pi :: "'q Pico" and se :: "'q Session"
  assumes ready_live: "s_ok se q \<Longrightarrow> s_ready se q \<subseteq> s_live se q"
    and used_live: "s_ok se q \<Longrightarrow> fst ` s_used se q \<subseteq> s_live se q"
    and posted_live: "s_ok se q \<Longrightarrow> fst ` set (s_posted se q) \<subseteq> s_live se q"
    and address: "s_ok se q \<Longrightarrow> host \<noteq> [] \<Longrightarrow> pq_get_server_address pi host port q = 0"
    and create: "s_ok se q \<Longrightarrow> \<exists>c q'. pq_create_cnx pi host port q = (Some c, q') \<and> c \<notin> s_live se q \<and> s_ok se q'
      \<and> s_live se q' = insert c (s_live se q) \<and> s_ready se q' = s_ready se q \<and> s_posted se q' = s_posted se q
      \<and> s_used se q' = s_used se q \<and> s_sock se q' c = None
      \<and> (\<forall>d \<in> s_live se q. cnx_name pi q' d = cnx_name pi q d \<and> s_sock se q' d = s_sock se q d \<and> cnx_name pi q' c \<noteq> cnx_name pi q d)"
    and new_socket: "s_ok se q \<Longrightarrow> still pi se q (snd (pq_socket pi q))"
    and socket_option: "s_ok se q \<Longrightarrow> still pi se q (snd (pq_setsockopt pi fd q))"
    and bound: "s_ok se q \<Longrightarrow> still pi se q (snd (pq_bind pi fd port q))"
    and random: "s_ok se q \<Longrightarrow> still pi se q (snd (pq_rand pi q))"
    and scenario: "s_ok se q \<Longrightarrow> fst (pq_parse_scenario pi q) = 0 \<and> still pi se q (snd (pq_parse_scenario pi q))"
    and new_cell: "s_ok se q \<Longrightarrow> \<exists>a q'. pq_new_cell pi q = (a, q') \<and> pq_cell pi q' a = 0 \<and> still pi se q q'"
    and initialize: "s_ok se q \<Longrightarrow> \<exists>q'. pq_initialize_context pi post q = (0, q') \<and> still pi se q q' \<and> pq_cell pi q' = pq_cell pi q"
    and callback: "s_ok se q \<Longrightarrow> c \<in> s_live se q \<Longrightarrow> still pi se q (pq_set_callback pi c post q)
      \<and> pq_cell pi (pq_set_callback pi c post q) = pq_cell pi q \<and> s_callback se (pq_set_callback pi c post q) c = post"
    and alpn: "s_ok se q \<Longrightarrow> still pi se q (pq_set_alpn pi c q) \<and> pq_cell pi (pq_set_alpn pi c q) = pq_cell pi q
      \<and> s_callback se (pq_set_alpn pi c q) = s_callback se q"
    and minrtt: "s_ok se q \<Longrightarrow> still pi se q (pq_reset_minrtt pi c q)"
    and no_ticket: "s_ok se q \<Longrightarrow> \<not> pq_is_0rtt_available pi q c"
    and start_client: "s_ok se q \<Longrightarrow> c \<in> s_live se q \<Longrightarrow> c \<notin> s_ready se q \<Longrightarrow> s_sock se q c = None \<Longrightarrow>
      s_callback se q c = Some d \<Longrightarrow> pq_cell pi q (d_sent d) = 0 \<Longrightarrow> whole d \<Longrightarrow> (c, d_stream d) \<notin> s_used se q \<Longrightarrow>
      \<exists>q' n. pq_start_client_cnx pi c q = (0, q') \<and> moved pi se c [] {} q q' \<and> s_sock se q' c = None \<and> s_flight se q' c d False n"
    and start_stream: "s_flight se q c d False n \<Longrightarrow> pq_get_cnx_state pi q c = CnxClientReady \<Longrightarrow>
      \<exists>q' n'. pq_start_streams pi c (d_previous d) q = (0, q') \<and> n' < n \<and> s_flight se q' c d True n'
        \<and> moved pi se c [(c, d_data d)] {(c, d_stream d)} q q'"
    and restart: "s_ok se q \<Longrightarrow> c \<in> s_ready se q \<Longrightarrow> s_callback se q c = Some d \<Longrightarrow> pq_cell pi q (d_sent d) = 0 \<Longrightarrow> whole d \<Longrightarrow>
      (c, d_stream d) \<notin> s_used se q \<Longrightarrow>
      \<exists>q' n. pq_start_streams pi c (d_previous d) q = (0, q') \<and> s_flight se q' c d True n
        \<and> moved pi se c [(c, d_data d)] {(c, d_stream d)} q q'"
    and flight: "s_flight se q c d st n \<Longrightarrow> s_ok se q \<and> c \<in> s_live se q \<and> pq_get_cnx_state pi q c \<noteq> CnxDisconnected
      \<and> pq_cell pi q (d_sent d) \<le> d_size d \<and> (st \<longrightarrow> c \<in> s_ready se q) \<and> (\<not> st \<longrightarrow> 0 < n \<and> \<not> pq_fin_received pi q c (d_stream d))
      \<and> (st \<and> n = 0 \<longrightarrow> d_size d \<le> pq_cell pi q (d_sent d) \<and> pq_fin_received pi q c (d_stream d))"
    and wake: "s_flight se q c d st n \<Longrightarrow> pq_earliest_to_wake pi q (Some c) \<in> {None, Some c}"
    and prepare: "s_flight se q c d st n \<Longrightarrow> s_sock se q c \<in> {None, Some fd} \<Longrightarrow> \<exists>len q'. pq_prepare_packet pi c q = ((0, len), q')
      \<and> (s_sock se q c = None \<longrightarrow> 0 < len) \<and> (len = 0 \<longrightarrow> s_flight se q' c d st n \<and> moved pi se c [] {} q q')
      \<and> (0 < len \<longrightarrow> (\<exists>n' < n. s_flight se (pq_send pi fd c q') c d st n') \<and> moved pi se c [] {} q (pq_send pi fd c q')
          \<and> s_sock se (pq_send pi fd c q') c = Some fd)"
    and select: "s_flight se q c d st n \<Longrightarrow> s_sock se q c = Some fd \<Longrightarrow> \<exists>b q1. pq_select pi fd q = (b, q1) \<and> 0 \<le> b
      \<and> (if 0 < b then \<exists>n' \<le> n - 1. s_flight se (snd (pq_incoming_packet pi q1)) c d st n'
             \<and> moved pi se c [] {} q (snd (pq_incoming_packet pi q1))
         else s_flight se q1 c d st n \<and> moved pi se c [] {} q q1
           \<and> (0 < n \<longrightarrow> pq_earliest_to_wake pi q1 (Some c) = Some c \<and> \<not> pq_fin_sent pi q1 c (d_stream d)
               \<and> (st \<or> pq_get_cnx_state pi q1 c \<noteq> CnxClientReady \<longrightarrow> 0 < snd (fst (pq_prepare_packet pi c q1)))))"
begin

definition reaches :: "nat \<Rightarrow> Post \<Rightarrow> bool \<Rightarrow> 'q \<Rightarrow> bool \<Rightarrow> 'q \<Rightarrow> bool" where
  "reaches c d st q st' q' \<longleftrightarrow> (st \<longrightarrow> st')
     \<and> moved pi se c (if st = st' then [] else [(c, d_data d)]) (if st = st' then {} else {(c, d_stream d)}) q q'"

definition on_cnx :: "bool \<Rightarrow> Post \<Rightarrow> QUICCnxParameter \<Rightarrow> nat \<Rightarrow> int \<Rightarrow> bool \<Rightarrow> bool" where
  "on_cnx con d p c fd st \<longleftrightarrow> p_cnx p = Some c \<and> p_qsocket p = Some fd
     \<and> (if con then \<not> p_zero_rtt_avaliable p \<and> p_established p = st \<and> d_previous d = STREAM_ID_INITIAL else st)"

lemma reaches_refl: "s_ok se q \<Longrightarrow> reaches c d st q st q"
  by (simp add: reaches_def moved_def)

lemma reaches_trans: "reaches c d st q st' q' \<Longrightarrow> reaches c d st' q' st'' q'' \<Longrightarrow> reaches c d st q st'' q''"
  unfolding reaches_def by (cases st; cases st'; cases st'') (auto dest: moved_trans)

lemma reaches_sock: "reaches c d st q st' q' \<Longrightarrow> s_sock se q c = Some fd \<Longrightarrow> s_sock se q' c = Some fd"
  by (simp add: reaches_def moved_def)

lemma establish_ok:
  assumes "s_flight se q c d st n" and "on_cnx con d p c fd st"
  shows "\<exists>p' q' st' n'. (if con then establish pi c p q else (p, q)) = (p', q') \<and> s_flight se q' c d st' n' \<and> reaches c d st q st' q'
    \<and> on_cnx con d p' c fd st' \<and> n' \<le> n \<and> (if st \<or> pq_get_cnx_state pi q c \<noteq> CnxClientReady then q' = q else n' < n)"
proof (cases "con \<and> \<not> st \<and> pq_get_cnx_state pi q c = CnxClientReady")
  case True
  then show ?thesis using start_stream[of q c d n] assms
    by (auto simp: establish_def on_cnx_def reaches_def intro!: exI[of _ True])
next
  case False
  then have "(if con then establish pi c p q else (p, q)) = (p, q)" using assms(2) by (auto simp: establish_def on_cnx_def)
  moreover have "st \<or> pq_get_cnx_state pi q c \<noteq> CnxClientReady" using False assms(2) by (auto simp: on_cnx_def split: if_splits)
  ultimately show ?thesis using assms flight[OF assms(1)] reaches_refl[of q c d st]
    by (intro exI[of _ p] exI[of _ q] exI[of _ st] exI[of _ n]) simp
qed

lemma wake_loop_ok:
  assumes "s_flight se q c d st n" and "on_cnx con d p c fd st" and "s_sock se q c = Some fd"
  shows "\<exists>p' q' st' n'. wake_loop pi con d p q = Some (0, p', q') \<and> s_flight se q' c d st' n' \<and> reaches c d st q st' q'
    \<and> on_cnx con d p' c fd st' \<and> n' \<le> n
    \<and> (pq_earliest_to_wake pi q (Some c) = Some c \<and> \<not> pq_fin_sent pi q c (d_stream d)
        \<and> (st \<or> pq_get_cnx_state pi q c \<noteq> CnxClientReady \<longrightarrow> 0 < snd (fst (pq_prepare_packet pi c q))) \<longrightarrow> n' < n)"
  using assms
proof (induction n arbitrary: p q st rule: less_induct)
  case (less n)
  note fl = less.prems(1) and on = less.prems(2) and sock = less.prems(3)
  have cnx: "p_cnx p = Some c" "p_qsocket p = Some fd" and ok: "s_ok se q" using on flight[OF fl] by (auto simp: on_cnx_def)
  show ?case
  proof (cases "pq_earliest_to_wake pi q (Some c) = Some c \<and> \<not> pq_fin_sent pi q c (d_stream d)")
    case False
    then have "wake_loop pi con d p q = Some (0, p, q)" using wake[OF fl] cnx by (subst wake_loop.simps) auto
    then show ?thesis using False fl on reaches_refl[OF ok] by (intro exI[of _ p] exI[of _ q] exI[of _ st] exI[of _ n]) simp
  next
    case True
    obtain p1 q1 st1 n1 where e: "(if con then establish pi c p q else (p, q)) = (p1, q1)" "s_flight se q1 c d st1 n1"
      "reaches c d st q st1 q1" "on_cnx con d p1 c fd st1" "n1 \<le> n"
      "if st \<or> pq_get_cnx_state pi q c \<noteq> CnxClientReady then q1 = q else n1 < n"
      using establish_ok[OF fl on] by blast
    have sock1: "s_sock se q1 c = Some fd" by (rule reaches_sock[OF e(3) sock])
    obtain len q2 where pr: "pq_prepare_packet pi c q1 = ((0, len), q2)" "len = 0 \<longrightarrow> s_flight se q2 c d st1 n1 \<and> moved pi se c [] {} q1 q2"
      "0 < len \<longrightarrow> (\<exists>n' < n1. s_flight se (pq_send pi fd c q2) c d st1 n') \<and> moved pi se c [] {} q1 (pq_send pi fd c q2)
         \<and> s_sock se (pq_send pi fd c q2) c = Some fd"
      using prepare[OF e(2), of fd] sock1 by blast
    have fd1: "p_qsocket p1 = Some fd" using e(4) by (simp add: on_cnx_def)
    have step: "wake_loop pi con d p q = (if 0 < len then wake_loop pi con d p1 (pq_send pi fd c q2) else Some (0, p1, q2))"
      using True cnx e(1) pr(1) fd1
      by (subst wake_loop.simps) (simp add: PICOQUIC_ERROR_DISCONNECTED_def)
    show ?thesis
    proof (cases "0 < len")
      case pos: True
      let ?q = "pq_send pi fd c q2"
      obtain n2 where n2: "n2 < n1" "s_flight se ?q c d st1 n2" using pr(3) pos by blast
      have sock2: "s_sock se ?q c = Some fd" and mv: "reaches c d st1 q1 st1 ?q" using pr(3) pos by (auto simp: reaches_def)
      have lt: "n2 < n" using n2(1) e(5) by simp
      obtain p' q' st' n' where r: "wake_loop pi con d p1 ?q = Some (0, p', q')" "s_flight se q' c d st' n'" "reaches c d st1 ?q st' q'"
        "on_cnx con d p' c fd st'" "n' \<le> n2"
        using less.IH[OF lt n2(2) e(4) sock2] by blast
      have "reaches c d st q st' q'" using reaches_trans[OF reaches_trans[OF e(3) mv] r(3)] .
      then show ?thesis using step pos r lt by (intro exI[of _ p'] exI[of _ q'] exI[of _ st'] exI[of _ n']) simp
    next
      case zero: False
      then have mv: "reaches c d st1 q1 st1 q2" and fl2: "s_flight se q2 c d st1 n1" using pr(2) by (auto simp: reaches_def)
      have "(st \<or> pq_get_cnx_state pi q c \<noteq> CnxClientReady \<longrightarrow> 0 < snd (fst (pq_prepare_packet pi c q))) \<longrightarrow> n1 < n"
        using e(6) pr(1) zero by (auto split: if_splits)
      then show ?thesis using step zero fl2 e(4,5) reaches_trans[OF e(3) mv]
        by (intro exI[of _ p1] exI[of _ q2] exI[of _ st1] exI[of _ n1]) simp
    qed
  qed
qed

lemma send_round_ok:
  assumes "s_flight se q c d st n" and "on_cnx con d p c fd st" and "s_sock se q c = Some fd"
  shows "\<exists>fin p' q' st' n'. send_round pi con d p q = Some (Inr (fin, 0, p', q')) \<and> s_flight se q' c d st' n' \<and> reaches c d st q st' q'
    \<and> on_cnx con d p' c fd st' \<and> n' \<le> n - 1 \<and> (if fin = None then 0 < n' else fin = Some (d_size d) \<and> st')"
proof -
  obtain b q1 where b: "pq_select pi fd q = (b, q1)" "0 \<le> b"
    "if 0 < b then \<exists>n' \<le> n - 1. s_flight se (snd (pq_incoming_packet pi q1)) c d st n' \<and> moved pi se c [] {} q (snd (pq_incoming_packet pi q1))
     else s_flight se q1 c d st n \<and> moved pi se c [] {} q q1
       \<and> (0 < n \<longrightarrow> pq_earliest_to_wake pi q1 (Some c) = Some c \<and> \<not> pq_fin_sent pi q1 c (d_stream d)
           \<and> (st \<or> pq_get_cnx_state pi q1 c \<noteq> CnxClientReady \<longrightarrow> 0 < snd (fst (pq_prepare_packet pi c q1))))"
    using select[OF assms(1,3)] by blast
  have cnx: "p_cnx p = Some c" "p_qsocket p = Some fd" using assms(2) by (auto simp: on_cnx_def)
  have "\<exists>p2 q2. (if 0 < b then receive_answer pi p q1 else Inr (p, q1)) = Inr (p2, q2) \<and> on_cnx con d p2 c fd st \<and> reaches c d st q st q2
    \<and> (\<exists>m \<le> n. s_flight se q2 c d st m \<and> (0 < b \<longrightarrow> m \<le> n - 1)) \<and> (\<not> 0 < b \<longrightarrow> q2 = q1)"
  proof (cases "0 < b")
    case True
    define q2 where "q2 = snd (pq_incoming_packet pi q1)"
    define p2 where "p2 = (if pq_get_cnx_state pi q2 c = CnxClientAlmostReady then p\<lparr>p_notified_ready := True\<rparr> else p)"
    have "receive_answer pi p q1 = Inr (p2, q2)" using cnx by (simp add: receive_answer_def Let_def p2_def q2_def)
    moreover have "on_cnx con d p2 c fd st" using assms(2) by (simp add: p2_def on_cnx_def)
    moreover obtain m where "m \<le> n - 1" "s_flight se q2 c d st m" "reaches c d st q st q2" using b(3) True by (auto simp: q2_def reaches_def)
    ultimately show ?thesis using True by (intro exI[of _ p2] exI[of _ q2] conjI exI[of _ m]) simp_all
  qed (use b(3) assms(2) in \<open>auto simp: reaches_def\<close>)
  then obtain p2 q2 m where r: "(if 0 < b then receive_answer pi p q1 else Inr (p, q1)) = Inr (p2, q2)" "on_cnx con d p2 c fd st"
    "reaches c d st q st q2" "m \<le> n" "s_flight se q2 c d st m" "0 < b \<longrightarrow> m \<le> n - 1" "\<not> 0 < b \<longrightarrow> q2 = q1" by blast
  obtain p' q' st' n' where w: "wake_loop pi con d p2 q2 = Some (0, p', q')" "s_flight se q' c d st' n'" "reaches c d st q2 st' q'"
    "on_cnx con d p' c fd st'" "n' \<le> m"
    "pq_earliest_to_wake pi q2 (Some c) = Some c \<and> \<not> pq_fin_sent pi q2 c (d_stream d)
        \<and> (st \<or> pq_get_cnx_state pi q2 c \<noteq> CnxClientReady \<longrightarrow> 0 < snd (fst (pq_prepare_packet pi c q2))) \<longrightarrow> n' < m"
    using wake_loop_ok[OF r(5,2) reaches_sock[OF r(3) assms(3)]] by blast
  have less: "n' \<le> n - 1" using w(5,6) r(4,6,7) b(3) by (cases "0 < b"; cases "n = 0") auto
  have cnx': "p_cnx p' = Some c" using w(4) by (simp add: on_cnx_def)
  define fin where "fin = (if d_size d \<le> pq_cell pi q' (d_sent d) \<and> pq_fin_received pi q' c (d_stream d) then Some (d_size d) else None)"
  note fl = flight[OF w(2)]
  have "posted_all pi d p' q' = Inr fin" using cnx' fl by (auto simp: posted_all_def fin_def)
  then have eq: "send_round pi con d p q = Some (Inr (fin, 0, p', q'))"
    using b(1,2) r(1) w(1) cnx by (simp add: send_round_def)
  have "if fin = None then 0 < n' else fin = Some (d_size d) \<and> st'" using fl by (auto simp: fin_def)
  then show ?thesis using eq w(2,4) less reaches_trans[OF r(3) w(3)] by blast
qed

lemma msg_loop_ok:
  assumes "s_flight se q c d st n" and "on_cnx con d p c fd st" and "s_sock se q c = Some fd"
  shows "\<exists>p' q'. msg_loop pi con d 0 p q = Some (Inr (d_size d, p', q')) \<and> reaches c d st q True q' \<and> on_cnx con d p' c fd True
    \<and> c \<in> s_ready se q'"
  using assms
proof (induction n arbitrary: p q st rule: less_induct)
  case (less n)
  note fl = flight[OF less.prems(1)]
  obtain fin p1 q1 st1 n1 where r: "send_round pi con d p q = Some (Inr (fin, 0, p1, q1))" "s_flight se q1 c d st1 n1"
    "reaches c d st q st1 q1" "on_cnx con d p1 c fd st1" "n1 \<le> n - 1" "if fin = None then 0 < n1 else fin = Some (d_size d) \<and> st1"
    using send_round_ok[OF less.prems] by blast
  have cnx: "p_cnx p = Some c" using less.prems(2) by (simp add: on_cnx_def)
  show ?case
  proof (cases "fin = None")
    case True
    then have lt: "n1 < n" using r(5,6) by simp
    obtain p' q' where "msg_loop pi con d 0 p1 q1 = Some (Inr (d_size d, p', q'))" "reaches c d st1 q1 True q'"
      "on_cnx con d p' c fd True" "c \<in> s_ready se q'"
      using less.IH[OF lt r(2,4) reaches_sock[OF r(3) less.prems(3)]] by blast
    then show ?thesis using reaches_trans[OF r(3)] cnx r(1) True fl
      by (intro exI[of _ p'] exI[of _ q'], subst msg_loop.simps) auto
  next
    case False
    then show ?thesis using r cnx fl flight[OF r(2)]
      by (intro exI[of _ p1] exI[of _ q1], subst msg_loop.simps) auto
  qed
qed

text \<open>The steps before a stream is started.\<close>

definition post_of :: "byte list \<Rightarrow> nat \<Rightarrow> int \<Rightarrow> int \<Rightarrow> Post" where
  "post_of b a prev st = \<lparr>d_data = b, d_size = int (length b), d_sent = a, d_previous = prev, d_stream = st\<rparr>"

lemma setup_ok:
  assumes "s_ok se q"
  shows "\<exists>a q2 q3. fst (pq_parse_scenario pi q) = 0 \<and> pq_new_cell pi (snd (pq_parse_scenario pi q)) = (a, q2)
    \<and> pq_initialize_context pi (Some (post_of b a prev st)) q2 = (0, q3)
    \<and> still pi se q q3 \<and> (\<forall>c \<in> s_live se q. still pi se q (pq_set_alpn pi c (pq_set_callback pi c (Some (post_of b a prev st)) q3))
        \<and> pq_cell pi (pq_set_alpn pi c (pq_set_callback pi c (Some (post_of b a prev st)) q3)) a = 0
        \<and> s_callback se (pq_set_alpn pi c (pq_set_callback pi c (Some (post_of b a prev st)) q3)) c = Some (post_of b a prev st))"
proof -
  define q1 where "q1 = snd (pq_parse_scenario pi q)"
  have q1: "fst (pq_parse_scenario pi q) = 0" "still pi se q q1" using scenario[OF assms] by (auto simp: q1_def)
  then have "s_ok se q1" by (simp add: still_def)
  then obtain a q2 where q2: "pq_new_cell pi q1 = (a, q2)" "pq_cell pi q2 a = 0" "still pi se q1 q2" using new_cell by blast
  then have "s_ok se q2" by (simp add: still_def)
  then obtain q3 where q3: "pq_initialize_context pi (Some (post_of b a prev st)) q2 = (0, q3)" "still pi se q2 q3" "pq_cell pi q3 = pq_cell pi q2"
    using initialize by blast
  then have ok3: "s_ok se q3" by (simp add: still_def)
  have st3: "still pi se q q3" using still_trans[OF q1(2) still_trans[OF q2(3) q3(2)]] .
  have "still pi se q (pq_set_alpn pi c (pq_set_callback pi c (Some d) q3)) \<and> pq_cell pi (pq_set_alpn pi c (pq_set_callback pi c (Some d) q3)) a = 0
     \<and> s_callback se (pq_set_alpn pi c (pq_set_callback pi c (Some d) q3)) c = Some d" if "c \<in> s_live se q" for c d
  proof -
    have c: "c \<in> s_live se q3" using that st3 by (simp add: still_def)
    note cb = callback[OF ok3 c, of "Some d"]
    then have "s_ok se (pq_set_callback pi c (Some d) q3)" by (simp add: still_def)
    note al = alpn[OF this, of c]
    have "still pi se q (pq_set_alpn pi c (pq_set_callback pi c (Some d) q3))"
      using still_trans[OF still_trans[OF st3 conjunct1[OF cb]] conjunct1[OF al]] .
    then show ?thesis using cb al q3(3) q2(2) by simp
  qed
  then show ?thesis using q1(1) q2(1) q3(1) st3
    unfolding q1_def[symmetric] by (intro exI[of _ a] exI[of _ q2] exI[of _ q3] conjI ballI) simp_all
qed

lemma moved_entry:
  assumes "moved pi se c P U q q'" and "s_ok se q" and "x \<in> s_ready se q" and "s_sock se q x = Some fd"
  shows "x \<in> s_ready se q' \<and> s_sock se q' x = Some fd \<and> cnx_name pi q' x = cnx_name pi q x"
  using assms ready_live[OF assms(2)] by (cases "x = c") (auto simp: moved_def)

lemma sent_posted:
  assumes "s_ok se q" and "\<And>x. x \<in> s_live se q \<Longrightarrow> cnx_name pi q' x = cnx_name pi q x \<and> um_find m' (cnx_name pi q x) = um_find m (cnx_name pi q x)"
    and "s_posted se q' = s_posted se q @ [(c, b)]" and "um_find m' (cnx_name pi q' c) = Some r"
  shows "map (\<lambda>(c, b). (um_get kEmpty m' (cnx_name pi q' c), b)) (s_posted se q') =
    map (\<lambda>(c, b). (um_get kEmpty m (cnx_name pi q c), b)) (s_posted se q) @ [(r, b)]"
proof -
  have "(case x of (c, b) \<Rightarrow> (um_get kEmpty m' (cnx_name pi q' c), b)) = (case x of (c, b) \<Rightarrow> (um_get kEmpty m (cnx_name pi q c), b))"
    if "x \<in> set (s_posted se q)" for x
  proof -
    have "fst x \<in> s_live se q" using that posted_live[OF assms(1)] by blast
    then show ?thesis using assms(2)[of "fst x"] by (simp add: um_get_def case_prod_unfold)
  qed
  then show ?thesis using assms(3,4) by (simp add: um_get_def)
qed

lemma QUICMsgSend_ok:
  assumes "quic_ok pi se s" and "um_find (q_snd_nid2cnx s) r = Some nm"
  shows "\<exists>s'. QUICMsgSend pi b nm s = Some (Inr (int (length b), s')) \<and> quic_ok pi se s' \<and> q_snd_nid2cnx s' = q_snd_nid2cnx s
    \<and> quic_sent pi se s' = quic_sent pi se s @ [(r, b)]"
proof -
  define q where "q = q_lib s"
  have ok: "s_ok se q" and used: "\<forall>x \<in> s_used se q. snd x \<le> q_cur_stream_id s" using assms(1) by (auto simp: quic_ok_def q_def)
  obtain p c fd where p: "um_find (q_qsnd s) nm = Some p" "p_cnx p = Some c" "p_qsocket p = Some fd" "c \<in> s_ready se q"
    "s_sock se q c = Some fd" "nm = cnx_name pi q c" "um_find (q_snd_cnx2nid s) nm = Some r"
    using assms unfolding quic_ok_def q_def by blast
  have live: "c \<in> s_live se q" using ready_live[OF ok] p(4) by blast
  define cur where "cur = q_cur_stream_id s"
  obtain a q2 q3 where su: "fst (pq_parse_scenario pi q) = 0" "pq_new_cell pi (snd (pq_parse_scenario pi q)) = (a, q2)"
    "pq_initialize_context pi (Some (post_of b a cur (cur + 4))) q2 = (0, q3)"
    "\<forall>c \<in> s_live se q. still pi se q (pq_set_alpn pi c (pq_set_callback pi c (Some (post_of b a cur (cur + 4))) q3))
        \<and> pq_cell pi (pq_set_alpn pi c (pq_set_callback pi c (Some (post_of b a cur (cur + 4))) q3)) a = 0
        \<and> s_callback se (pq_set_alpn pi c (pq_set_callback pi c (Some (post_of b a cur (cur + 4))) q3)) c = Some (post_of b a cur (cur + 4))"
    using setup_ok[OF ok] by blast
  define d where "d = post_of b a cur (cur + 4)"
  define q4 where "q4 = pq_set_alpn pi c (pq_set_callback pi c (Some d) q3)"
  have q4: "still pi se q q4" "pq_cell pi q4 a = 0" "s_callback se q4 c = Some d" using su(4) live by (auto simp: q4_def d_def)
  have f: "d_sent d = a" "d_stream d = cur + 4" "d_previous d = cur" "d_data d = b" "d_size d = int (length b)" "whole d"
    by (simp_all add: d_def post_of_def whole_def)
  have ok4: "s_ok se q4" "c \<in> s_ready se q4" "(c, d_stream d) \<notin> s_used se q4"
    using q4(1) p(4) used by (auto simp: still_def f(2) cur_def)
  obtain q6 n where q6: "pq_start_streams pi c cur q4 = (0, q6)" "s_flight se q6 c d True n" "moved pi se c [(c, b)] {(c, cur + 4)} q4 q6"
    using restart[OF ok4(1,2) q4(3) _ f(6) ok4(3)] q4(2) by (auto simp: f)
  have m6: "moved pi se c [(c, b)] {(c, cur + 4)} q q6" using moved_trans[OF still_moved[OF q4(1)] q6(3)] by simp
  then have sock: "s_sock se q6 c = Some fd" using p(5) by (simp add: moved_def)
  obtain p' q' where l: "msg_loop pi False d 0 p q6 = Some (Inr (d_size d, p', q'))" "reaches c d True q6 True q'" "on_cnx False d p' c fd True"
    "c \<in> s_ready se q'"
    using msg_loop_ok[OF q6(2) _ sock, of False p] p(2,3) by (auto simp: on_cnx_def)
  have m: "moved pi se c [(c, b)] {(c, cur + 4)} q q'" using moved_trans[OF m6, of "[]" "{}" q'] l(2) by (simp add: reaches_def)
  define s' where "s' = store nm p' q' (s\<lparr>q_previous_stream_id := cur, q_cur_stream_id := cur + 4\<rparr>)"
  have eq: "QUICMsgSend pi b nm s = Some (Inr (int (length b), s'))"
    using p(1,2) su(1-3) q6(1) l(1) no_ticket[OF ok4(1)] f
    unfolding QUICMsgSend_def q_def[symmetric] cur_def[symmetric] post_of_def[symmetric]
    by (simp add: Let_def case_prod_unfold zero_rtt_def q4_def d_def[symmetric] run_loop_def s'_def post_of_def[symmetric])
  have fields: "q_lib s' = q'" "q_qsnd s' = um_set nm p' (q_qsnd s)" "q_snd_nid2cnx s' = q_snd_nid2cnx s" "q_snd_cnx2nid s' = q_snd_cnx2nid s"
    "q_cur_stream_id s' = cur + 4" by (simp_all add: s'_def store_def)
  have names: "cnx_name pi q' x = cnx_name pi q x" if "x \<in> s_live se q" for x using m that by (simp add: moved_def)
  have "quic_ok pi se s'"
    unfolding quic_ok_def fields
  proof (intro conjI allI impI ballI)
    fix nm2 p2 assume "um_find (um_set nm p' (q_qsnd s)) nm2 = Some p2"
    then consider "nm2 = nm" "p2 = p'" | "nm2 \<noteq> nm" "um_find (q_qsnd s) nm2 = Some p2" by (auto split: if_splits)
    then show "\<exists>c fd. p_cnx p2 = Some c \<and> p_qsocket p2 = Some fd \<and> c \<in> s_ready se q' \<and> s_sock se q' c = Some fd \<and> nm2 = cnx_name pi q' c"
    proof cases
      case 1
      then show ?thesis using l(3,4) p(5,6) m names[OF live] by (auto simp: on_cnx_def moved_def)
    next
      case 2
      then obtain c2 fd2 where "p_cnx p2 = Some c2" "p_qsocket p2 = Some fd2" "c2 \<in> s_ready se q" "s_sock se q c2 = Some fd2" "nm2 = cnx_name pi q c2"
        using assms(1) unfolding quic_ok_def q_def by blast
      then show ?thesis using moved_entry[OF m ok, of c2 fd2] by auto
    qed
  next
    fix i nm2 assume "um_find (q_snd_nid2cnx s) i = Some nm2"
    then show "um_find (um_set nm p' (q_qsnd s)) nm2 \<noteq> None" "um_find (q_snd_cnx2nid s) nm2 = Some i"
      using assms(1) unfolding quic_ok_def by simp_all
  next
    fix x assume "x \<in> s_used se q'"
    then show "snd x \<le> cur + 4" using m used unfolding moved_def cur_def by fastforce
  next
    show "s_ok se q'" using m unfolding moved_def by blast
  qed
  moreover have look: "um_find (q_snd_cnx2nid s) (cnx_name pi q' c) = Some r" unfolding names[OF live] using p(6,7) by simp
  have "quic_sent pi se s' = quic_sent pi se s @ [(r, b)]"
    unfolding quic_sent_def fields q_def[symmetric]
    by (rule sent_posted[OF ok _ _ look]) (use m names in \<open>simp_all add: moved_def\<close>)
  ultimately show ?thesis using eq fields(3) by blast
qed

lemma send_parts_ok:
  assumes "quic_ok pi se s" and "um_find (q_snd_nid2cnx s) r = Some nm"
  shows "\<exists>s'. send_parts pi nm bs s = Some (Inr (int (length (concat bs)), s')) \<and> quic_ok pi se s' \<and> q_snd_nid2cnx s' = q_snd_nid2cnx s
    \<and> quic_sent pi se s' = quic_sent pi se s @ map (Pair r) bs"
  using assms
proof (induction bs arbitrary: s)
  case (Cons b bs)
  obtain s1 where s1: "QUICMsgSend pi b nm s = Some (Inr (int (length b), s1))" "quic_ok pi se s1" "q_snd_nid2cnx s1 = q_snd_nid2cnx s"
    "quic_sent pi se s1 = quic_sent pi se s @ [(r, b)]"
    using QUICMsgSend_ok[OF Cons.prems] by blast
  then show ?case using Cons.IH[OF s1(2)] Cons.prems(2) by auto
qed auto

lemma quic_still:
  assumes "quic_ok pi se s" and "still pi se (q_lib s) q'"
  shows "quic_ok pi se (s\<lparr>q_lib := q'\<rparr>)" and "quic_sent pi se (s\<lparr>q_lib := q'\<rparr>) = quic_sent pi se s"
proof -
  have ok: "s_ok se (q_lib s)" using assms(1) by (simp add: quic_ok_def)
  have names: "cnx_name pi q' x = cnx_name pi (q_lib s) x" if "x \<in> s_live se (q_lib s)" for x using assms(2) that by (simp add: still_def)
  have "fst x \<in> s_live se (q_lib s)" if "x \<in> set (s_posted se (q_lib s))" for x using posted_live[OF ok] that by blast
  then show "quic_sent pi se (s\<lparr>q_lib := q'\<rparr>) = quic_sent pi se s"
    using assms(2) names by (simp add: quic_sent_def still_def case_prod_unfold)
  have "c \<in> s_live se (q_lib s)" if "c \<in> s_ready se (q_lib s)" for c using ready_live[OF ok] that by blast
  then show "quic_ok pi se (s\<lparr>q_lib := q'\<rparr>)"
    using assms names unfolding quic_ok_def still_def by simp metis
qed

end

locale quic_session = picoquic_session pi se
  for pi :: "'q Pico" and se :: "'q Session" +
  fixes ser :: "PBMeta \<Rightarrow> byte list option"
  assumes serializes: "ser pb \<noteq> None"
begin

abbreviation ob :: "'q Quic Obs" where
  "ob \<equiv> quic_obs pi se ser"

lemma send_msg_ok:
  assumes "quic_ok pi se s" and "m_recver (msg_meta m) \<in> um_keys (q_snd_nid2cnx s)" and "m_recver (msg_meta m) \<noteq> kEmpty"
  shows "\<exists>s'. QUICVan_SendMsg pi ser me m None False s =
      Some (Inr (int (length (concat (o_wire ob (stamped me m)))), stamped me m, s')) \<and> quic_ok pi se s'
    \<and> q_snd_nid2cnx s' = q_snd_nid2cnx s \<and> quic_sent pi se s' = quic_sent pi se s @ posts ob [stamped me m]"
proof -
  let ?r = "m_recver (msg_meta m)" and ?m = "stamped me m"
  obtain nm where nm: "um_find (q_snd_nid2cnx s) ?r = Some nm" using assms(2) by (metis um_find_None_iff option.exhaust)
  obtain buf where buf: "ser (PackMeta_pb (msg_meta ?m)) = Some buf" using serializes by fastforce
  obtain s1 where s1: "send_parts pi nm (buf # msg_data m) s = Some (Inr (int (length (concat (buf # msg_data m))), s1))" "quic_ok pi se s1"
    "q_snd_nid2cnx s1 = q_snd_nid2cnx s" "quic_sent pi se s1 = quic_sent pi se s @ map (Pair ?r) (buf # msg_data m)"
    using send_parts_ok[OF assms(1) nm] by blast
  obtain p c where c: "um_find (q_qsnd s1) nm = Some p" "p_cnx p = Some c"
    using s1(2,3) nm unfolding quic_ok_def by (metis not_Some_eq)
  define s2 where "s2 = s1\<lparr>q_lib := pq_reset_minrtt pi c (q_lib s1)\<rparr>"
  have "s_ok se (q_lib s1)" using s1(2) by (simp add: quic_ok_def)
  note s2 = quic_still[OF s1(2) minrtt[OF this, of c], folded s2_def]
  have "QUICVan_SendMsg pi ser me m None False s = Some (Inr (int (length (concat (buf # msg_data m))), ?m, s2))"
    using nm buf s1(1) c assms(3) by (simp add: QUICVan_SendMsg_def send_msg_def PackMeta_def s2_def)
  moreover have "quic_sent pi se s2 = quic_sent pi se s @ posts ob [?m]"
    using s2(2) s1(4) buf by (simp add: posts_def quic_obs_def)
  moreover have "o_wire ob ?m = buf # msg_data m" using buf by (simp add: quic_obs_def)
  ultimately show ?thesis using s2(1) s1(3) by (intro exI[of _ s2]) (simp add: s2_def)
qed

text \<open>A new connection: its entry, its socket and its first packet.\<close>

lemma new_cnx_ok:
  assumes "quic_ok pi se s" and "connectable me n"
  shows "\<exists>c fd q0 q1. new_cnx pi me n s = Inr (Some (cnx_name pi q0 c, QUICCnxParameter_zero\<lparr>p_cnx := Some c, p_qsocket := Some fd\<rparr>,
      s\<lparr>q_snd_nid2cnx := um_set (n_id n) (cnx_name pi q0 c) (q_snd_nid2cnx s), q_snd_cnx2nid := um_set (cnx_name pi q0 c) (n_id n) (q_snd_cnx2nid s),
        q_qsnd := um_set (cnx_name pi q0 c) (QUICCnxParameter_zero\<lparr>p_cnx := Some c, p_qsocket := Some fd\<rparr>) (q_qsnd s), q_lib := q1\<rparr>))
    \<and> still pi se q0 q1 \<and> c \<notin> s_live se (q_lib s) \<and> s_live se q0 = insert c (s_live se (q_lib s)) \<and> s_ready se q0 = s_ready se (q_lib s)
    \<and> s_posted se q0 = s_posted se (q_lib s) \<and> s_used se q0 = s_used se (q_lib s) \<and> s_sock se q0 c = None
    \<and> (\<forall>d \<in> s_live se (q_lib s). cnx_name pi q0 d = cnx_name pi (q_lib s) d \<and> s_sock se q0 d = s_sock se (q_lib s) d
         \<and> cnx_name pi q0 c \<noteq> cnx_name pi (q_lib s) d)"
proof -
  define q where "q = q_lib s"
  have ok: "s_ok se q" using assms(1) by (simp add: quic_ok_def q_def)
  obtain c q0 where c: "pq_create_cnx pi (n_hostname n) (n_port n) q = (Some c, q0)" "c \<notin> s_live se q" "s_ok se q0"
    "s_live se q0 = insert c (s_live se q)" "s_ready se q0 = s_ready se q" "s_posted se q0 = s_posted se q" "s_used se q0 = s_used se q"
    "s_sock se q0 c = None" "\<forall>d \<in> s_live se q. cnx_name pi q0 d = cnx_name pi q d \<and> s_sock se q0 d = s_sock se q d \<and> cnx_name pi q0 c \<noteq> cnx_name pi q d"
    using create[OF ok, of "n_hostname n" "n_port n"] by blast
  let ?nm = "cnx_name pi q0 c"
  have "um_find (q_qsnd s) ?nm = None"
  proof (rule ccontr)
    assume "um_find (q_qsnd s) ?nm \<noteq> None"
    then obtain d where "d \<in> s_ready se q" "?nm = cnx_name pi q d" using assms(1) unfolding quic_ok_def q_def by blast
    then show False using c(9) ready_live[OF ok] by blast
  qed
  note none = this
  obtain fd q' where fd: "pq_socket pi q0 = (fd, q')" by fastforce
  define q1 where "q1 = snd (pq_setsockopt pi fd q')"
  have st: "still pi se q0 q'" using new_socket[OF c(3)] fd by simp
  then have "s_ok se q'" by (simp add: still_def)
  then have st1: "still pi se q0 q1" unfolding q1_def using still_trans[OF st] socket_option by blast
  obtain ret where sock: "CreateQUICSocket pi q0 = (fd, ret, q1)"
    using fd by (simp add: CreateQUICSocket_def case_prod_unfold q1_def Let_def)
  have n: "n_id n \<noteq> kEmpty" "n_port n \<noteq> kEmpty" "n_hostname n \<noteq> []" "\<not> (n_role n = n_role me \<and> n_id n \<noteq> n_id me)"
    using assms(2) by (auto simp: connectable_def)
  have "new_cnx pi me n s = Inr (Some (?nm, QUICCnxParameter_zero\<lparr>p_cnx := Some c, p_qsocket := Some fd\<rparr>,
      s\<lparr>q_snd_nid2cnx := um_set (n_id n) ?nm (q_snd_nid2cnx s), q_snd_cnx2nid := um_set ?nm (n_id n) (q_snd_cnx2nid s),
        q_qsnd := um_set ?nm (QUICCnxParameter_zero\<lparr>p_cnx := Some c, p_qsocket := Some fd\<rparr>) (q_qsnd s), q_lib := q1\<rparr>))"
    using n address[OF ok n(3), of "n_port n"] c(1) none sock
    unfolding new_cnx_def q_def[symmetric] cnx_name_def by (simp add: Let_def)
  then show ?thesis using st1 c(2,4-9) unfolding q_def by blast
qed

lemma first_packet_ok:
  assumes "s_ok se q" and "c \<in> s_live se q" "c \<notin> s_ready se q" "s_sock se q c = None" and d: "whole d" "(c, d_stream d) \<notin> s_used se q"
    and q2: "still pi se q (pq_set_alpn pi c (pq_set_callback pi c (Some d) q3))"
      "pq_cell pi (pq_set_alpn pi c (pq_set_callback pi c (Some d) q3)) (d_sent d) = 0"
      "s_callback se (pq_set_alpn pi c (pq_set_callback pi c (Some d) q3)) c = Some d" and p: "p_qsocket p = Some fd"
  shows "\<exists>q' n. first_packet pi (Some d) c p q3 = (0, p, q') \<and> s_flight se q' c d False n \<and> moved pi se c [] {} q q' \<and> s_sock se q' c = Some fd"
proof -
  let ?q = "pq_set_alpn pi c (pq_set_callback pi c (Some d) q3)"
  have ok: "s_ok se ?q" "c \<in> s_live se ?q" "c \<notin> s_ready se ?q" "s_sock se ?q c = None" "(c, d_stream d) \<notin> s_used se ?q"
    using q2(1) assms(2-4) d(2) by (simp_all add: still_def)
  obtain q4 n where q4: "pq_start_client_cnx pi c ?q = (0, q4)" "moved pi se c [] {} ?q q4" "s_sock se q4 c = None" "s_flight se q4 c d False n"
    using start_client[OF ok(1-4) q2(3,2) d(1) ok(5)] by blast
  obtain len q5 where q5: "pq_prepare_packet pi c q4 = ((0, len), q5)" "0 < len" "moved pi se c [] {} q4 (pq_send pi fd c q5)"
    "s_sock se (pq_send pi fd c q5) c = Some fd" "\<exists>n'. s_flight se (pq_send pi fd c q5) c d False n'"
    using prepare[OF q4(4), of fd] q4(3) by auto
  have "\<not> zero_rtt pi q4 c" using no_ticket flight[OF q4(4)] by (simp add: zero_rtt_def)
  then have "first_packet pi (Some d) c p q3 = (0, p, pq_send pi fd c q5)"
    using q4(1) q5(1,2) p by (simp add: first_packet_def)
  moreover have "moved pi se c [] {} q (pq_send pi fd c q5)"
    using moved_trans[OF moved_trans[OF still_moved[OF q2(1)] q4(2)] q5(3)] by simp
  ultimately show ?thesis using q5(4,5) by blast
qed

lemma quic_connected:
  assumes ok: "quic_ok pi se s" and used: "\<forall>x \<in> s_used se (q_lib s). snd x = 0"
    and c: "c \<notin> s_live se (q_lib s)" "s_live se q0 = insert c (s_live se (q_lib s))" "s_ready se q0 = s_ready se (q_lib s)"
      "s_posted se q0 = s_posted se (q_lib s)" "s_used se q0 = s_used se (q_lib s)"
      "\<forall>d \<in> s_live se (q_lib s). cnx_name pi q0 d = cnx_name pi (q_lib s) d \<and> s_sock se q0 d = s_sock se (q_lib s) d
         \<and> cnx_name pi q0 c \<noteq> cnx_name pi (q_lib s) d"
    and m: "moved pi se c [(c, buf)] {(c, 0)} q0 q'" "c \<in> s_ready se q'" "s_sock se q' c = Some fd" "p_cnx p = Some c" "p_qsocket p = Some fd"
    and s': "q_lib s' = q'" "q_qsnd s' = um_set (cnx_name pi q0 c) p (q_qsnd s)" "q_snd_nid2cnx s' = um_set i (cnx_name pi q0 c) (q_snd_nid2cnx s)"
      "q_snd_cnx2nid s' = um_set (cnx_name pi q0 c) i (q_snd_cnx2nid s)" "q_cur_stream_id s' = 0"
  shows "quic_ok pi se s'" and "\<forall>x \<in> s_used se (q_lib s'). snd x = 0" and "quic_sent pi se s' = quic_sent pi se s @ [(i, buf)]"
proof -
  let ?q = "q_lib s" and ?nm = "cnx_name pi q0 c"
  have okq: "s_ok se ?q" using ok by (simp add: quic_ok_def)
  have names: "cnx_name pi q' x = cnx_name pi ?q x" "cnx_name pi ?q x \<noteq> ?nm" if "x \<in> s_live se ?q" for x
    using m(1) c(2,6) that by (auto simp: moved_def)
  have namec: "cnx_name pi q' c = ?nm" using m(1) c(2) by (simp add: moved_def)
  have old: "x \<in> s_ready se q'" "s_sock se q' x = s_sock se ?q x" "x \<in> s_live se ?q" if "x \<in> s_ready se ?q" for x
  proof -
    show live: "x \<in> s_live se ?q" using that ready_live[OF okq] by blast
    then have "x \<noteq> c" using c(1) by blast
    then show "x \<in> s_ready se q'" "s_sock se q' x = s_sock se ?q x" using m(1) that live c(3,6) by (simp_all add: moved_def)
  qed
  show u: "\<forall>x \<in> s_used se (q_lib s'). snd x = 0" using m(1) used c(5) s'(1) by (auto simp: moved_def)
  have look: "um_find (um_set ?nm i (q_snd_cnx2nid s)) (cnx_name pi q' c) = Some i" unfolding namec by simp
  show "quic_sent pi se s' = quic_sent pi se s @ [(i, buf)]"
    unfolding quic_sent_def s' by (rule sent_posted[OF okq _ _ look]) (use names m(1) c(4) in \<open>simp_all add: moved_def\<close>)
  show "quic_ok pi se s'"
    unfolding quic_ok_def s'
  proof (intro conjI allI impI ballI)
    fix nm2 p2 assume a: "um_find (um_set ?nm p (q_qsnd s)) nm2 = Some p2"
    show "\<exists>c fd. p_cnx p2 = Some c \<and> p_qsocket p2 = Some fd \<and> c \<in> s_ready se q' \<and> s_sock se q' c = Some fd \<and> nm2 = cnx_name pi q' c"
    proof (cases "nm2 = ?nm")
      case True
      then show ?thesis using a m(2-5) namec by (intro exI[of _ c] exI[of _ fd]) simp
    next
      case False
      then have "um_find (q_qsnd s) nm2 = Some p2" using a by simp
      then obtain c2 fd2 where "p_cnx p2 = Some c2" "p_qsocket p2 = Some fd2" "c2 \<in> s_ready se ?q" "s_sock se ?q c2 = Some fd2" "nm2 = cnx_name pi ?q c2"
        using quic_ok_entry[OF ok] by blast
      then show ?thesis using old[of c2] names(1)[of c2] by (intro exI[of _ c2] exI[of _ fd2]) simp
    qed
  next
    fix j nm2 assume a: "um_find (um_set i ?nm (q_snd_nid2cnx s)) j = Some nm2"
    have "um_find (um_set ?nm p (q_qsnd s)) nm2 \<noteq> None \<and> um_find (um_set ?nm i (q_snd_cnx2nid s)) nm2 = Some j"
    proof (cases "j = i")
      case False
      then have "um_find (q_snd_nid2cnx s) j = Some nm2" using a by simp
      then obtain p2 where f: "um_find (q_qsnd s) nm2 = Some p2" "um_find (q_snd_cnx2nid s) nm2 = Some j" by (rule quic_ok_nid[OF ok])
      obtain c2 where "c2 \<in> s_ready se ?q" "nm2 = cnx_name pi ?q c2" by (rule quic_ok_entry[OF ok f(1)])
      then have "nm2 \<noteq> ?nm" using names(2)[of c2] old(3)[of c2] by simp
      then show ?thesis using f by simp
    next
      case True
      then have "nm2 = ?nm" using a by simp
      then show ?thesis using True by simp
    qed
    then show "um_find (um_set ?nm p (q_qsnd s)) nm2 \<noteq> None" "um_find (um_set ?nm i (q_snd_cnx2nid s)) nm2 = Some j"
      by (rule conjunct1, rule conjunct2)
  next
    fix x assume "x \<in> s_used se q'"
    then show "snd x \<le> 0" using u s'(1) by simp
  next
    show "s_ok se q'" using m(1) by (simp add: moved_def)
  qed
qed

lemma connect_msg_ok:
  assumes "quic_ok pi se s" and "\<forall>x \<in> s_used se (q_lib s). snd x = 0" and "connectable me n" and "m_recver (msg_meta m) = n_id n"
    and "msg_data m = []"
  shows "\<exists>b s'. QUICVan_SendMsg pi ser me m (Some n) True s = Some (Inr (b, stamped me m, s')) \<and> b \<noteq> -1 \<and> quic_ok pi se s'
    \<and> (\<forall>x \<in> s_used se (q_lib s'). snd x = 0) \<and> um_keys (q_snd_nid2cnx s') = um_keys (q_snd_nid2cnx s) \<union> {n_id n}
    \<and> quic_sent pi se s' = quic_sent pi se s @ posts ob [stamped me m]"
proof -
  obtain c fd q0 q1 where cn: "new_cnx pi me n s = Inr (Some (cnx_name pi q0 c, QUICCnxParameter_zero\<lparr>p_cnx := Some c, p_qsocket := Some fd\<rparr>,
      s\<lparr>q_snd_nid2cnx := um_set (n_id n) (cnx_name pi q0 c) (q_snd_nid2cnx s), q_snd_cnx2nid := um_set (cnx_name pi q0 c) (n_id n) (q_snd_cnx2nid s),
        q_qsnd := um_set (cnx_name pi q0 c) (QUICCnxParameter_zero\<lparr>p_cnx := Some c, p_qsocket := Some fd\<rparr>) (q_qsnd s), q_lib := q1\<rparr>))"
    and st: "still pi se q0 q1"
    and c: "c \<notin> s_live se (q_lib s)" "s_live se q0 = insert c (s_live se (q_lib s))" "s_ready se q0 = s_ready se (q_lib s)"
      "s_posted se q0 = s_posted se (q_lib s)" "s_used se q0 = s_used se (q_lib s)"
      "\<forall>d \<in> s_live se (q_lib s). cnx_name pi q0 d = cnx_name pi (q_lib s) d \<and> s_sock se q0 d = s_sock se (q_lib s) d
         \<and> cnx_name pi q0 c \<noteq> cnx_name pi (q_lib s) d" and sock0: "s_sock se q0 c = None"
    using new_cnx_ok[OF assms(1,3)] by blast
  let ?nm = "cnx_name pi q0 c" and ?p = "QUICCnxParameter_zero\<lparr>p_cnx := Some c, p_qsocket := Some fd\<rparr>"
  obtain buf where buf: "ser (PackMeta_pb (msg_meta (stamped me m))) = Some buf" using serializes by fastforce
  have okq: "s_ok se (q_lib s)" using assms(1) by (simp add: quic_ok_def)
  have ok1: "s_ok se q1" "c \<in> s_live se q1" "c \<notin> s_ready se q1" "s_sock se q1 c = None" "(c, 0) \<notin> s_used se q1"
    using st c sock0 ready_live[OF okq] used_live[OF okq] by (force simp: still_def)+
  obtain a q2 q3 where su: "fst (pq_parse_scenario pi q1) = 0" "pq_new_cell pi (snd (pq_parse_scenario pi q1)) = (a, q2)"
    "pq_initialize_context pi (Some (post_of buf a STREAM_ID_INITIAL 0)) q2 = (0, q3)"
    "still pi se q1 (pq_set_alpn pi c (pq_set_callback pi c (Some (post_of buf a STREAM_ID_INITIAL 0)) q3))"
    "pq_cell pi (pq_set_alpn pi c (pq_set_callback pi c (Some (post_of buf a STREAM_ID_INITIAL 0)) q3)) a = 0"
    "s_callback se (pq_set_alpn pi c (pq_set_callback pi c (Some (post_of buf a STREAM_ID_INITIAL 0)) q3)) c = Some (post_of buf a STREAM_ID_INITIAL 0)"
    using setup_ok[OF ok1(1), of buf STREAM_ID_INITIAL 0] ok1(2) by blast
  define d where "d = post_of buf a STREAM_ID_INITIAL 0"
  have f: "d_sent d = a" "d_stream d = 0" "d_previous d = STREAM_ID_INITIAL" "d_data d = buf" "d_size d = int (length buf)" "whole d"
    by (simp_all add: d_def post_of_def whole_def)
  have fp: "\<exists>q' k. first_packet pi (Some d) c ?p q3 = (0, ?p, q') \<and> s_flight se q' c d False k \<and> moved pi se c [] {} q1 q' \<and> s_sock se q' c = Some fd"
    by (rule first_packet_ok[OF ok1(1-4) f(6)]) (use ok1(5) su(4-6) f in \<open>simp_all add: d_def[symmetric]\<close>)
  then obtain q4 k where q4: "first_packet pi (Some d) c ?p q3 = (0, ?p, q4)" "s_flight se q4 c d False k" "moved pi se c [] {} q1 q4"
    "s_sock se q4 c = Some fd" by blast
  have "on_cnx True d ?p c fd False" by (simp add: on_cnx_def QUICCnxParameter_zero_def f)
  then obtain p' q' where l: "msg_loop pi True d 0 ?p q4 = Some (Inr (d_size d, p', q'))" "reaches c d False q4 True q'"
    "on_cnx True d p' c fd True" "c \<in> s_ready se q'"
    using msg_loop_ok[OF q4(2) _ q4(4)] by blast
  have mv: "moved pi se c [(c, buf)] {(c, 0)} q0 q'"
    using moved_trans[OF moved_trans[OF still_moved[OF st] q4(3)], of "[(c, buf)]" "{(c, 0)}" q'] l(2) by (simp add: reaches_def f)
  have sock': "s_sock se q' c = Some fd" by (rule reaches_sock[OF l(2) q4(4)])
  define s2 where "s2 = s\<lparr>q_snd_nid2cnx := um_set (n_id n) ?nm (q_snd_nid2cnx s), q_snd_cnx2nid := um_set ?nm (n_id n) (q_snd_cnx2nid s),
      q_qsnd := um_set ?nm ?p (q_qsnd s), q_lib := q1, q_previous_stream_id := STREAM_ID_INITIAL, q_cur_stream_id := 0\<rparr>"
  define s' where "s' = store ?nm p' q' s2"
  have eq: "QUICVan_SendMsg pi ser me m (Some n) True s = Some (Inr (int (length buf), stamped me m, s'))"
    using cn buf su(1-3) q4(1) l(1) f unfolding QUICVan_SendMsg_def connect_msg_def post_of_def[symmetric]
    by (simp add: PackMeta_def Let_def case_prod_unfold d_def[symmetric] run_loop_def s'_def s2_def QUICCnxParameter_zero_def post_of_def[symmetric])
  have s': "q_lib s' = q'" "q_qsnd s' = um_set ?nm p' (q_qsnd s)" "q_snd_nid2cnx s' = um_set (n_id n) ?nm (q_snd_nid2cnx s)"
    "q_snd_cnx2nid s' = um_set ?nm (n_id n) (q_snd_cnx2nid s)" "q_cur_stream_id s' = 0"
    by (simp_all add: s'_def store_def s2_def)
  have p': "p_cnx p' = Some c" "p_qsocket p' = Some fd" using l(3) by (auto simp: on_cnx_def)
  note res = quic_connected[OF assms(1,2) c mv l(4) sock' p' s']
  have "posts ob [stamped me m] = [(n_id n, buf)]" using buf assms(4,5) by (simp add: posts_def quic_obs_def)
  then show ?thesis using eq res s'(3) by (intro exI[of _ "int (length buf)"] exI[of _ s']) auto
qed

lemma still_refl: "s_ok se q \<Longrightarrow> still pi se q q"
  by (simp add: still_def)

lemma bind_loop_still: "s_ok se q \<Longrightarrow> still pi se q (snd (bind_loop pi fd addr k port q))"
proof (induction k arbitrary: port q)
  case 0
  then show ?case using bound[OF 0] by (simp add: case_prod_unfold Let_def)
next
  case (Suc k)
  let ?q1 = "snd (pq_bind pi fd addr q)"
  have 1: "still pi se q ?q1" by (rule bound[OF Suc.prems])
  have 2: "still pi se q (snd (pq_rand pi ?q1))" using still_trans[OF 1 random] 1 by (simp add: still_def)
  then have "still pi se q (snd (bind_loop pi fd addr k p (snd (pq_rand pi ?q1))))" for p
    using still_trans[OF 2 Suc.IH] by (simp add: still_def)
  then show ?case using 1 by (simp add: case_prod_unfold Let_def)
qed

lemma Bind_fresh:
  assumes "o_fresh ob s" and "QUICVan_Bind pi n k s = Inr (port, s')"
  shows "o_fresh ob s' \<and> quic_sent pi se s' = quic_sent pi se s"
proof -
  have ok: "quic_ok pi se s" "s_ok se (q_lib s)" "\<forall>x \<in> s_used se (q_lib s). snd x = 0"
    using assms(1) by (auto simp: quic_obs_def quic_ok_def)
  let ?q1 = "snd (pq_socket pi (q_lib s))" and ?fd = "fst (pq_socket pi (q_lib s))"
  let ?q2 = "snd (pq_setsockopt pi ?fd ?q1)"
  have 1: "still pi se (q_lib s) ?q1" by (rule new_socket[OF ok(2)])
  have 2: "still pi se (q_lib s) ?q2" using still_trans[OF 1 socket_option] 1 by (simp add: still_def)
  have 3: "still pi se (q_lib s) (snd (bind_loop pi ?fd (n_port n mod 2 ^ 16) k (n_port n) ?q2))"
    using still_trans[OF 2 bind_loop_still] 2 by (simp add: still_def)
  have s': "\<exists>q'. s' = s\<lparr>q_receiver := Some ?fd, q_lib := q'\<rparr> \<and> still pi se (q_lib s) q'"
    using assms(2) 2 3 by (auto simp: QUICVan_Bind_def CreateQUICSocket_def case_prod_unfold Let_def split: if_splits)
  then obtain q' where q': "s' = s\<lparr>q_receiver := Some ?fd, q_lib := q'\<rparr>" "still pi se (q_lib s) q'" by blast
  have "quic_ok pi se s' = quic_ok pi se (s\<lparr>q_lib := q'\<rparr>)" "quic_sent pi se s' = quic_sent pi se (s\<lparr>q_lib := q'\<rparr>)"
    by (simp_all add: q'(1) quic_ok_def quic_sent_def)
  then show ?thesis using quic_still[OF ok(1) q'(2)] ok(3) q' by (simp add: quic_obs_def still_def)
qed

lemma init_fresh: "s_ok se lib \<Longrightarrow> s_used se lib = {} \<Longrightarrow> o_fresh ob (QUICVan_init lib prev cur)"
  by (simp add: quic_obs_def quic_ok_def QUICVan_init_def)

lemma quic_transport: "van_transport (QUICVan pi ser) ob"
proof (unfold_locales, goal_cases)
  case (2 s me n m)
  then show ?case using connect_msg_ok[of s me n m] by (auto simp: quic_obs_def QUICVan_def returned_def)
next
  case (3 s m me)
  then show ?case using send_msg_ok[of s m me] by (auto simp: quic_obs_def QUICVan_def returned_def)
qed (simp add: quic_obs_def)

end

sublocale quic_session \<subseteq> van: van_transport "QUICVan pi ser" "quic_obs pi se ser"
  by (rule quic_transport)

end
