(* ===== verification/Ps_QuicIdeal.thy ===== *)
theory Ps_QuicIdeal
  imports Ps_QuicSession
begin

text \<open>
  A library and network that meet \<open>picoquic_session\<close>: no packet is lost, a handshake is one packet each
  way, a stream is one packet and its answer.  The theorems about the QUIC van apply to it.
\<close>

text \<open>\<open>i_act\<close> is the post under way: connection, post, whether its stream is started, and how far it is.
  Before the start: 5 nothing sent, 4 waiting for the answer, 3 handshake done.  After it: 2 nothing
  sent, 1 waiting for the answer, 0 complete.\<close>

record Ideal =
  i_cells :: nat
  i_sent :: "nat \<Rightarrow> int"
  i_cnxs :: nat
  i_ready :: "nat set"
  i_sock :: "nat \<Rightarrow> int option"
  i_callback :: "nat \<Rightarrow> Post option"
  i_used :: "(nat \<times> int) set"
  i_posted :: "(nat \<times> byte list) list"
  i_act :: "(nat \<times> Post \<times> bool \<times> nat) option"

definition ideal_init :: Ideal where
  "ideal_init = \<lparr>i_cells = 0, i_sent = (\<lambda>_. 0), i_cnxs = 0, i_ready = {}, i_sock = (\<lambda>_. None), i_callback = (\<lambda>_. None),
     i_used = {}, i_posted = [], i_act = None\<rparr>"

definition ideal_start :: "nat \<Rightarrow> int \<Rightarrow> Ideal \<Rightarrow> int \<times> Ideal" where
  "ideal_start c prev q = (case i_callback q c of
      None \<Rightarrow> (0, q)
    | Some d \<Rightarrow> (0, q\<lparr>i_act := Some (c, d, True, 2), i_ready := insert c (i_ready q), i_used := insert (c, d_stream d) (i_used q),
        i_posted := i_posted q @ [(c, d_data d)]\<rparr>))"

definition ideal_send :: "int \<Rightarrow> nat \<Rightarrow> Ideal \<Rightarrow> Ideal" where
  "ideal_send fd c q = (case i_act q of
      Some (e, d, st, n) \<Rightarrow>
        if e = c \<and> n \<in> {5, 2}
        then q\<lparr>i_act := Some (c, d, st, n - 1), i_sock := (i_sock q)(c := Some fd),
               i_sent := (if st then (i_sent q)(d_sent d := d_size d) else i_sent q)\<rparr>
        else q
    | None \<Rightarrow> q)"

definition ideal_receive :: "Ideal \<Rightarrow> Ideal" where
  "ideal_receive q = (case i_act q of
      Some (c, d, st, n) \<Rightarrow> if n \<in> {4, 1} then q\<lparr>i_act := Some (c, d, st, n - 1)\<rparr> else q
    | None \<Rightarrow> q)"

definition ideal_at :: "nat set \<Rightarrow> Ideal \<Rightarrow> nat \<Rightarrow> bool" where
  "ideal_at N q c = (case i_act q of Some (e, d, st, n) \<Rightarrow> e = c \<and> n \<in> N | None \<Rightarrow> False)"

definition ideal_stream_at :: "nat set \<Rightarrow> Ideal \<Rightarrow> nat \<Rightarrow> int \<Rightarrow> bool" where
  "ideal_stream_at N q c i = (case i_act q of Some (e, d, st, n) \<Rightarrow> e = c \<and> st \<and> d_stream d = i \<and> n \<in> N | None \<Rightarrow> False)"

definition ideal :: "Ideal Pico" where
  "ideal = \<lparr>pq_get_server_address = (\<lambda>_ _ _. 0),
     pq_create_cnx = (\<lambda>_ _ q. (Some (i_cnxs q), q\<lparr>i_cnxs := Suc (i_cnxs q), i_sock := (i_sock q)(i_cnxs q := None)\<rparr>)),
     pq_local_cnxid = (\<lambda>_ c. replicate c 1),
     pq_socket = (\<lambda>q. (3, q)), pq_setsockopt = (\<lambda>_ q. (0, q)), pq_bind = (\<lambda>_ _ q. (0, q)), pq_rand = (\<lambda>q. (0, q)),
     pq_new_cell = (\<lambda>q. (i_cells q, q\<lparr>i_cells := Suc (i_cells q), i_sent := (i_sent q)(i_cells q := 0), i_act := None\<rparr>)),
     pq_cell = i_sent, pq_parse_scenario = (\<lambda>q. (0, q)), pq_initialize_context = (\<lambda>_ q. (0, q)),
     pq_set_callback = (\<lambda>c d q. q\<lparr>i_callback := (i_callback q)(c := d), i_act := None\<rparr>), pq_set_alpn = (\<lambda>_ q. q),
     pq_start_client_cnx = (\<lambda>c q. (0, case i_callback q c of None \<Rightarrow> q | Some d \<Rightarrow> q\<lparr>i_act := Some (c, d, False, 5)\<rparr>)),
     pq_is_0rtt_available = (\<lambda>_ _. False), pq_start_streams = ideal_start,
     pq_prepare_packet = (\<lambda>c q. ((0, if ideal_at {5, 2} q c then 1 else 0), q)), pq_send = ideal_send,
     pq_get_cnx_state = (\<lambda>q c. if ideal_at {0, 1, 2, 3} q c then CnxClientReady else CnxOther),
     pq_select = (\<lambda>_ q. (case i_act q of Some (c, d, st, n) \<Rightarrow> if n \<in> {4, 1} then 1 else 0 | None \<Rightarrow> 0, q)),
     pq_incoming_packet = (\<lambda>q. ((0, [], False), ideal_receive q)),
     pq_earliest_to_wake = (\<lambda>q c. case c of Some e \<Rightarrow> if ideal_at {5, 3, 2} q e then Some e else None | None \<Rightarrow> None),
     pq_fin_sent = ideal_stream_at {0, 1}, pq_fin_received = ideal_stream_at {0},
     pq_delete_cnx = (\<lambda>_ q. q), pq_reset_minrtt = (\<lambda>_ q. q), pq_first_cnx = (\<lambda>_. None), pq_msg = (\<lambda>_ _. None),
     pq_reset_msg = (\<lambda>_ q. q)\<rparr>"

definition ideal_wf :: "Ideal \<Rightarrow> bool" where
  "ideal_wf q \<longleftrightarrow> i_ready q \<subseteq> {..<i_cnxs q} \<and> fst ` i_used q \<subseteq> {..<i_cnxs q} \<and> fst ` set (i_posted q) \<subseteq> {..<i_cnxs q}
     \<and> (\<forall>c \<in> i_ready q. i_sock q c \<noteq> None)"

definition ideal_flight :: "Ideal \<Rightarrow> nat \<Rightarrow> Post \<Rightarrow> bool \<Rightarrow> nat \<Rightarrow> bool" where
  "ideal_flight q c d st n \<longleftrightarrow> i_act q = Some (c, d, st, n) \<and> ideal_wf q \<and> c < i_cnxs q \<and> i_callback q c = Some d \<and> whole d
     \<and> (if st then c \<in> i_ready q \<and> n \<in> {0, 1, 2} \<and> i_sock q c \<noteq> None \<and> i_sent q (d_sent d) = (if n = 2 then 0 else d_size d)
        else n \<in> {3, 4, 5} \<and> i_sent q (d_sent d) = 0 \<and> (n = 5 \<longleftrightarrow> i_sock q c = None))"

definition ideal_session :: "Ideal Session" where
  "ideal_session = \<lparr>s_ok = ideal_wf, s_live = (\<lambda>q. {..<i_cnxs q}), s_ready = i_ready, s_sock = i_sock, s_callback = i_callback,
     s_used = i_used, s_posted = i_posted, s_flight = ideal_flight\<rparr>"

lemma ByteArrayToString_ones: "ByteArrayToString (replicate n 1) = replicate n (char_of (49 :: nat))"
  by (induction n) (simp_all add: to_string_def digits.simps)

lemma ideal_name [simp]: "cnx_name ideal q c = replicate c (char_of (49 :: nat))"
  by (simp add: cnx_name_def ideal_def ByteArrayToString_ones)

lemma ideal_sel [simp]:
  "pq_get_server_address ideal = (\<lambda>_ _ _. 0)"
  "pq_create_cnx ideal = (\<lambda>_ _ q. (Some (i_cnxs q), q\<lparr>i_cnxs := Suc (i_cnxs q), i_sock := (i_sock q)(i_cnxs q := None)\<rparr>))"
  "pq_local_cnxid ideal = (\<lambda>_ c. replicate c 1)"
  "pq_socket ideal = (\<lambda>q. (3, q))"
  "pq_setsockopt ideal = (\<lambda>_ q. (0, q))"
  "pq_bind ideal = (\<lambda>_ _ q. (0, q))"
  "pq_rand ideal = (\<lambda>q. (0, q))"
  "pq_new_cell ideal = (\<lambda>q. (i_cells q, q\<lparr>i_cells := Suc (i_cells q), i_sent := (i_sent q)(i_cells q := 0), i_act := None\<rparr>))"
  "pq_cell ideal = i_sent"
  "pq_parse_scenario ideal = (\<lambda>q. (0, q))"
  "pq_initialize_context ideal = (\<lambda>_ q. (0, q))"
  "pq_set_callback ideal = (\<lambda>c d q. q\<lparr>i_callback := (i_callback q)(c := d), i_act := None\<rparr>)"
  "pq_set_alpn ideal = (\<lambda>_ q. q)"
  "pq_start_client_cnx ideal = (\<lambda>c q. (0, case i_callback q c of None \<Rightarrow> q | Some d \<Rightarrow> q\<lparr>i_act := Some (c, d, False, 5)\<rparr>))"
  "pq_is_0rtt_available ideal = (\<lambda>_ _. False)"
  "pq_start_streams ideal = ideal_start"
  "pq_prepare_packet ideal = (\<lambda>c q. ((0, if ideal_at {5, 2} q c then 1 else 0), q))"
  "pq_send ideal = ideal_send"
  "pq_get_cnx_state ideal = (\<lambda>q c. if ideal_at {0, 1, 2, 3} q c then CnxClientReady else CnxOther)"
  "pq_select ideal = (\<lambda>_ q. (case i_act q of Some (c, d, st, n) \<Rightarrow> if n \<in> {4, 1} then 1 else 0 | None \<Rightarrow> 0, q))"
  "pq_incoming_packet ideal = (\<lambda>q. ((0, [], False), ideal_receive q))"
  "pq_earliest_to_wake ideal = (\<lambda>q c. case c of Some e \<Rightarrow> if ideal_at {5, 3, 2} q e then Some e else None | None \<Rightarrow> None)"
  "pq_fin_sent ideal = ideal_stream_at {0, 1}"
  "pq_fin_received ideal = ideal_stream_at {0}"
  "pq_delete_cnx ideal = (\<lambda>_ q. q)"
  "pq_reset_minrtt ideal = (\<lambda>_ q. q)"
  "pq_first_cnx ideal = (\<lambda>_. None)"
  "pq_msg ideal = (\<lambda>_ _. None)"
  "pq_reset_msg ideal = (\<lambda>_ q. q)"
  by (simp_all add: ideal_def)

lemma ideal_session_sel [simp]:
  "s_ok ideal_session = ideal_wf" "s_live ideal_session = (\<lambda>q. {..<i_cnxs q})" "s_ready ideal_session = i_ready"
  "s_sock ideal_session = i_sock" "s_callback ideal_session = i_callback" "s_used ideal_session = i_used"
  "s_posted ideal_session = i_posted" "s_flight ideal_session = ideal_flight"
  by (simp_all add: ideal_session_def)

lemmas ideal_defs = moved_def still_def ideal_wf_def

lemma ideal_flightE:
  assumes "ideal_flight q c d st n"
  obtains "i_act q = Some (c, d, st, n)" "ideal_wf q" "c < i_cnxs q" "i_callback q c = Some d" "whole d"
    "st \<longrightarrow> c \<in> i_ready q \<and> n \<in> {0, 1, 2} \<and> i_sock q c \<noteq> None \<and> i_sent q (d_sent d) = (if n = 2 then 0 else d_size d)"
    "\<not> st \<longrightarrow> n \<in> {3, 4, 5} \<and> i_sent q (d_sent d) = 0 \<and> (n = 5 \<longleftrightarrow> i_sock q c = None)"
  using assms by (auto simp: ideal_flight_def split: if_splits)

lemma whole_nonneg: "whole d \<Longrightarrow> 0 \<le> d_size d"
  by (simp add: whole_def)

lemma ideal_start_client:
  assumes "ideal_wf q" "c < i_cnxs q" "i_sock q c = None" "i_callback q c = Some d" "i_sent q (d_sent d) = 0" "whole d"
  shows "ideal_flight (q\<lparr>i_act := Some (c, d, False, 5)\<rparr>) c d False 5 \<and> moved ideal ideal_session c [] {} q (q\<lparr>i_act := Some (c, d, False, 5)\<rparr>)"
  using assms by (simp add: ideal_flight_def ideal_defs)

lemma ideal_start_stream:
  assumes "ideal_wf q" "c < i_cnxs q" "i_callback q c = Some d" "i_sent q (d_sent d) = 0" "whole d" "i_sock q c \<noteq> None"
  shows "\<exists>q'. ideal_start c p q = (0, q') \<and> ideal_flight q' c d True 2 \<and> moved ideal ideal_session c [(c, d_data d)] {(c, d_stream d)} q q'"
  using assms by (auto simp: ideal_flight_def ideal_defs ideal_start_def)

lemma ideal_send_flight:
  assumes "ideal_flight q c d st n" and "n \<in> {5, 2}" and "i_sock q c \<in> {None, Some fd}"
  shows "(\<exists>n' < n. ideal_flight (ideal_send fd c q) c d st n') \<and> moved ideal ideal_session c [] {} q (ideal_send fd c q) \<and> i_sock (ideal_send fd c q) c = Some fd"
proof -
  have "ideal_flight (ideal_send fd c q) c d st (n - 1) \<and> moved ideal ideal_session c [] {} q (ideal_send fd c q) \<and> i_sock (ideal_send fd c q) c = Some fd"
    using assms by (auto elim!: ideal_flightE simp: ideal_flight_def ideal_defs ideal_send_def split: if_splits)
  moreover have "n - 1 < n" using assms(2) by auto
  ultimately show ?thesis by blast
qed

lemma ideal_receive_flight:
  assumes "ideal_flight q c d st n" and "n \<in> {4, 1}"
  shows "ideal_flight (ideal_receive q) c d st (n - 1) \<and> moved ideal ideal_session c [] {} q (ideal_receive q)"
  using assms by (auto elim!: ideal_flightE simp: ideal_flight_def ideal_defs ideal_receive_def split: if_splits)

interpretation ideal: picoquic_session ideal ideal_session
proof (unfold_locales, goal_cases)
  case (17 q c d)
  then show ?case using ideal_start_client[of q c d] by auto
next
  case (18 q c d n)
  then have f: "ideal_wf q" "c < i_cnxs q" "i_callback q c = Some d" "i_sent q (d_sent d) = 0" "whole d" "i_sock q c \<noteq> None" "n = 3"
    by (auto elim!: ideal_flightE simp: ideal_at_def split: if_splits)
  obtain q' where "ideal_start c (d_previous d) q = (0, q')" "ideal_flight q' c d True 2"
    "moved ideal ideal_session c [(c, d_data d)] {(c, d_stream d)} q q'"
    using ideal_start_stream[OF f(1-6)] by blast
  then show ?case using f(7) by (intro exI[of _ q'] exI[of _ 2]) simp
next
  case (19 q c d)
  then show ?case using ideal_start_stream[of q c d "d_previous d"] by (auto simp: ideal_wf_def)
next
  case (20 q c d st n)
  then show ?case using whole_nonneg[of d] by (auto elim!: ideal_flightE simp: ideal_at_def ideal_stream_at_def split: if_splits)
next
  case (22 q c d st n fd)
  then have fl: "ideal_flight q c d st n" by simp
  have "ideal_at {5, 2} q c \<longleftrightarrow> n \<in> {5, 2}" using fl by (auto elim!: ideal_flightE simp: ideal_at_def)
  moreover have "i_sock q c = None \<longrightarrow> n = 5" using fl by (auto elim!: ideal_flightE)
  moreover have "moved ideal ideal_session c [] {} q q" using fl by (auto elim!: ideal_flightE simp: moved_def)
  ultimately show ?case using fl 22(2) ideal_send_flight[OF fl, of fd] by (cases "n \<in> {5, 2}") auto
next
  case (23 q c d st n fd)
  then have fl: "ideal_flight q c d st n" by simp
  have n: "n \<in> {0, 1, 2, 3, 4, 5}" and st: "n = 5 \<longrightarrow> i_sock q c = None" and act: "i_act q = Some (c, d, st, n)" "st \<longleftrightarrow> n \<le> 2"
    using fl by (auto elim!: ideal_flightE)
  have mv: "moved ideal ideal_session c [] {} q q" using fl by (auto elim!: ideal_flightE simp: moved_def)
  show ?case
  proof (cases "n \<in> {4, 1}")
    case True
    then show ?thesis using ideal_receive_flight[OF fl True] act by auto
  next
    case False
    then have "n \<in> {0, 2, 3}" using n st 23(2) by auto
    then show ?thesis using fl act mv by (auto simp: ideal_at_def ideal_stream_at_def)
  qed
qed (auto simp: ideal_defs)

end
