(* ===== verification/Ps_Barrier.thy ===== *)
theory Ps_Barrier
  imports Ps_VanStart
begin

text \<open>
  A round of a barrier at the scheduler: \<^verbatim>\<open>Van::ProcessBarrierCommand\<close> counts the requests of a group
  and, at the last one, answers every member.  The lemmas hold over every working transport.
\<close>

definition is_barrier :: "int \<Rightarrow> Message \<Rightarrow> bool" where
  "is_barrier g m \<longleftrightarrow> m_request (msg_meta m) \<and> ctl_barrier_group (m_control (msg_meta m)) = g"

text \<open>The answer to the request \<open>req\<close> that completes a round.\<close>

definition is_release :: "Meta \<Rightarrow> Message \<Rightarrow> bool" where
  "is_release req m \<longleftrightarrow> ctl_cmd (m_control (msg_meta m)) = BARRIER \<and> \<not> m_request (msg_meta m)
     \<and> m_app_id (msg_meta m) = m_app_id req \<and> m_customer_id (msg_meta m) = m_customer_id req"

definition barrier_counts :: "'t Host \<Rightarrow> int list" where
  "barrier_counts h = (if v_barrier_count (h_van h) = [] then replicate 8 0 else v_barrier_count (h_van h))"

text \<open>A host in the middle of a round: \<open>c\<close> requests of group \<open>g\<close> have come, nothing else has changed.\<close>

definition counting :: "int \<Rightarrow> int \<Rightarrow> 't Host \<Rightarrow> 't Host \<Rightarrow> bool" where
  "counting g c h h' \<longleftrightarrow> (\<exists>cs. h' = upd_van (\<lambda>v. v\<lparr>v_barrier_count := cs\<rparr>) h
     \<and> barrier_counts h' = (barrier_counts h)[nat g := c])"

text \<open>A request, over \<open>barrier_counts\<close>.\<close>

lemma Process_request:
  assumes "is_barrier g m" and "0 \<le> g" "nat g < length (barrier_counts h)" and "GetNodeIDs (h_office h) g = Inr ids"
  shows "ProcessBarrierCommand cx m h =
    (if barrier_counts h ! nat g + 1 = int (length ids) \<and> v_init_stage (h_van h) = 2
     then rbind (rfold (\<lambda>r h. if um_find (v_shared_node_mapping (h_van h)) r \<noteq> None then Inr h
                               else send_stamped cx (barrier_response (msg_meta m) r) h) ids
                  (upd_van (\<lambda>v. v\<lparr>v_barrier_count := (barrier_counts h)[nat g := 0]\<rparr>) h)) (\<lambda>h2.
            Inr (h2\<lparr>h_office := ManageForScheduler (m_app_id (msg_meta m)) (h_office h2)\<rparr>))
     else Inr (upd_van (\<lambda>v. v\<lparr>v_barrier_count := (barrier_counts h)[nat g := barrier_counts h ! nat g + 1]\<rparr>) h))"
  using assms unfolding barrier_counts_def by (simp add: ProcessBarrierCommand_def is_barrier_def Let_def)

lemma Process_barrier_counts:
  assumes "is_barrier g m" and "0 \<le> g" "nat g < length (barrier_counts h)" and "GetNodeIDs (h_office h) g = Inr ids"
    and "counting g c h h'" and "c + 1 \<noteq> int (length ids)"
  shows "\<exists>h''. ProcessBarrierCommand cx m h' = Inr h'' \<and> counting g (c + 1) h h''"
proof -
  obtain cs where h': "h' = upd_van (\<lambda>v. v\<lparr>v_barrier_count := cs\<rparr>) h" "barrier_counts h' = (barrier_counts h)[nat g := c]"
    using assms(5) by (auto simp: counting_def)
  let ?cs = "(barrier_counts h)[nat g := c + 1]"
  have ne: "barrier_counts h \<noteq> []" using assms(3) by auto
  have "ProcessBarrierCommand cx m h' = Inr (upd_van (\<lambda>v. v\<lparr>v_barrier_count := ?cs\<rparr>) h')"
    using Process_request[OF assms(1,2), of h' ids cx] assms(3,4,6) h'(2) by (simp add: h'(1))
  moreover have "counting g (c + 1) h (upd_van (\<lambda>v. v\<lparr>v_barrier_count := ?cs\<rparr>) h')"
    unfolding counting_def using ne by (intro exI[of _ ?cs]) (auto simp: h'(1) barrier_counts_def split: if_splits)
  ultimately show ?thesis by blast
qed

lemma barrier_waits:
  assumes "\<forall>m \<in> set ms. is_barrier g m" and "0 \<le> g" "nat g < length (barrier_counts h)" and "GetNodeIDs (h_office h) g = Inr ids"
    and "counting g c h h'" and "c + int (length ms) < int (length ids)"
  shows "\<exists>h''. rfold (ProcessBarrierCommand cx) ms h' = Inr h'' \<and> counting g (c + int (length ms)) h h''"
  using assms(1,5,6)
proof (induction ms arbitrary: c h')
  case (Cons m ms)
  then obtain h1 where h1: "ProcessBarrierCommand cx m h' = Inr h1" "counting g (c + 1) h h1"
    using Process_barrier_counts[OF _ assms(2-4), of m c h' cx] by auto
  then show ?case using Cons.IH[OF _ h1(2)] Cons.prems by (auto simp: algebra_simps)
qed simp

lemma sends_refl:
  assumes "o_ok ob (v_net (h_van h))"
  shows "sends ob h {} [] h"
proof -
  have "upd_van (\<lambda>v. v\<lparr>v_net := v_net v, v_send_bytes := v_send_bytes v, v_timestamp := v_timestamp v\<rparr>) h = h"
    by (cases h; cases "h_van h") simp
  note eq = this[symmetric]
  show ?thesis unfolding sends_def
    by (rule exI[of _ "v_net (h_van h)"], rule exI[of _ "v_send_bytes (h_van h)"], rule exI[of _ "v_timestamp (h_van h)"],
        rule conjI, rule eq) (simp add: assms)
qed

lemma sends_trans:
  assumes "sends ob h C ms h1" and "sends ob h1 D ns h2"
  shows "sends ob h (C \<union> D) (ms @ ns) h2"
proof -
  obtain net b ts where h1: "h1 = upd_van (\<lambda>v. v\<lparr>v_net := net, v_send_bytes := b, v_timestamp := ts\<rparr>) h"
    using assms(1) unfolding sends_def by blast
  obtain net' b' ts' where h2: "h2 = upd_van (\<lambda>v. v\<lparr>v_net := net', v_send_bytes := b', v_timestamp := ts'\<rparr>) h1"
    using assms(2) unfolding sends_def by blast
  note f1 = sends_fields(16-)[OF assms(1)] and f2 = sends_fields(16-)[OF assms(2)]
  have net': "v_net (h_van h2) = net'" by (simp add: h2)
  show ?thesis unfolding sends_def
    by (rule exI[of _ net'], rule exI[of _ b'], rule exI[of _ ts']) (use f1 f2 in \<open>simp add: net'[symmetric] Un_assoc, simp add: h1 h2\<close>)
qed

lemma barrier_response_release: "is_release req (stamped me ((barrier_response req r)\<lparr>msg_meta := (msg_meta (barrier_response req r))\<lparr>m_timestamp := ts\<rparr>\<rparr>))"
  "m_recver (msg_meta (barrier_response req r)) = r"
  by (simp_all add: is_release_def barrier_response_def control_msg_def stamped_def Let_def)

context van_transport
begin

lemma barrier_answers:
  assumes tr: "cx_tr cx = tr" and "quiet h" and "o_ok ob (v_net (h_van h))"
    and "\<forall>r \<in> set ids. um_find (v_shared_node_mapping (h_van h)) r = None \<longrightarrow> r \<in> o_conn ob (v_net (h_van h)) \<and> r \<noteq> kEmpty"
  shows "\<exists>h' rs. rfold (\<lambda>r h. if um_find (v_shared_node_mapping (h_van h)) r \<noteq> None then Inr h
                               else send_stamped cx (barrier_response req r) h) ids h = Inr h'
    \<and> sends ob h {} rs h' \<and> (\<forall>m \<in> set rs. is_release req m)
    \<and> map (\<lambda>m. m_recver (msg_meta m)) rs = filter (\<lambda>r. um_find (v_shared_node_mapping (h_van h)) r = None) ids"
  using assms(2-)
proof (induction ids arbitrary: h)
  case Nil
  then show ?case using sends_refl by (intro exI[of _ h] exI[of _ "[]"]) simp
next
  case (Cons r ids)
  let ?step = "\<lambda>r h. if um_find (v_shared_node_mapping (h_van h)) r \<noteq> None then Inr h else send_stamped cx (barrier_response req r) h"
  show ?case
  proof (cases "um_find (v_shared_node_mapping (h_van h)) r")
    case None
    obtain h1 ts where h1: "send_stamped cx (barrier_response req r) h = Inr h1"
      "sends ob h {} [stamped (v_my_node (h_van h)) ((barrier_response req r)\<lparr>msg_meta := (msg_meta (barrier_response req r))\<lparr>m_timestamp := ts\<rparr>\<rparr>)] h1"
      using send_stamped_ok[OF tr Cons.prems(1,2), of "barrier_response req r"] Cons.prems(3) None by (auto simp: barrier_response_release)
    note f = sends_fields[OF h1(2)]
    obtain h' rs where h': "rfold ?step ids h1 = Inr h'" "sends ob h1 {} rs h'" "\<forall>m \<in> set rs. is_release req m"
      "map (\<lambda>m. m_recver (msg_meta m)) rs = filter (\<lambda>r. um_find (v_shared_node_mapping (h_van h)) r = None) ids"
      using Cons.IH[of h1] Cons.prems f by auto
    show ?thesis
      using None h1(1) h' sends_trans[OF h1(2) h'(2)]
      by (intro exI[of _ h'] exI[of _ "stamped (v_my_node (h_van h)) ((barrier_response req r)\<lparr>msg_meta := (msg_meta (barrier_response req r))\<lparr>m_timestamp := ts\<rparr>\<rparr>) # rs"])
        (simp add: barrier_response_release)
  next
    case (Some x)
    then show ?thesis using Cons.IH[of h] Cons.prems by simp
  qed
qed

lemma barrier_completes:
  assumes tr: "cx_tr cx = tr" and h: "quiet h" "v_init_stage (h_van h) = 2" "o_ok ob (v_net (h_van h))"
    and g: "0 \<le> g" "nat g < length (barrier_counts h)" "GetNodeIDs (h_office h) g = Inr ids"
    and conn: "\<forall>r \<in> set ids. um_find (v_shared_node_mapping (h_van h)) r = None \<longrightarrow> r \<in> o_conn ob (v_net (h_van h)) \<and> r \<noteq> kEmpty"
    and m: "is_barrier g m" and c: "counting g (int (length ids) - 1) h h1"
  shows "\<exists>h2 rs. ProcessBarrierCommand cx m h1 = Inr h2 \<and> barrier_counts h2 = (barrier_counts h)[nat g := 0]
    \<and> o_sent ob (v_net (h_van h2)) = o_sent ob (v_net (h_van h)) @ posts ob rs
    \<and> map (\<lambda>m. m_recver (msg_meta m)) rs = filter (\<lambda>r. um_find (v_shared_node_mapping (h_van h)) r = None) ids
    \<and> (\<forall>r \<in> set rs. is_release (msg_meta m) r) \<and> h_office h2 = ManageForScheduler (m_app_id (msg_meta m)) (h_office h)"
proof -
  obtain cs where h1: "h1 = upd_van (\<lambda>v. v\<lparr>v_barrier_count := cs\<rparr>) h" "barrier_counts h1 = (barrier_counts h)[nat g := int (length ids) - 1]"
    using c by (auto simp: counting_def)
  define hr where "hr = upd_van (\<lambda>v. v\<lparr>v_barrier_count := (barrier_counts h)[nat g := 0]\<rparr>) h"
  have ne: "(barrier_counts h)[nat g := 0] \<noteq> []" using g(2) by auto
  have hr: "quiet hr" "o_ok ob (v_net (h_van hr))" "v_shared_node_mapping (h_van hr) = v_shared_node_mapping (h_van h)"
    "v_net (h_van hr) = v_net (h_van h)" "h_office hr = h_office h" using h by (simp_all add: hr_def quiet_def)
  let ?f = "\<lambda>r h. if um_find (v_shared_node_mapping (h_van h)) r \<noteq> None then Inr h else send_stamped cx (barrier_response (msg_meta m) r) h"
  obtain h' rs where h': "rfold ?f ids hr = Inr h'" "sends ob hr {} rs h'" "\<forall>r \<in> set rs. is_release (msg_meta m) r"
    "map (\<lambda>m. m_recver (msg_meta m)) rs = filter (\<lambda>r. um_find (v_shared_node_mapping (h_van h)) r = None) ids"
    using barrier_answers[OF tr hr(1,2), of ids "msg_meta m"] conn hr by auto
  note f = sends_fields[OF h'(2)]
  have "ProcessBarrierCommand cx m h1 = rbind (rfold ?f ids hr) (\<lambda>h2. Inr (h2\<lparr>h_office := ManageForScheduler (m_app_id (msg_meta m)) (h_office h2)\<rparr>))"
    using Process_request[OF m g(1), of h1 ids cx] g(2,3) h(2) h1(2) by (simp add: h1(1) hr_def)
  then have eq: "ProcessBarrierCommand cx m h1 = Inr (h'\<lparr>h_office := ManageForScheduler (m_app_id (msg_meta m)) (h_office h')\<rparr>)"
    using h'(1) by simp
  moreover have "barrier_counts (h'\<lparr>h_office := p\<rparr>) = (barrier_counts h)[nat g := 0]" for p
    using f(11) ne by (simp add: barrier_counts_def[of "h'\<lparr>h_office := p\<rparr>"] hr_def)
  ultimately show ?thesis using h'(3,4) f(1,17) hr by (intro exI[of _ "h'\<lparr>h_office := ManageForScheduler (m_app_id (msg_meta m)) (h_office h')\<rparr>"] exI[of _ rs]) simp
qed

end

text \<open>A round: all requests but the last one are only counted, the last one releases the group.\<close>

lemma barrier_round:
  assumes tr: "van_transport tr ob" "cx_tr cx = tr" and h: "quiet h" "v_init_stage (h_van h) = 2" "o_ok ob (v_net (h_van h))"
    and g: "0 \<le> g" "nat g < length (barrier_counts h)" "barrier_counts h ! nat g = 0" "GetNodeIDs (h_office h) g = Inr ids"
    and conn: "\<forall>r \<in> set ids. um_find (v_shared_node_mapping (h_van h)) r = None \<longrightarrow> r \<in> o_conn ob (v_net (h_van h)) \<and> r \<noteq> kEmpty"
    and ms: "\<forall>x \<in> set (ms @ [m]). is_barrier g x" "length (ms @ [m]) = length ids"
  shows "\<exists>h1 h2 rs. rfold (ProcessBarrierCommand cx) ms h = Inr h1 \<and> v_net (h_van h1) = v_net (h_van h) \<and> h_office h1 = h_office h
    \<and> ProcessBarrierCommand cx m h1 = Inr h2 \<and> barrier_counts h2 = barrier_counts h
    \<and> o_sent ob (v_net (h_van h2)) = o_sent ob (v_net (h_van h)) @ posts ob rs
    \<and> map (\<lambda>m. m_recver (msg_meta m)) rs = filter (\<lambda>r. um_find (v_shared_node_mapping (h_van h)) r = None) ids
    \<and> (\<forall>r \<in> set rs. is_release (msg_meta m) r) \<and> h_office h2 = ManageForScheduler (m_app_id (msg_meta m)) (h_office h)"
proof -
  have same: "(barrier_counts h)[nat g := 0] = barrier_counts h" using g(3) by (metis list_update_id)
  have "counting g 0 h h"
    unfolding counting_def by (rule exI[of _ "v_barrier_count (h_van h)"]) (simp add: same)
  then obtain h1 where h1: "rfold (ProcessBarrierCommand cx) ms h = Inr h1" "counting g (int (length ms)) h h1"
    using barrier_waits[OF _ g(1,2,4), of ms 0 h cx] ms by auto
  have c: "counting g (int (length ids) - 1) h h1" using h1(2) ms(2)[symmetric] by simp
  have "v_net (h_van h1) = v_net (h_van h)" "h_office h1 = h_office h" using c by (auto simp: counting_def)
  then show ?thesis
    using van_transport.barrier_completes[OF tr h g(1,2,4) conn _ c, of m] ms(1) h1(1) same by auto
qed

end
