(* ===== verification/Ps_QuicProps.thy ===== *)
theory Ps_QuicProps
  imports Ps_QuicIdeal Ps_Barrier
begin

text \<open>
  Properties of the van over QUIC: start-up over a working library, and what the code of the QUIC van
  does where the library or the network does not behave that well.
\<close>

section \<open>Start-up\<close>


definition ideal_ser :: "PBMeta \<Rightarrow> byte list option" where
  "ideal_ser pb = Some [0]"

interpretation ideal_quic: quic_session ideal ideal_session ideal_ser
  by unfold_locales (simp add: ideal_ser_def)

text \<open>A scheduler of one server and one worker.\<close>

definition sch_env :: Environment where
  "sch_env = \<lparr>env_kvs = [(''DMLC_NUM_WORKER'', ''1''), (''DMLC_NUM_SERVER'', ''1''), (''DMLC_ROLE'', ''scheduler''),
     (''DMLC_PS_ROOT_URI'', ''s''), (''DMLC_PS_ROOT_PORT'', ''9'')]\<rparr>"

definition sch_office :: "nat Postoffice" where
  "sch_office = (case Start_init (\<lambda>_. None) sch_env Postoffice_init of Inr po \<Rightarrow> po | Inl _ \<Rightarrow> Postoffice_init)"

definition sch_cx :: "Ideal Quic Ctx" where
  "sch_cx = \<lparr>cx_tr = QUICVan ideal ideal_ser, cx_sys = (\<lambda>_. None), cx_env = sch_env, cx_time = 1, cx_ms = 1, cx_ifas = [], cx_port = 0\<rparr>"

definition sch_node :: "Role \<Rightarrow> string \<Rightarrow> Node" where
  "sch_node r host = Node_init\<lparr>n_role := r, n_hostname := host, n_port := 7\<rparr>"

definition sch_back :: "int \<Rightarrow> Message" where
  "sch_back r = (let m = control_msg ADD_NODE kScheduler in m\<lparr>msg_meta := (msg_meta m)\<lparr>m_sender := r\<rparr>\<rparr>)"

lemma sch_Start: "Start_init (\<lambda>_. None) sch_env Postoffice_init = Inr sch_office"
  by (simp add: sch_office_def Start_init_def InitEnvironment_def Van_Create_def GetEnv_def env_find_def
      sch_env_def Postoffice_init_def)

lemma sch_reachable: "po_reachable (\<lambda>_. None) sch_env sch_office"
  by (rule reach_step[OF reach_init start_init[OF sch_Start]])

lemma sch_fields: "po_init_stage sch_office = 1" "po_num_workers sch_office = 1" "po_num_servers sch_office = 1"
  "po_is_scheduler sch_office" "po_verbose sch_office = 0"
  by (simp_all add: sch_office_def Start_init_def InitEnvironment_def Van_Create_def GetEnv_def env_find_def
      sch_env_def Postoffice_init_def Start_node_ids_def GetEnv_int_def atoi_def is_space_def is_digit_def read_digits_def digit_val_def)

lemma sch_started: "\<exists>h. Van_Start_connect sch_cx 0 (Host_init (Van_init (cx_sys sch_cx) (cx_env sch_cx) (QUICVan_init ideal_init 0 0)) sch_office) = Inr h
    \<and> n_hostname (v_my_node (h_van h)) = ''s''"
  by (simp add: Van_Start_connect_def Host_init_def Van_init_def sch_cx_def env_find_def sch_env_def sch_fields my_node_info_def
      QUICVan_def QUICVan_Bind_def CreateQUICSocket_def Let_def case_prod_unfold atoi_def is_space_def is_digit_def read_digits_def
      digit_val_def)


section \<open>Barriers\<close>


definition barrier_request :: "int \<Rightarrow> Message" where
  "barrier_request g = (let m = control_msg BARRIER kScheduler in m\<lparr>msg_meta := (msg_meta m)\<lparr>m_request := True, m_app_id := 0,
     m_customer_id := 0, m_control := (m_control (msg_meta m))\<lparr>ctl_barrier_group := g\<rparr>\<rparr>\<rparr>)"

lemma sch_group: "GetNodeIDs sch_office 6 = Inr [9, 8]"
  using group_all_members[OF reachable_table_inv[OF sch_reachable]] sch_fields
  by (simp add: kWorkerGroup_def kServerGroup_def worker_ids_def server_ids_def WorkerRankToID_def ServerRankToID_def)

text \<open>A library connected to both nodes of the scheduler's system.\<close>

lemma sch_connected: "\<exists>s. quic_ok ideal ideal_session s \<and> um_keys (q_snd_nid2cnx s) = {9, 8}"
proof -
  let ?ob = "quic_obs ideal ideal_session ideal_ser" and ?me = "Node_init\<lparr>n_role := SCHEDULER, n_id := 1\<rparr>"
  have ob: "o_conn ?ob s = um_keys (q_snd_nid2cnx s)" "o_fresh ?ob s \<Longrightarrow> quic_ok ideal ideal_session s" for s
    by (simp_all add: quic_obs_def)
  have lib: "s_ok ideal_session ideal_init" "s_used ideal_session ideal_init = {}" by (simp_all add: ideal_init_def ideal_wf_def)
  have c: "connectable ?me ((sch_node r ''a'')\<lparr>n_id := i\<rparr>)" if "r \<noteq> SCHEDULER" "i \<noteq> kEmpty" for r i
    using that by (simp add: connectable_def sch_node_def Node_init_def kEmpty_def)
  have msg: "m_recver (msg_meta (control_msg CONNECT i)) = n_id ((sch_node r ''a'')\<lparr>n_id := i\<rparr>)" "msg_data (control_msg CONNECT i) = []" for i r
    by (simp_all add: control_msg_def Message_init_def)
  obtain s1 where s1: "o_fresh ?ob s1" "o_conn ?ob s1 = o_conn ?ob (QUICVan_init ideal_init 0 0) \<union> {9}"
    using ideal_quic.van.connect_ok[OF ideal_quic.init_fresh[OF lib, of 0 0] c[of WORKER 9] msg] by (auto simp: kEmpty_def)
  obtain s2 where s2: "o_fresh ?ob s2" "o_conn ?ob s2 = o_conn ?ob s1 \<union> {8}"
    using ideal_quic.van.connect_ok[OF s1(1) c[of SERVER 8] msg] by (auto simp: kEmpty_def)
  show ?thesis using s1(2) s2 ob by (intro exI[of _ s2]) (auto simp: QUICVan_init_def)
qed


section \<open>Sending\<close>


definition demo_hb :: "int \<Rightarrow> Message" where
  "demo_hb r = control_msg HEARTBEAT r"


text \<open>C25: A lost packet at the end of a message hangs the sender.  Once the packet with the end of the stream
  has been sent, the sending loops no longer prepare packets; when this packet or its answer is lost
  and nothing else arrives, so that every wait ends with a timeout, the loops never return, although
  the library has packets to send again.\<close>

theorem msg_loop_hangs:
  assumes "q \<in> S" and "p_cnx p = Some c" and "p_qsocket p = Some fd"
    and "\<And>q. q \<in> S \<Longrightarrow> pq_get_cnx_state pi q c \<noteq> CnxDisconnected \<and> fst (pq_select pi fd q) = 0 \<and> snd (pq_select pi fd q) \<in> S
      \<and> pq_earliest_to_wake pi q (Some c) = Some c \<and> 0 < snd (fst (pq_prepare_packet pi c q))
      \<and> pq_fin_sent pi q c (d_stream d) \<and> \<not> pq_fin_received pi q c (d_stream d)"
  shows "msg_loop pi con d 0 p q = None"
proof -
  have round: "send_round pi con d p q = Some (Inr (None, 0, p, snd (pq_select pi fd q)))" if "q \<in> S" for q
  proof -
    let ?q = "snd (pq_select pi fd q)"
    have q: "?q \<in> S" "fst (pq_select pi fd q) = 0" using assms(4)[OF that] by auto
    have "wake_loop pi con d p ?q = Some (0, p, ?q)" using assms(2) assms(4)[OF q(1)] by (subst wake_loop.simps) simp
    moreover have "posted_all pi d p ?q = Inr None" using assms(2) assms(4)[OF q(1)] by (simp add: posted_all_def)
    ultimately show ?thesis using assms(3) q(2) by (simp add: send_round_def case_prod_unfold Let_def)
  qed
  have "\<not> (q' \<in> S \<and> ret' = 0 \<and> pi' = pi \<and> con' = con \<and> d' = d \<and> p' = p)" if m: "msg_loop pi' con' d' ret' p' q' = Some r" for pi' con' d' ret' p' q' r
  proof (rule msg_loop.raw_induct[where P = "\<lambda>pi' con' d' ret' p' q' r. \<not> (q' \<in> S \<and> ret' = 0 \<and> pi' = pi \<and> con' = con \<and> d' = d \<and> p' = p)", OF _ m], goal_cases)
    case (1 f pi' con' d' ret' p' q' r)
    show ?case
    proof
      assume a: "q' \<in> S \<and> ret' = 0 \<and> pi' = pi \<and> con' = con \<and> d' = d \<and> p' = p"
      then have q: "q' \<in> S" by blast
      have "f pi con d 0 p (snd (pq_select pi fd q')) = Some r" using 1(2) round[OF q] assms(2) assms(4)[OF q] a by simp
      from 1(1)[OF this] assms(4)[OF q] show False by blast
    qed
  qed
  then show ?thesis using assms(1) by (cases "msg_loop pi con d 0 p q") blast+
qed

text \<open>A connection on which the last packet was lost.\<close>

definition lossy :: "unit Pico" where
  "lossy = \<lparr>pq_get_server_address = (\<lambda>_ _ _. 0), pq_create_cnx = (\<lambda>_ _ q. (Some 0, q)), pq_local_cnxid = (\<lambda>_ _. []),
     pq_socket = (\<lambda>q. (3, q)), pq_setsockopt = (\<lambda>_ q. (0, q)), pq_bind = (\<lambda>_ _ q. (0, q)), pq_rand = (\<lambda>q. (0, q)),
     pq_new_cell = (\<lambda>q. (0, q)), pq_cell = (\<lambda>_ _. 5), pq_parse_scenario = (\<lambda>q. (0, q)), pq_initialize_context = (\<lambda>_ q. (0, q)),
     pq_set_callback = (\<lambda>_ _ q. q), pq_set_alpn = (\<lambda>_ q. q), pq_start_client_cnx = (\<lambda>_ q. (0, q)), pq_is_0rtt_available = (\<lambda>_ _. False),
     pq_start_streams = (\<lambda>_ _ q. (0, q)), pq_prepare_packet = (\<lambda>_ q. ((0, 100), q)), pq_send = (\<lambda>_ _ q. q),
     pq_get_cnx_state = (\<lambda>_ _. CnxClientReady), pq_select = (\<lambda>_ q. (0, q)), pq_incoming_packet = (\<lambda>q. ((0, [], False), q)),
     pq_earliest_to_wake = (\<lambda>_ c. c), pq_fin_sent = (\<lambda>_ _ _. True), pq_fin_received = (\<lambda>_ _ _. False), pq_delete_cnx = (\<lambda>_ q. q),
     pq_reset_minrtt = (\<lambda>_ q. q), pq_first_cnx = (\<lambda>_. None), pq_msg = (\<lambda>_ _. None), pq_reset_msg = (\<lambda>_ q. q)\<rparr>"

theorem msg_loop_hangs_witness:
  "msg_loop lossy False \<lparr>d_data = [1, 2, 3, 4, 5], d_size = 5, d_sent = 0, d_previous = 0, d_stream = 4\<rparr> 0
     (QUICCnxParameter_zero\<lparr>p_cnx := Some 0, p_qsocket := Some 3\<rparr>) () = None"
  by (rule msg_loop_hangs[where S = UNIV and c = 0 and fd = 3]) (simp_all add: lossy_def)

section \<open>Receiving\<close>

text \<open>\<open>delivers pi s bs s'\<close>: the next byte strings \<^verbatim>\<open>QUICMsgRcv\<close> returns, on whatever connections, are \<open>bs\<close>.\<close>

fun delivers :: "'q Pico \<Rightarrow> 'q Quic \<Rightarrow> byte list list \<Rightarrow> 'q Quic \<Rightarrow> bool" where
  "delivers pi s [] s' \<longleftrightarrow> s = s'"
| "delivers pi s (b # bs) s' \<longleftrightarrow> (\<exists>s1. QUICMsgRcv pi s = Some (Inr (b, s1)) \<and> delivers pi s1 bs s')"

lemma recv_data_parts_ok:
  assumes "delivers pi s bs s'" and "bs \<noteq> []" and "m_more (msg_meta msg) + 1 = i + int (length bs)"
  shows "recv_data_parts pi i msg s = Some (Inr (int (length (last bs)), msg\<lparr>msg_data := msg_data msg @ bs\<rparr>, s'))"
  using assms
proof (induction bs arbitrary: i msg s)
  case (Cons b bs)
  obtain s1 where s1: "QUICMsgRcv pi s = Some (Inr (b, s1))" "delivers pi s1 bs s'" using Cons.prems(1) by auto
  show ?case
  proof (cases "bs = []")
    case True
    then show ?thesis using s1 Cons.prems(3) by (subst recv_data_parts.simps) simp
  next
    case False
    then have "i \<noteq> m_more (msg_meta msg)" using Cons.prems(3) by (cases bs) simp_all
    then show ?thesis using Cons.IH[OF s1(2) False, of "msg\<lparr>msg_data := msg_data msg @ [b]\<rparr>" "i + 1"] Cons.prems(3) s1(1) False
      by (subst recv_data_parts.simps) simp
  qed
qed simp

lemma RecvMsg_header:
  assumes "PackMeta ser (msg_meta m) = Inr buf" and "\<And>b. ser (PackMeta_pb (msg_meta m)) = Some b \<Longrightarrow> parse b = Some (PackMeta_pb (msg_meta m))"
    and "delivers pi s (buf # bs) s'" and "m_more (msg_meta m) = int (length bs)"
  shows "QUICVan_RecvMsg pi parse you Message_init s = Some (Inr (int (length (last (buf # bs))),
    \<lparr>msg_meta = (wire_meta (msg_meta m))\<lparr>m_recver := n_id you\<rparr>, msg_data = bs\<rparr>, s'))"
proof -
  obtain s1 where s1: "QUICMsgRcv pi s = Some (Inr (buf, s1))" "delivers pi s1 bs s'" using assms(3) by auto
  have "parse buf = Some (PackMeta_pb (msg_meta m))" using assms(1,2) by (auto simp: PackMeta_def split: option.splits)
  then have u: "UnpackMeta parse buf (msg_meta Message_init) = Inr (wire_meta (msg_meta m))"
    using UnpackMeta_PackMeta[OF assms(1)] by (simp add: Message_init_def)
  have more: "m_more (wire_meta (msg_meta m)) = int (length bs)" using assms(4) by (simp add: wire_meta_def)
  show ?thesis
  proof (cases "bs = []")
    case True
    then show ?thesis using s1 u more by (simp add: QUICVan_RecvMsg_def Let_def)
  next
    case False
    then show ?thesis using s1 u more recv_data_parts_ok[OF s1(2) False, of _ 1]
      by (simp add: QUICVan_RecvMsg_def Let_def)
  qed
qed

text \<open>C9: A message survives the trip.  When the byte strings of a message are the next ones delivered,
  \<^verbatim>\<open>RecvMsg\<close> returns the message: header, sender and all data parts in order, with the receiver set to
  the receiving node.\<close>

theorem quic_message_roundtrip:
  assumes "PackMeta ser (msg_meta (stamped me m)) = Inr buf"
    and "\<And>b. ser (PackMeta_pb (msg_meta (stamped me m))) = Some b \<Longrightarrow> parse b = Some (PackMeta_pb (msg_meta (stamped me m)))"
    and "delivers pi s (buf # msg_data m) s'"
  shows "\<exists>n msg'. QUICVan_RecvMsg pi parse you Message_init s = Some (Inr (n, msg', s')) \<and> msg_data msg' = msg_data m
    \<and> msg_meta msg' = (wire_meta (msg_meta m))\<lparr>m_sender := n_id me, m_recver := n_id you, m_more := int (length (msg_data m))\<rparr>"
proof -
  have "m_more (msg_meta (stamped me m)) = int (length (msg_data m))" by (simp add: stamped_def)
  from RecvMsg_header[OF assms this, where you = you] show ?thesis by (simp add: stamped_def wire_meta_def)
qed



text \<open>A receiving library that hands over byte strings in the order given, each with its connection.\<close>

record Inbox =
  b_pending :: "(nat \<times> byte list) list"
  b_msg :: "(nat \<times> byte list) option"

definition inbox_incoming :: "Inbox \<Rightarrow> (int \<times> byte list \<times> bool) \<times> Inbox" where
  "inbox_incoming q = (case b_pending q of [] \<Rightarrow> ((0, [], False), q)
     | (c, b) # rest \<Rightarrow> ((0, replicate c 1, True), \<lparr>b_pending = rest, b_msg = Some (c, b)\<rparr>))"

definition inbox :: "Inbox Pico" where
  "inbox = \<lparr>pq_get_server_address = (\<lambda>_ _ _. 0), pq_create_cnx = (\<lambda>_ _ q. (Some 0, q)), pq_local_cnxid = (\<lambda>_ _. []),
     pq_socket = (\<lambda>q. (3, q)), pq_setsockopt = (\<lambda>_ q. (0, q)), pq_bind = (\<lambda>_ _ q. (0, q)), pq_rand = (\<lambda>q. (0, q)),
     pq_new_cell = (\<lambda>q. (0, q)), pq_cell = (\<lambda>_ _. 0), pq_parse_scenario = (\<lambda>q. (0, q)), pq_initialize_context = (\<lambda>_ q. (0, q)),
     pq_set_callback = (\<lambda>_ _ q. q), pq_set_alpn = (\<lambda>_ q. q), pq_start_client_cnx = (\<lambda>_ q. (0, q)), pq_is_0rtt_available = (\<lambda>_ _. False),
     pq_start_streams = (\<lambda>_ _ q. (0, q)), pq_prepare_packet = (\<lambda>_ q. ((0, 0), q)), pq_send = (\<lambda>_ _ q. q),
     pq_get_cnx_state = (\<lambda>_ _. CnxOther), pq_select = (\<lambda>_ q. (if b_pending q = [] then 0 else 1, q)), pq_incoming_packet = inbox_incoming,
     pq_earliest_to_wake = (\<lambda>_ c. c), pq_fin_sent = (\<lambda>_ _ _. True), pq_fin_received = (\<lambda>_ _ _. False), pq_delete_cnx = (\<lambda>_ q. q),
     pq_reset_minrtt = (\<lambda>_ q. q), pq_first_cnx = (\<lambda>q. map_option fst (b_msg q)),
     pq_msg = (\<lambda>q c. case b_msg q of Some (e, b) \<Rightarrow> if e = c then Some b else None | None \<Rightarrow> None),
     pq_reset_msg = (\<lambda>_ q. q\<lparr>b_msg := None\<rparr>)\<rparr>"

definition inbox_van :: "(nat \<times> byte list) list \<Rightarrow> Inbox Quic" where
  "inbox_van pending = (QUICVan_init \<lparr>b_pending = pending, b_msg = None\<rparr> 0 0)\<lparr>q_receiver := Some 3\<rparr>"

lemmas inbox_defs = inbox_van_def QUICVan_init_def QUICMsgRcv_def rcv_loop.simps[of _ "[]"] rcv_round_def inbox_def inbox_incoming_def
  enter_cnx_def ByteArrayToString_ones QUICCnxParameter_zero_def Let_def to_string_def digits.simps[of 1] digits.simps[of "Suc 0"]

lemma inbox_same: "\<exists>s'. delivers inbox (inbox_van [(1, b), (1, b')]) [b, b'] s'"
  by (simp add: inbox_defs)

lemma inbox_two: "\<exists>s'. delivers inbox (inbox_van [(1, b), (2, b')]) [b, b'] s'"
  by (simp add: inbox_defs numeral_2_eq_2)

definition mix_msg :: "byte list list \<Rightarrow> Message" where
  "mix_msg ds = (demo_hb 8)\<lparr>msg_data := ds\<rparr>"

definition mix_ser :: "PBMeta \<Rightarrow> byte list option" where
  "mix_ser pb = (if pb = PackMeta_pb (msg_meta (stamped (sch_node WORKER ''a'') (mix_msg [[7]]))) then Some [1] else Some [2])"

definition mix_parse :: "byte list \<Rightarrow> PBMeta option" where
  "mix_parse b = (if b = [1] then Some (PackMeta_pb (msg_meta (stamped (sch_node WORKER ''a'') (mix_msg [[7]])))) else None)"

lemma PackMeta_pb_more [simp]: "pb_more (PackMeta_pb m) = Some (m_more m)"
  by (simp add: PackMeta_pb_def Let_def)

theorem quic_message_roundtrip_witness:
  "\<exists>n msg' s'. QUICVan_RecvMsg inbox mix_parse ((sch_node SERVER ''s'')\<lparr>n_id := 8\<rparr>) Message_init (inbox_van [(1, [1]), (1, [7])]) = Some (Inr (n, msg', s'))
    \<and> msg_data msg' = [[7]] \<and> m_recver (msg_meta msg') = 8"
proof -
  obtain s' where d: "delivers inbox (inbox_van [(1, [1]), (1, [7])]) [[1], [7]] s'" using inbox_same by blast
  have p: "PackMeta mix_ser (msg_meta (stamped (sch_node WORKER ''a'') (mix_msg [[7]]))) = Inr [1]" by (simp add: PackMeta_def mix_ser_def)
  have q: "mix_ser (PackMeta_pb (msg_meta (stamped (sch_node WORKER ''a'') (mix_msg [[7]])))) = Some b \<Longrightarrow>
      mix_parse b = Some (PackMeta_pb (msg_meta (stamped (sch_node WORKER ''a'') (mix_msg [[7]]))))" for b
    by (simp add: mix_ser_def mix_parse_def)
  have "delivers inbox (inbox_van [(1, [1]), (1, [7])]) ([1] # msg_data (mix_msg [[7]])) s'" using d by (simp add: mix_msg_def)
  from quic_message_roundtrip[where parse = mix_parse and you = "(sch_node SERVER ''s'')\<lparr>n_id := 8\<rparr>", OF p q this]
  show ?thesis by (auto simp: mix_msg_def)
qed


end
