(* ===== verification/Ps_Mempool.thy ===== *)
theory Ps_Mempool
  imports Ps_Prelude
begin

text \<open>
  The memory pool of the ibverbs van, \<^verbatim>\<open>SimpleMempool\<close> and \<^verbatim>\<open>Block\<close> of \<^verbatim>\<open>src/ibverbs_van.h\<close>: buffers
  are cut from memory regions that are registered with the network card.  Sizes and addresses are
  natural numbers; where \<^verbatim>\<open>size_t\<close> can wrap the reduction is written out.  The allocator of the
  system and the verbs library are the functions of a record.
\<close>

section \<open>The system\<close>

record ibv_mr =
  mr_addr :: nat
  mr_length :: nat
  mr_lkey :: nat
  mr_rkey :: nat

record 'e Verbs =
  vb_aligned_alloc :: "nat \<Rightarrow> nat \<Rightarrow> 'e \<Rightarrow> nat option \<times> 'e"
  vb_reg_mr :: "nat \<Rightarrow> nat \<Rightarrow> 'e \<Rightarrow> ibv_mr option \<times> 'e"
  vb_dereg_mr :: "ibv_mr \<Rightarrow> 'e \<Rightarrow> int \<times> 'e"
  vb_free :: "nat \<Rightarrow> 'e \<Rightarrow> 'e"

section \<open>Ordered maps\<close>

text \<open>\<^verbatim>\<open>std::multimap\<close> as a list in the order of its keys; a new entry goes behind the entries of the same key.\<close>

definition mm_emplace :: "nat \<Rightarrow> 'v \<Rightarrow> (nat \<times> 'v) list \<Rightarrow> (nat \<times> 'v) list" where
  "mm_emplace k v xs = takeWhile (\<lambda>x. fst x \<le> k) xs @ (k, v) # dropWhile (\<lambda>x. fst x \<le> k) xs"

definition map_emplace :: "nat \<Rightarrow> 'v \<Rightarrow> (nat \<times> 'v) list \<Rightarrow> (nat \<times> 'v) list" where
  "map_emplace k v xs = (if k \<in> fst ` set xs then xs else mm_emplace k v xs)"

text \<open>The entries before and from \<^verbatim>\<open>lower_bound(k)\<close>.\<close>

definition mm_before :: "nat \<Rightarrow> (nat \<times> 'v) list \<Rightarrow> (nat \<times> 'v) list" where
  "mm_before k xs = takeWhile (\<lambda>x. fst x < k) xs"

definition mm_from :: "nat \<Rightarrow> (nat \<times> 'v) list \<Rightarrow> (nat \<times> 'v) list" where
  "mm_from k xs = dropWhile (\<lambda>x. fst x < k) xs"

lemma mset_mm_emplace [simp]: "mset (mm_emplace k v xs) = add_mset (k, v) (mset xs)"
  by (simp add: mm_emplace_def) (metis mset_append takeWhile_dropWhile_id)

lemma set_mm_emplace [simp]: "set (mm_emplace k v xs) = insert (k, v) (set xs)"
  by (metis mset_mm_emplace set_mset_add_mset_insert set_mset_mset)

lemma mm_split: "mm_before k xs @ mm_from k xs = xs"
  by (simp add: mm_before_def mm_from_def)

lemma sorted_mm_emplace: "sorted (map fst xs) \<Longrightarrow> sorted (map fst (mm_emplace k v xs))"
  by (induction xs) (auto simp: mm_emplace_def dest: set_takeWhileD set_dropWhileD)

lemma mm_from_Cons: "mm_from k xs = x # ys \<Longrightarrow> k \<le> fst x"
  by (induction xs) (auto simp: mm_from_def split: if_splits)

section \<open>The pool\<close>

record Mempool =
  mp_free_list :: "(nat \<times> nat) list"
  mp_used_list :: "(nat, nat) um"
  mp_mr_list :: "(nat \<times> ibv_mr) list"
  mp_total_allocated_size :: nat

definition kAlignment :: nat where
  "kAlignment = 8"

definition align_floor :: "nat \<Rightarrow> nat \<Rightarrow> nat" where
  "align_floor v align = v - v mod align"

definition align_ceil :: "nat \<Rightarrow> nat \<Rightarrow> nat" where
  "align_ceil v align = align_floor ((v + align - 1) mod 2 ^ 64) align"

text \<open>A new region of registered memory, all of it free; the last action counts it.\<close>

definition add_region :: "'e Verbs \<Rightarrow> nat \<Rightarrow> Mempool \<Rightarrow> 'e \<Rightarrow> (Mempool \<times> 'e) res" where
  "add_region vb sz m e = (case vb_aligned_alloc vb kAlignment sz e of
      (None, e1) \<Rightarrow> Inl (Check ''p'')
    | (Some p, e1) \<Rightarrow>
        (case vb_reg_mr vb p sz e1 of
           (None, e2) \<Rightarrow> Inl (Check ''mr = ibv_reg_mr'')
         | (Some mr, e2) \<Rightarrow>
             Inr (m\<lparr>mp_mr_list := map_emplace (p + sz) mr (mp_mr_list m),
                    mp_free_list := mm_emplace sz p (mp_free_list m),
                    mp_total_allocated_size := (mp_total_allocated_size m + sz) mod 2 ^ 64\<rparr>, e2)))"

definition SimpleMempool :: "'e Verbs \<Rightarrow> nat \<Rightarrow> 'e \<Rightarrow> (Mempool \<times> 'e) res" where
  "SimpleMempool vb sz e =
     add_region vb sz \<lparr>mp_free_list = [], mp_used_list = [], mp_mr_list = [], mp_total_allocated_size = 0\<rparr> e"

definition SimpleMempool_dtor :: "'e Verbs \<Rightarrow> Mempool \<Rightarrow> 'e \<Rightarrow> 'e res" where
  "SimpleMempool_dtor vb m e = rfold (\<lambda>(_, mr) e. let (rc, e1) = vb_dereg_mr vb mr e in
     check (rc = 0) ''ibv_dereg_mr(it->second) == 0'' (Inr (vb_free vb (mr_addr mr) e1))) (mp_mr_list m) e"

text \<open>\<^verbatim>\<open>while (proper_size > new_mem_size) new_mem_size *= 2\<close>, which does not end when the doubling wraps.\<close>

partial_function (option) grow_size :: "nat \<Rightarrow> nat \<Rightarrow> nat option" where
  "grow_size proper_size new_mem_size =
     (if new_mem_size < proper_size then grow_size proper_size (new_mem_size * 2 mod 2 ^ 64) else Some new_mem_size)"

text \<open>Take the first free buffer that is large enough; the rest of it stays free.\<close>

definition take_buffer :: "nat \<Rightarrow> Mempool \<Rightarrow> (nat \<times> Mempool) res" where
  "take_buffer proper_size m = (case mm_from proper_size (mp_free_list m) of
      [] \<Rightarrow> Inl (Check ''Not enough memory'')
    | (sz, addr) # rest \<Rightarrow>
        check (sz \<ge> proper_size) ''it->first >= proper_size''
       (let space_left = sz - proper_size;
            free1 = mm_before proper_size (mp_free_list m) @ rest in
        check (um_find (mp_used_list m) addr = None) ''Address is already allocated''
         (Inr (addr, m\<lparr>mp_used_list := um_set addr proper_size (mp_used_list m),
            mp_free_list := (if space_left \<noteq> 0 then mm_emplace space_left (addr + proper_size) free1 else free1)\<rparr>))))"

definition Alloc :: "'e Verbs \<Rightarrow> nat \<Rightarrow> Mempool \<Rightarrow> 'e \<Rightarrow> (nat option \<times> Mempool \<times> 'e) res" where
  "Alloc vb sz m e =
     (if sz = 0 then Inr (None, m, e)
      else let proper_size = align_ceil sz kAlignment in
       rbind (if mm_from proper_size (mp_free_list m) = []
              then (case grow_size proper_size (mp_total_allocated_size m) of
                      None \<Rightarrow> Inl NoReturn
                    | Some new_mem_size \<Rightarrow> add_region vb new_mem_size m e)
              else Inr (m, e)) (\<lambda>(m1, e1).
       rbind (take_buffer proper_size m1) (\<lambda>(addr, m2). Inr (Some addr, m2, e1))))"

definition Free :: "nat option \<Rightarrow> Mempool \<Rightarrow> Mempool res" where
  "Free addr m = (case addr of
      None \<Rightarrow> Inr m
    | Some a \<Rightarrow>
        (case um_find (mp_used_list m) a of
           None \<Rightarrow> Inl (Check ''Cannot find info about address'')
         | Some sz \<Rightarrow> Inr (m\<lparr>mp_used_list := um_erase a (mp_used_list m),
                                 mp_free_list := mm_emplace sz a (mp_free_list m)\<rparr>)))"

definition Addr2MR :: "nat \<Rightarrow> Mempool \<Rightarrow> ibv_mr res" where
  "Addr2MR addr m = (case mm_from addr (mp_mr_list m) of
      [] \<Rightarrow> Inl (Check ''cannot find the associated memory region'')
    | (_, mr) # _ \<Rightarrow> Inr mr)"

definition LocalKey :: "nat \<Rightarrow> Mempool \<Rightarrow> nat res" where
  "LocalKey addr m = rbind (Addr2MR addr m) (\<lambda>mr. Inr (mr_lkey mr))"

definition RemoteKey :: "nat \<Rightarrow> Mempool \<Rightarrow> nat res" where
  "RemoteKey addr m = rbind (Addr2MR addr m) (\<lambda>mr. Inr (mr_rkey mr))"

text \<open>A reference-counted buffer: \<open>None\<close> is a block that has been deleted.\<close>

record Block =
  bl_addr :: nat
  bl_counter :: int

definition Release :: "Block \<Rightarrow> Mempool \<Rightarrow> (Block option \<times> Mempool) res" where
  "Release b m = (if bl_counter b = 1
     then rbind (Free (Some (bl_addr b)) m) (\<lambda>m'. Inr (None, m'))
     else Inr (Some (b\<lparr>bl_counter := bl_counter b - 1\<rparr>), m))"

section \<open>Covered addresses\<close>

text \<open>In how many of the buffers of a list, given by address and size, an address lies.\<close>

definition inside :: "nat \<Rightarrow> nat \<times> nat \<Rightarrow> nat" where
  "inside x b = (if fst b \<le> x \<and> x < fst b + snd b then 1 else 0)"

definition cover :: "(nat \<times> nat) list \<Rightarrow> nat \<Rightarrow> nat" where
  "cover bs x = sum_list (map (inside x) bs)"

lemma cover_simps [simp]:
  "cover [] x = 0" "cover (b # bs) x = inside x b + cover bs x" "cover (bs @ cs) x = cover bs x + cover cs x"
  by (simp_all add: cover_def)

lemma cover_mset: "mset bs = mset cs \<Longrightarrow> cover bs x = cover cs x"
  unfolding cover_def by (metis mset_map sum_mset_sum_list)

lemma inside_split: "inside x (a, s) = inside x (a, p) + inside x (a + p, s - p)" if "p \<le> s"
  using that by (auto simp: inside_def)

lemma cover_mem: "b \<in> set bs \<Longrightarrow> inside x b \<le> cover bs x"
  by (induction bs) auto

lemma cover_two: "inside x b = 1 \<Longrightarrow> inside x c = 1 \<Longrightarrow> b \<in> set bs \<Longrightarrow> c \<in> set cs \<Longrightarrow> 2 \<le> cover (bs @ cs) x"
  using cover_mem[of b bs x] cover_mem[of c cs x] by simp

lemma cover_zero: "cover bs x = 0 \<longleftrightarrow> (\<forall>b \<in> set bs. inside x b = 0)"
  by (induction bs) auto

lemma cover_erase: "um_wf m \<Longrightarrow> um_find m a = Some n \<Longrightarrow> cover m x = inside x (a, n) + cover (um_erase a m) x"
proof (induction m)
  case (Cons b m)
  obtain k v where b: "b = (k, v)" by (cases b)
  show ?case
  proof (cases "k = a")
    case True
    then have "um_erase a m = m" using Cons.prems(1) b by (auto intro!: delete_idem)
    then show ?thesis using True Cons.prems(2) b by simp
  next
    case False
    then show ?thesis using Cons b by simp
  qed
qed simp

lemma cover_update: "a \<notin> um_keys m \<Longrightarrow> um_set a n m = m @ [(a, n)]"
  by (induction m) auto

lemma cover_all2: "list_all2 (\<lambda>b c. fst b = fst c \<and> snd b \<le> snd c) bs cs \<Longrightarrow> cover bs x \<le> cover cs x"
  by (induction rule: list_all2_induct) (auto simp: inside_def)

lemma sum_inside: "a + n \<le> N \<Longrightarrow> (\<Sum>x < N. inside x (a, n)) = n"
proof -
  assume le: "a + n \<le> N"
  have "(\<Sum>x < N. inside x (a, n)) = (\<Sum>x \<in> {a..<a+n}. 1)"
    using le by (intro sum.mono_neutral_cong_right) (auto simp: inside_def)
  then show ?thesis by simp
qed

lemma sum_cover: "\<forall>b \<in> set bs. fst b + snd b \<le> N \<Longrightarrow> (\<Sum>x < N. cover bs x) = sum_list (map snd bs)"
  by (induction bs) (auto simp: sum.distrib sum_inside)

lemma sum_sizes_less:
  assumes "\<forall>b \<in> set bs. 0 < fst b \<and> fst b + snd b \<le> N" and "\<forall>x. cover bs x \<le> 1" and "0 < N"
  shows "sum_list (map snd bs) < N"
proof -
  have "cover bs 0 = 0" using assms(1) by (simp add: cover_zero inside_def)
  then have "(\<Sum>x < N. cover bs x) < (\<Sum>x < N. 1)"
    using assms(2,3) by (intro sum_strict_mono_ex1) (auto intro!: bexI[of _ 0])
  then show ?thesis using sum_cover[of bs N] assms(1) by simp
qed

section \<open>Invariant\<close>

definition blocks :: "Mempool \<Rightarrow> (nat \<times> nat) list" where
  "blocks m = map prod.swap (mp_free_list m) @ mp_used_list m"

definition regions :: "Mempool \<Rightarrow> (nat \<times> nat) list" where
  "regions m = map (\<lambda>(_, mr). (mr_addr mr, mr_length mr)) (mp_mr_list m)"

definition in_region :: "Mempool \<Rightarrow> nat \<times> nat \<Rightarrow> bool" where
  "in_region m b \<longleftrightarrow> (\<exists>r \<in> set (regions m). fst r \<le> fst b \<and> fst b + snd b \<le> fst r + snd r)"

lemma in_region_sub: "in_region m b \<Longrightarrow> fst b \<le> fst c \<Longrightarrow> fst c + snd c \<le> fst b + snd b \<Longrightarrow> in_region m c"
  unfolding in_region_def by (meson order.trans)

text \<open>The used and the free buffers together are exactly the registered memory, without overlap.\<close>

definition pool_inv :: "nat set \<Rightarrow> Mempool \<Rightarrow> bool" where
  "pool_inv H m \<longleftrightarrow> (\<forall>x. cover (blocks m) x = cover (regions m) x) \<and> (\<forall>x. cover (regions m) x \<le> (if x \<in> H then 1 else 0))
     \<and> (\<forall>b \<in> set (blocks m). 0 < snd b \<and> 8 dvd fst b \<and> 8 dvd snd b \<and> in_region m b)
     \<and> um_wf (mp_used_list m) \<and> sorted (map fst (mp_mr_list m))
     \<and> (\<forall>(k, mr) \<in> set (mp_mr_list m). k = mr_addr mr + mr_length mr \<and> 0 < mr_addr mr \<and> 0 < mr_length mr \<and> k \<le> 2 ^ 64)
     \<and> mp_total_allocated_size m = sum_list (map snd (regions m)) \<and> 8 dvd mp_total_allocated_size m"

lemma pool_invD:
  assumes "pool_inv H m"
  shows "cover (blocks m) x = cover (regions m) x" and "x \<notin> H \<Longrightarrow> cover (regions m) x = 0" and "cover (regions m) x \<le> 1"
    and "b \<in> set (blocks m) \<Longrightarrow> 0 < snd b \<and> 8 dvd fst b \<and> 8 dvd snd b \<and> in_region m b"
    and "um_wf (mp_used_list m)" and "sorted (map fst (mp_mr_list m))"
    and "(k, mr) \<in> set (mp_mr_list m) \<Longrightarrow> k = mr_addr mr + mr_length mr \<and> 0 < mr_addr mr \<and> 0 < mr_length mr \<and> k \<le> 2 ^ 64"
    and "mp_total_allocated_size m = sum_list (map snd (regions m))" and "8 dvd mp_total_allocated_size m"
proof -
  have "cover (regions m) x \<le> (if x \<in> H then 1 else 0)" for x using assms unfolding pool_inv_def by blast
  then show "x \<notin> H \<Longrightarrow> cover (regions m) x = 0" "cover (regions m) x \<le> 1" by (metis le_zero_eq, metis le_zero_eq zero_le_one order.refl)
qed (use assms in \<open>unfold pool_inv_def, blast+\<close>)

lemma pool_inv_change:
  assumes inv: "pool_inv H m" and eq: "mp_mr_list m' = mp_mr_list m" "mp_total_allocated_size m' = mp_total_allocated_size m"
    and cov: "\<And>x. cover (blocks m') x = cover (blocks m) x" and wf: "um_wf (mp_used_list m')"
    and sizes: "\<And>b. b \<in> set (blocks m') \<Longrightarrow> 0 < snd b \<and> 8 dvd fst b \<and> 8 dvd snd b \<and> in_region m b"
  shows "pool_inv H m'"
proof -
  have r: "regions m' = regions m" by (simp add: regions_def eq)
  show ?thesis using inv wf sizes unfolding pool_inv_def in_region_def eq r cov by blast
qed

text \<open>An address in use: allocated from the system, and not in a free buffer of the pool.\<close>

definition taken :: "nat set \<Rightarrow> Mempool \<Rightarrow> nat \<Rightarrow> bool" where
  "taken H m x \<longleftrightarrow> x \<in> H \<and> cover (map prod.swap (mp_free_list m)) x = 0"

lemma taken_free: "taken H m x \<Longrightarrow> (s, a) \<in> set (mp_free_list m) \<Longrightarrow> a \<le> x \<Longrightarrow> a + s \<le> x"
  by (force simp: taken_def cover_zero inside_def split: if_splits)

text \<open>The allocator hands out memory that was not in use, aligned as asked; registering memory does not
  change what is in use, \<open>hp\<close>.\<close>

locale rdma_memory =
  fixes vb :: "'e Verbs" and hp :: "'e \<Rightarrow> nat set"
  assumes aligned_alloc: "vb_aligned_alloc vb 8 n e = (Some p, e') \<Longrightarrow> 0 < n \<Longrightarrow>
      0 < p \<and> 8 dvd p \<and> p + n \<le> 2 ^ 64 \<and> {p..<p + n} \<inter> hp e = {} \<and> hp e \<union> {p..<p + n} \<subseteq> hp e'"
    and reg_mr: "vb_reg_mr vb p n e = (Some mr, e') \<Longrightarrow> mr_addr mr = p \<and> mr_length mr = n \<and> hp e' = hp e"
begin

lemma add_region_ok:
  assumes inv: "pool_inv (hp e) m" and n: "0 < n" "8 dvd n" and add: "add_region vb n m e = Inr (m', e')"
  shows "pool_inv (hp e') m'" and "0 < mp_total_allocated_size m'" and "hp e \<subseteq> hp e'" and "\<exists>p. (n, p) \<in> set (mp_free_list m')"
    and "mp_used_list m' = mp_used_list m" and "\<exists>p. set (mp_free_list m') = insert (n, p) (set (mp_free_list m)) \<and> {p..<p + n} \<inter> hp e = {}"
proof -
  obtain p e1 mr where s: "vb_aligned_alloc vb 8 n e = (Some p, e1)" "vb_reg_mr vb p n e1 = (Some mr, e')"
    and m': "m' = m\<lparr>mp_mr_list := map_emplace (p + n) mr (mp_mr_list m), mp_free_list := mm_emplace n p (mp_free_list m),
                    mp_total_allocated_size := (mp_total_allocated_size m + n) mod 2 ^ 64\<rparr>"
    using add by (auto simp: add_region_def kAlignment_def split: prod.splits option.splits)
  note p = aligned_alloc[OF s(1) n(1)]
  have mr: "mr_addr mr = p" "mr_length mr = n" and hp: "hp e \<union> {p..<p + n} \<subseteq> hp e'" using reg_mr[OF s(2)] p by auto
  have free: "cover (regions m) x = 0" if "x \<in> {p..<p + n}" for x
    using pool_invD(2)[OF inv, of x] that p by blast
  have new: "p + n \<notin> fst ` set (mp_mr_list m)"
  proof
    assume "p + n \<in> fst ` set (mp_mr_list m)"
    then obtain r where r: "(p + n, r) \<in> set (mp_mr_list m)" by auto
    then have e: "p + n = mr_addr r + mr_length r" "0 < mr_length r" using pool_invD(7)[OF inv r] by blast+
    have "(mr_addr r, mr_length r) \<in> set (regions m)" using r by (force simp: regions_def)
    moreover have "inside (p + n - 1) (mr_addr r, mr_length r) = 1" using e by (auto simp: inside_def)
    ultimately have "1 \<le> cover (regions m) (p + n - 1)" using cover_mem by metis
    moreover have "p + n - 1 \<in> {p..<p + n}" using n(1) by auto
    ultimately show False using free[of "p + n - 1"] by linarith
  qed
  have reg: "mset (regions m') = add_mset (p, n) (mset (regions m))"
    by (simp add: m' regions_def map_emplace_def new mr)
  have blk: "mset (blocks m') = add_mset (p, n) (mset (blocks m))" by (simp add: m' blocks_def)
  have creg: "cover (regions m') x = inside x (p, n) + cover (regions m) x" for x
    using cover_mset[of "regions m'" "(p, n) # regions m" x] reg by simp
  have cblk: "cover (blocks m') x = inside x (p, n) + cover (blocks m) x" for x
    using cover_mset[of "blocks m'" "(p, n) # blocks m" x] blk by simp
  have le1: "cover (regions m') x \<le> (if x \<in> hp e' then 1 else 0)" for x
  proof (cases "x \<in> {p..<p + n}")
    case True then show ?thesis using free[OF True] creg[of x] hp by (auto simp: inside_def)
  next
    case False
    then have "cover (regions m') x = cover (regions m) x" using creg[of x] by (auto simp: inside_def)
    then show ?thesis using pool_invD(2,3)[OF inv, of x] False hp by auto
  qed
  have mrs: "\<forall>(k, r) \<in> set (mp_mr_list m'). k = mr_addr r + mr_length r \<and> 0 < mr_addr r \<and> 0 < mr_length r \<and> k \<le> 2 ^ 64"
    using pool_invD(7)[OF inv] p n mr by (auto simp: m' map_emplace_def new)
  have "sum_list (map snd (regions m')) < 2 ^ 64"
  proof (rule sum_sizes_less)
    show "\<forall>b \<in> set (regions m'). 0 < fst b \<and> fst b + snd b \<le> 2 ^ 64" using mrs by (auto simp: regions_def)
    have "cover (regions m') x \<le> 1" for x using le1[of x] by (cases "x \<in> hp e'") auto
    then show "\<forall>x. cover (regions m') x \<le> 1" by blast
  qed simp
  moreover have "sum_list (map snd (regions m')) = sum_list (map snd (regions m)) + n"
    by (simp add: reg flip: sum_mset_sum_list)
  ultimately have tot: "mp_total_allocated_size m' = sum_list (map snd (regions m'))"
    "mp_total_allocated_size m' = mp_total_allocated_size m + n" using pool_invD(8)[OF inv] by (simp_all add: m')
  show "pool_inv (hp e') m'" unfolding pool_inv_def
  proof (intro conjI)
    show "\<forall>x. cover (blocks m') x = cover (regions m') x" using pool_invD(1)[OF inv] cblk creg by simp
    show "\<forall>x. cover (regions m') x \<le> (if x \<in> hp e' then 1 else 0)" using le1 by blast
    have sub: "set (regions m') = insert (p, n) (set (regions m))" using arg_cong[OF reg, of set_mset] by simp
    have "in_region m' b" if "b = (p, n) \<or> in_region m b" for b using that by (auto simp: in_region_def sub)
    then show "\<forall>b \<in> set (blocks m'). 0 < snd b \<and> 8 dvd fst b \<and> 8 dvd snd b \<and> in_region m' b"
      using pool_invD(4)[OF inv] p n by (auto simp: m' blocks_def)
    show "um_wf (mp_used_list m')" using pool_invD(5)[OF inv] by (simp add: m')
    show "sorted (map fst (mp_mr_list m'))" using pool_invD(6)[OF inv] by (simp add: m' map_emplace_def new sorted_mm_emplace)
    show "8 dvd mp_total_allocated_size m'" using tot(2) pool_invD(9)[OF inv] n(2) by simp
  qed (use mrs tot(1) in auto)
  show "0 < mp_total_allocated_size m'" using tot(2) n(1) by simp
  show "hp e \<subseteq> hp e'" using hp by blast
  show "\<exists>p. (n, p) \<in> set (mp_free_list m')" by (auto simp: m')
  show "mp_used_list m' = mp_used_list m" by (simp add: m')
  show "\<exists>p. set (mp_free_list m') = insert (n, p) (set (mp_free_list m)) \<and> {p..<p + n} \<inter> hp e = {}" using p by (auto simp: m')
qed

end

text \<open>Cutting a buffer in two and giving one back keep the invariant.\<close>

lemma take_buffer_ok:
  assumes inv: "pool_inv H m" and n: "0 < n" "8 dvd n" and free: "mm_from n (mp_free_list m) \<noteq> []"
  obtains addr m' where "take_buffer n m = Inr (addr, m')" and "pool_inv H m'" and "mp_used_list m' = mp_used_list m @ [(addr, n)]"
    and "mp_total_allocated_size m' = mp_total_allocated_size m" and "\<exists>s \<ge> n. (s, addr) \<in> set (mp_free_list m)"
proof -
  obtain s addr rest where c: "mm_from n (mp_free_list m) = (s, addr) # rest" using free by (cases "mm_from n (mp_free_list m)") auto
  have le: "n \<le> s" using mm_from_Cons[OF c] by simp
  have fl: "mp_free_list m = mm_before n (mp_free_list m) @ (s, addr) # rest" using mm_split[of n "mp_free_list m"] c by simp
  let ?free = "mm_before n (mp_free_list m) @ rest"
  let ?free' = "if s - n \<noteq> 0 then mm_emplace (s - n) (addr + n) ?free else ?free"
  have blk: "(addr, s) \<in> set (map prod.swap (mp_free_list m))" by (subst fl) simp
  then have al: "0 < s" "8 dvd addr" "8 dvd s" "in_region m (addr, s)" using pool_invD(4)[OF inv, of "(addr, s)"] by (auto simp: blocks_def)
  have new: "addr \<notin> um_keys (mp_used_list m)"
  proof
    assume "addr \<in> um_keys (mp_used_list m)"
    then obtain k where k: "(addr, k) \<in> set (mp_used_list m)" by auto
    then have "0 < k" using pool_invD(4)[OF inv, of "(addr, k)"] by (simp add: blocks_def)
    then have "2 \<le> cover (blocks m) addr" unfolding blocks_def using al(1) blk k by (intro cover_two) (auto simp: inside_def)
    then show False using pool_invD(1,3)[OF inv, of addr] by simp
  qed
  define m' where "m' = m\<lparr>mp_used_list := um_set addr n (mp_used_list m), mp_free_list := ?free'\<rparr>"
  have used: "mp_used_list m' = mp_used_list m @ [(addr, n)]" by (simp add: m'_def cover_update[OF new])
  have t: "take_buffer n m = Inr (addr, m')" using new le by (simp add: take_buffer_def c m'_def Let_def um_find_None_iff)
  have old: "cover (map prod.swap (mp_free_list m)) x = cover (map prod.swap ?free) x + inside x (addr, s)" for x by (subst fl) simp
  have new': "cover (map prod.swap ?free') x = cover (map prod.swap ?free) x + inside x (addr + n, s - n)" for x
  proof (cases "s = n")
    case False
    have "mset (map prod.swap (mm_emplace (s - n) (addr + n) ?free)) = mset ((addr + n, s - n) # map prod.swap ?free)"
      by simp
    from cover_mset[OF this, of x] show ?thesis using False le by simp
  qed (simp add: inside_def)
  have cov: "cover (blocks m') x = cover (blocks m) x" for x
    using old[of x] new'[of x] inside_split[OF le, of x addr] used by (simp add: blocks_def m'_def)
  have sizes: "0 < snd b \<and> 8 dvd fst b \<and> 8 dvd snd b \<and> in_region m b" if "b \<in> set (blocks m')" for b
  proof -
    have "set ?free \<subseteq> set (mp_free_list m)" by (subst (2) fl) auto
    then have "b \<in> set (blocks m) \<or> b = (addr, n) \<or> b = (addr + n, s - n) \<and> 0 < s - n"
      using that used by (auto simp: blocks_def m'_def split: if_splits)
    moreover have "in_region m (addr, n)" "in_region m (addr + n, s - n)" using in_region_sub[OF al(4)] le by auto
    ultimately show ?thesis using pool_invD(4)[OF inv, of b] n al by (auto simp: dvd_diff_nat)
  qed
  have "um_wf (mp_used_list m')" unfolding m'_def using pool_invD(5)[OF inv] by simp
  then have "pool_inv H m'" using pool_inv_change[OF inv _ _ cov _ sizes] by (simp add: m'_def)
  moreover have "(s, addr) \<in> set (mp_free_list m)" by (subst fl) simp
  ultimately show thesis using that t used le by (simp add: m'_def) blast
qed

lemma Free_ok:
  assumes inv: "pool_inv H m" and "um_find (mp_used_list m) a = Some n"
  obtains m' where "Free (Some a) m = Inr m'" and "pool_inv H m'" and "mp_used_list m' = um_erase a (mp_used_list m)"
    and "mp_total_allocated_size m' = mp_total_allocated_size m"
proof -
  define m' where "m' = m\<lparr>mp_used_list := um_erase a (mp_used_list m), mp_free_list := mm_emplace n a (mp_free_list m)\<rparr>"
  have mem: "(a, n) \<in> set (mp_used_list m)" using assms(2) by (rule map_of_SomeD)
  have "mset (map prod.swap (mm_emplace n a (mp_free_list m))) = mset ((a, n) # map prod.swap (mp_free_list m))" by simp
  from cover_mset[OF this] have cov: "cover (blocks m') x = cover (blocks m) x" for x
    using cover_erase[OF pool_invD(5)[OF inv] assms(2), of x] by (simp add: blocks_def m'_def)
  have "set (um_erase a (mp_used_list m)) \<subseteq> set (mp_used_list m)" by (auto simp: AList.delete_eq)
  then have "set (blocks m') \<subseteq> set (blocks m)" using mem by (auto simp: blocks_def m'_def)
  then have sizes: "0 < snd b \<and> 8 dvd fst b \<and> 8 dvd snd b \<and> in_region m b" if "b \<in> set (blocks m')" for b using pool_invD(4)[OF inv, of b] that by blast
  have "um_wf (mp_used_list m')" unfolding m'_def using pool_invD(5)[OF inv] by simp
  then have "pool_inv H m'" using pool_inv_change[OF inv _ _ cov _ sizes] by (simp add: m'_def)
  then show thesis using that assms(2) by (simp add: Free_def m'_def)
qed

lemma grow_size_sound: "grow_size n k = Some r \<Longrightarrow> n \<le> r \<and> (8 dvd k \<longrightarrow> 8 dvd r)"
proof (rule grow_size.raw_induct[where P = "\<lambda>n k r. n \<le> r \<and> (8 dvd k \<longrightarrow> 8 dvd r)"], goal_cases)
  case (1 f n k r)
  have "8 dvd k \<Longrightarrow> 8 dvd k * 2 mod 2 ^ 64" by (intro dvd_mod) auto
  then show ?case using 1 by (auto split: if_splits)
qed

lemma grow_size_returns: "0 < k \<Longrightarrow> n \<le> 2 ^ 63 \<Longrightarrow> \<exists>r. grow_size n k = Some r"
proof (induction "n - k" arbitrary: k rule: less_induct)
  case less
  show ?case
  proof (cases "k < n")
    case True
    then have "k * 2 < 2 ^ 64" using less.prems(2) by simp
    then have "k * 2 mod 2 ^ 64 = k * 2" by (rule mod_less)
    moreover have "n - k * 2 < n - k" using True less.prems(1) by simp
    ultimately obtain r where "grow_size n (k * 2 mod 2 ^ 64) = Some r" using less.hyps[of "k * 2"] less.prems by auto
    then show ?thesis using True by (subst grow_size.simps) (simp only: if_True simp_thms ex_simps option.inject)
  next
    case False
    then show ?thesis by (subst grow_size.simps) simp
  qed
qed

lemma align_ceil_bounds:
  assumes "n + 7 < 2 ^ 64"
  shows "n \<le> align_ceil n 8" and "8 dvd align_ceil n 8" and "align_ceil n 8 < n + 8"
proof -
  have "align_ceil n 8 = (n + 7) div 8 * 8" using assms by (simp add: align_ceil_def align_floor_def minus_mod_eq_div_mult)
  then show "n \<le> align_ceil n 8" "8 dvd align_ceil n 8" "align_ceil n 8 < n + 8" by presburger+
qed


context rdma_memory
begin

lemma Alloc_ok:
  assumes inv: "pool_inv (hp e) m" "0 < mp_total_allocated_size m" and n: "0 < n" "n + 7 < 2 ^ 64"
    and run: "Alloc vb n m e = Inr (r, m', e')"
  shows "pool_inv (hp e') m'" and "0 < mp_total_allocated_size m'" and "\<exists>a. r = Some a \<and> mp_used_list m' = mp_used_list m @ [(a, align_ceil n 8)]
      \<and> (\<forall>x \<in> {a..<a + n}. \<not> taken (hp e) m x)"
proof -
  let ?n = "align_ceil n 8"
  have n8: "0 < ?n" "8 dvd ?n" using align_ceil_bounds[OF n(2)] n(1) by auto
  obtain m1 e1 a where m1: "(if mm_from ?n (mp_free_list m) = []
      then (case grow_size ?n (mp_total_allocated_size m) of None \<Rightarrow> Inl NoReturn | Some k \<Rightarrow> add_region vb k m e) else Inr (m, e)) = Inr (m1, e1)"
    and t: "take_buffer ?n m1 = Inr (a, m')" "r = Some a" "e' = e1"
    using run n(1) by (auto simp: Alloc_def kAlignment_def Let_def)
  have ok: "pool_inv (hp e1) m1 \<and> 0 < mp_total_allocated_size m1 \<and> mp_used_list m1 = mp_used_list m
    \<and> (\<forall>(s, a) \<in> set (mp_free_list m1). (s, a) \<in> set (mp_free_list m) \<or> {a..<a + s} \<inter> hp e = {})"
  proof (cases "mm_from ?n (mp_free_list m) = []")
    case True
    then obtain k where k: "grow_size ?n (mp_total_allocated_size m) = Some k" "add_region vb k m e = Inr (m1, e1)"
      using m1 by (auto split: option.splits)
    have "0 < k" "8 dvd k" using grow_size_sound[OF k(1)] pool_invD(9)[OF inv(1)] n8 by auto
    note add = add_region_ok[OF inv(1) this k(2)]
    obtain p where p: "set (mp_free_list m1) = insert (k, p) (set (mp_free_list m))" "{p..<p + k} \<inter> hp e = {}" using add(6) by blast
    have "\<forall>(s, a) \<in> set (mp_free_list m1). (s, a) \<in> set (mp_free_list m) \<or> {a..<a + s} \<inter> hp e = {}" unfolding p(1) using p(2) by auto
    then show ?thesis using add(1,2,5) by (intro conjI)
  qed (use m1 inv in auto)
  have ne: "mm_from ?n (mp_free_list m1) \<noteq> []" using t(1) by (auto simp: take_buffer_def)
  obtain a' m2 where b: "take_buffer ?n m1 = Inr (a', m2)" "pool_inv (hp e1) m2" "mp_used_list m2 = mp_used_list m1 @ [(a', ?n)]"
    "mp_total_allocated_size m2 = mp_total_allocated_size m1" "\<exists>s \<ge> ?n. (s, a') \<in> set (mp_free_list m1)"
    by (rule take_buffer_ok[OF conjunct1[OF ok] n8 ne])
  have m': "a' = a" "m2 = m'" using t(1) b(1) by auto
  obtain s where s: "?n \<le> s" "(s, a') \<in> set (mp_free_list m1)" using b(5) by blast
  have or: "(s, a) \<in> set (mp_free_list m) \<or> {a..<a + s} \<inter> hp e = {}" using ok s(2) m' by blast
  have "\<not> taken (hp e) m x" if "x \<in> {a..<a + n}" for x
  proof
    assume x: "taken (hp e) m x"
    have le: "a \<le> x" "x < a + s" using that s(1) align_ceil_bounds(1)[OF n(2)] by auto
    have "x \<in> {a..<a + s} \<inter> hp e" using x le by (auto simp: taken_def)
    then have "(s, a) \<in> set (mp_free_list m)" using or by blast
    then show False using taken_free[OF x _ le(1)] le(2) by fastforce
  qed
  then show "pool_inv (hp e') m'" "0 < mp_total_allocated_size m'" "\<exists>a. r = Some a \<and> mp_used_list m' = mp_used_list m @ [(a, align_ceil n 8)]
      \<and> (\<forall>x \<in> {a..<a + n}. \<not> taken (hp e) m x)"
    using t(2,3) b(2-4) ok unfolding m' by auto
qed

lemma Alloc_defined:
  assumes inv: "pool_inv (hp e) m" "0 < mp_total_allocated_size m" and n: "0 < n" "n \<le> 2 ^ 63"
  shows "(\<exists>a m' e'. Alloc vb n m e = Inr (Some a, m', e')) \<or> Alloc vb n m e \<in> {Inl (Check ''p''), Inl (Check ''mr = ibv_reg_mr'')}"
proof -
  let ?n = "align_ceil n 8"
  have n7: "n + 7 < 2 ^ 64" using n(2) by simp
  have n8: "0 < ?n" "8 dvd ?n" using align_ceil_bounds[OF n7] n(1) by auto
  have small: "?n \<le> 2 ^ 63" 
  proof -
    obtain q where "?n = 8 * q" using n8(2) by (rule dvdE)
    then show ?thesis using align_ceil_bounds(3)[OF n7] n(2) by simp
  qed
  have taken: "\<exists>a m'. take_buffer ?n m1 = Inr (a, m')" if "pool_inv (hp e1) m1" "mm_from ?n (mp_free_list m1) \<noteq> []" for m1 e1
    using take_buffer_ok[OF that(1) n8 that(2)] by metis
  show ?thesis
  proof (cases "mm_from ?n (mp_free_list m) = []")
    case False
    then show ?thesis using taken[OF inv(1)] n(1) by (auto simp: Alloc_def kAlignment_def Let_def)
  next
    case True
    obtain k where k: "grow_size ?n (mp_total_allocated_size m) = Some k" using grow_size_returns[OF inv(2) small] by blast
    have k8: "0 < k" "8 dvd k" "?n \<le> k" using grow_size_sound[OF k] pool_invD(9)[OF inv(1)] n8 by auto
    have err: "add_region vb k m e = Inl x \<Longrightarrow> x = Check ''p'' \<or> x = Check ''mr = ibv_reg_mr''" for x
      by (auto simp: add_region_def split: prod.splits option.splits)
    show ?thesis
    proof (cases "add_region vb k m e")
      case (Inl x)
      then show ?thesis using err True k n(1) by (auto simp: Alloc_def kAlignment_def Let_def)
    next
      case (Inr y)
      obtain m1 e1 where y: "y = (m1, e1)" by (cases y)
      note add = add_region_ok[OF inv(1) k8(1,2) Inr[unfolded y]]
      obtain p where "(k, p) \<in> set (mp_free_list m1)" using add(4) by blast
      then have "mm_from ?n (mp_free_list m1) \<noteq> []" using k8(3) by (fastforce simp: mm_from_def dropWhile_eq_Nil_conv)
      then show ?thesis using taken[OF add(1)] True k Inr y n(1) by (auto simp: Alloc_def kAlignment_def Let_def)
    qed
  qed
qed

end


section \<open>Use of the pool\<close>

text \<open>Any sequence of allocations and releases; \<open>live\<close> are the buffers the client holds, with the sizes it
  asked for.\<close>

inductive pool_run :: "'e Verbs \<Rightarrow> Mempool \<Rightarrow> 'e \<Rightarrow> (nat \<times> nat) list \<Rightarrow> bool" for vb where
  create: "SimpleMempool vb 0x1000000 e = Inr (m, e') \<Longrightarrow> pool_run vb m e' []"
| alloc: "pool_run vb m e live \<Longrightarrow> n + 7 < 2 ^ 64 \<Longrightarrow> Alloc vb n m e = Inr (Some a, m', e') \<Longrightarrow> pool_run vb m' e' (live @ [(a, n)])"
| release: "pool_run vb m e live \<Longrightarrow> a \<in> fst ` set live \<Longrightarrow> Free (Some a) m = Inr m' \<Longrightarrow>
    pool_run vb m' e (filter (\<lambda>b. fst b \<noteq> a) live)"

definition holds :: "(nat \<times> nat) list \<Rightarrow> Mempool \<Rightarrow> bool" where
  "holds live m \<longleftrightarrow> list_all2 (\<lambda>b c. fst b = fst c \<and> 0 < snd b \<and> snd b \<le> snd c) live (mp_used_list m)"

lemma holds_mem: "holds live m \<Longrightarrow> (a, n) \<in> set live \<Longrightarrow> 0 < n \<and> (\<exists>s. (a, s) \<in> set (mp_used_list m) \<and> n \<le> s)"
  unfolding holds_def by (force simp: list_all2_conv_all_nth in_set_conv_nth)

lemma all2_filter:
  "list_all2 (\<lambda>b c. fst b = fst c \<and> P b c) xs ys \<Longrightarrow>
    list_all2 (\<lambda>b c. fst b = fst c \<and> P b c) (filter (\<lambda>b. fst b \<noteq> a) xs) (AList.delete a ys)"
  by (induction rule: list_all2_induct) auto

lemma cover_distinct: "b \<in> set bs \<Longrightarrow> c \<in> set bs \<Longrightarrow> b \<noteq> c \<Longrightarrow> inside x b = 1 \<Longrightarrow> inside x c = 1 \<Longrightarrow> 2 \<le> cover bs x"
proof (induction bs)
  case (Cons d bs)
  then show ?case using cover_mem[of b bs x] cover_mem[of c bs x] by auto
qed simp

context rdma_memory
begin

lemma pool_run_ok: "pool_run vb m e live \<Longrightarrow> pool_inv (hp e) m \<and> 0 < mp_total_allocated_size m \<and> holds live m"
proof (induction rule: pool_run.induct)
  case (create e m e')
  let ?m = "\<lparr>mp_free_list = [], mp_used_list = [], mp_mr_list = [], mp_total_allocated_size = 0\<rparr>"
  have inv: "pool_inv (hp e) ?m" by (simp add: pool_inv_def blocks_def regions_def)
  have add: "add_region vb 0x1000000 ?m e = Inr (m, e')" using create by (simp add: SimpleMempool_def)
  have n: "(0::nat) < 0x1000000" "(8::nat) dvd 0x1000000" by simp_all
  show ?case using add_region_ok(1,2,5)[OF inv n add] by (simp add: holds_def)
next
  case (alloc m e live n a m' e')
  have n: "0 < n" using alloc.hyps(3) by (cases n) (simp_all add: Alloc_def)
  have IH: "pool_inv (hp e) m" "0 < mp_total_allocated_size m" "holds live m" using alloc.IH by auto
  note ok = Alloc_ok[OF IH(1,2) n alloc.hyps(2,3)]
  then have "mp_used_list m' = mp_used_list m @ [(a, align_ceil n 8)]" by simp
  then have "holds (live @ [(a, n)]) m'" using IH(3) n align_ceil_bounds(1)[OF alloc.hyps(2)]
    unfolding holds_def by (auto intro!: list_all2_appendI)
  then show ?case using ok by blast
next
  case (release m e live a m')
  then obtain s where "(a, s) \<in> set (mp_used_list m)" using holds_mem by fastforce
  then obtain s' where s: "um_find (mp_used_list m) a = Some s'" using weak_map_of_SomeI by fastforce
  obtain m'' where "Free (Some a) m = Inr m''" "pool_inv (hp e) m''" "mp_used_list m'' = um_erase a (mp_used_list m)"
    "mp_total_allocated_size m'' = mp_total_allocated_size m" using Free_ok[OF _ s] release.IH by blast
  then show ?case using release by (auto simp: holds_def intro: all2_filter)
qed

lemma Addr2MR_live:
  assumes run: "pool_run vb m e live" and live: "(a, n) \<in> set live"
  shows "\<exists>k mr. (k, mr) \<in> set (mp_mr_list m) \<and> Addr2MR a m = Inr mr
    \<and> (mr_addr mr \<le> a \<and> a + n \<le> mr_addr mr + mr_length mr \<longleftrightarrow> a \<notin> fst ` set (mp_mr_list m))"
proof -
  have inv: "pool_inv (hp e) m" and h: "holds live m" using pool_run_ok[OF run] by auto
  obtain s where s: "(a, s) \<in> set (mp_used_list m)" "n \<le> s" and n: "0 < n" using holds_mem[OF h live] by blast
  then obtain z r where r: "(z, r) \<in> set (mp_mr_list m)" "mr_addr r \<le> a" "a + s \<le> mr_addr r + mr_length r"
    using pool_invD(4)[OF inv, of "(a, s)"] by (auto simp: in_region_def regions_def blocks_def)
  have e: "z = mr_addr r + mr_length r" using pool_invD(7)[OF inv r(1)] by blast
  have "mm_from a (mp_mr_list m) \<noteq> []" using r e by (fastforce simp: mm_from_def dropWhile_eq_Nil_conv)
  then obtain k mr rest where c: "mm_from a (mp_mr_list m) = (k, mr) # rest" by (cases "mm_from a (mp_mr_list m)") auto
  have mem: "(k, mr) \<in> set (mp_mr_list m)" using c by (metis list.set_intros(1) mm_from_def set_dropWhileD)
  have k: "k = mr_addr mr + mr_length mr" "0 < mr_length mr" using pool_invD(7)[OF inv mem] by blast+
  have spl: "mm_before a (mp_mr_list m) @ (k, mr) # rest = mp_mr_list m" using mm_split[of a "mp_mr_list m"] unfolding c .
  have spl_set: "x \<in> set (mm_before a (mp_mr_list m)) \<or> x \<in> set ((k, mr) # rest)" if "x \<in> set (mp_mr_list m)" for x
    using that arg_cong[OF spl, of set] by auto
  have low: "fst x < a" if "x \<in> set (mm_before a (mp_mr_list m))" for x using that by (auto simp: mm_before_def dest: set_takeWhileD)
  have "sorted (map fst (mm_before a (mp_mr_list m) @ (k, mr) # rest))" unfolding spl by (rule pool_invD(6)[OF inv])
  then have high: "k \<le> fst x" if "x \<in> set ((k, mr) # rest)" for x using that by (auto simp: sorted_append)
  have ge: "a \<le> k" using mm_from_Cons[OF c] by simp
  show ?thesis
  proof (cases "k = a")
    case True
    then have "a \<in> fst ` set (mp_mr_list m)" using mem by force
    then show ?thesis using mem c k n True by (intro exI[of _ k] exI[of _ mr]) (simp add: Addr2MR_def)
  next
    case False
    have keys: "a \<notin> fst ` set (mp_mr_list m)"
    proof
      assume "a \<in> fst ` set (mp_mr_list m)"
      then obtain x where x: "x \<in> set (mp_mr_list m)" "fst x = a" by auto
      then show False using spl_set[OF x(1)] low[of x] high[of x] False ge by linarith
    qed
    have "\<not> z < a" using r(3) e by linarith
    then have "k \<le> z" using spl_set[OF r(1)] low[of "(z, r)"] high[of "(z, r)"] by auto
    have "(mr_addr mr, mr_length mr) = (mr_addr r, mr_length r)"
    proof (rule ccontr)
      assume ne: "(mr_addr mr, mr_length mr) \<noteq> (mr_addr r, mr_length r)"
      have i: "inside (k - 1) (mr_addr mr, mr_length mr) = 1" "inside (k - 1) (mr_addr r, mr_length r) = 1"
        using k r(2) e \<open>k \<le> z\<close> False ge by (auto simp: inside_def)
      have "(mr_addr mr, mr_length mr) \<in> set (regions m)" "(mr_addr r, mr_length r) \<in> set (regions m)" using mem r(1) by (force simp: regions_def)+
      from cover_distinct[OF this ne i] show False using pool_invD(3)[OF inv, of "k - 1"] by simp
    qed
    then show ?thesis using mem c keys r s(2) by (intro exI[of _ k] exI[of _ mr]) (simp add: Addr2MR_def)
  qed
qed

end

section \<open>An allocator\<close>

text \<open>A system that hands out memory upwards without gaps, in units of eight bytes.\<close>

definition bump :: "nat Verbs" where
  "bump = \<lparr>vb_aligned_alloc = (\<lambda>_ n k. if 8 * (k + 1) + n \<le> 2 ^ 64 then (Some (8 * (k + 1)), k + (n + 7) div 8) else (None, k)),
     vb_reg_mr = (\<lambda>p n k. (Some \<lparr>mr_addr = p, mr_length = n, mr_lkey = p, mr_rkey = p\<rparr>, k)),
     vb_dereg_mr = (\<lambda>_ k. (0, k)), vb_free = (\<lambda>_ k. k)\<rparr>"

interpretation bump: rdma_memory bump "\<lambda>k. {..<8 * (k + 1)}"
proof unfold_locales
  fix n e p e'
  assume a: "vb_aligned_alloc bump 8 n e = (Some p, e')" "0 < n"
  then have "p = 8 * (e + 1)" "e' = e + (n + 7) div 8" "p + n \<le> 2 ^ 64" by (auto simp: bump_def split: if_splits)
  then show "0 < p \<and> 8 dvd p \<and> p + n \<le> 2 ^ 64 \<and> {p..<p + n} \<inter> {..<8 * (e + 1)} = {} \<and> {..<8 * (e + 1)} \<union> {p..<p + n} \<subseteq> {..<8 * (e' + 1)}"
    by auto
qed (auto simp: bump_def)

section \<open>Properties\<close>

text \<open>C12: The pool hands out memory safely.  After any sequence of allocations and releases no address lies in
  two of the buffers a client holds, each of them is aligned and lies in one registered region, each
  can be given back, the next allocation of up to half the address space either succeeds or stops at
  the check for memory from the system, and the used and the free buffers together still cover
  exactly the registered memory: nothing is lost.\<close>

theorem mempool_safe:
  assumes "rdma_memory vb hp" and "pool_run vb m e live"
  shows "(\<forall>x. cover live x \<le> 1) \<and> (\<forall>b \<in> set live. 8 dvd fst b \<and> in_region m b \<and> (\<exists>m'. Free (Some (fst b)) m = Inr m'))
    \<and> (\<forall>n. 0 < n \<and> n \<le> 2 ^ 63 \<longrightarrow> (\<exists>a m' e'. Alloc vb n m e = Inr (Some a, m', e'))
        \<or> Alloc vb n m e \<in> {Inl (Check ''p''), Inl (Check ''mr = ibv_reg_mr'')})
    \<and> (\<forall>x. cover (blocks m) x = cover (regions m) x)"
proof -
  have inv: "pool_inv (hp e) m" "0 < mp_total_allocated_size m" and h: "holds live m"
    using rdma_memory.pool_run_ok[OF assms] by auto
  have "cover live x \<le> cover (mp_used_list m) x" for x
    using h by (intro cover_all2) (auto simp: holds_def elim: list_all2_mono)
  moreover have "cover (mp_used_list m) x \<le> 1" for x using pool_invD(1,3)[OF inv(1), of x] by (simp add: blocks_def)
  ultimately have apart: "cover live x \<le> 1" for x using order.trans by blast
  have live: "8 dvd fst b \<and> in_region m b \<and> (\<exists>m'. Free (Some (fst b)) m = Inr m')" if b: "b \<in> set live" for b
  proof -
    obtain s where s: "(fst b, s) \<in> set (mp_used_list m)" "snd b \<le> s" using holds_mem[OF h, of "fst b" "snd b"] b by auto
    have "8 dvd fst b" "in_region m (fst b, s)" using pool_invD(4)[OF inv(1), of "(fst b, s)"] s(1) by (auto simp: blocks_def)
    moreover have "um_find (mp_used_list m) (fst b) = Some s" using s(1) pool_invD(5)[OF inv(1)] by simp
    ultimately show ?thesis using in_region_sub[of m "(fst b, s)" b] s(2) by (simp add: Free_def)
  qed
  show ?thesis using apart live rdma_memory.Alloc_defined[OF assms(1) inv] pool_invD(1)[OF inv(1)] by blast
qed

text \<open>Two allocations, the release of the first, and an allocation the first region has no room for.\<close>

definition demo_mr :: "nat \<Rightarrow> ibv_mr" where
  "demo_mr p = \<lparr>mr_addr = p, mr_length = 16777216, mr_lkey = p, mr_rkey = p\<rparr>"

definition demo_pool :: Mempool where
  "demo_pool = \<lparr>mp_free_list = [(8, 8), (16777192, 32)], mp_used_list = [(16, 16), (16777224, 16777216)],
     mp_mr_list = [(16777224, demo_mr 8), (33554440, demo_mr 16777224)], mp_total_allocated_size = 33554432\<rparr>"

lemma demo_pool_run: "pool_run bump demo_pool 4194304 [(16, 16), (16777224, 16777216)]"
proof -
  let ?mr = "[(16777224, demo_mr 8)]"
  let ?m0 = "\<lparr>mp_free_list = [(16777216, 8)], mp_used_list = [], mp_mr_list = ?mr, mp_total_allocated_size = 16777216\<rparr>"
  let ?m1 = "?m0\<lparr>mp_free_list := [(16777208, 16)], mp_used_list := [(8, 8)]\<rparr>"
  let ?m2 = "?m0\<lparr>mp_free_list := [(16777192, 32)], mp_used_list := [(8, 8), (16, 16)]\<rparr>"
  let ?m3 = "?m0\<lparr>mp_free_list := [(8, 8), (16777192, 32)], mp_used_list := [(16, 16)]\<rparr>"
  note defs = Alloc_def take_buffer_def align_ceil_def align_floor_def kAlignment_def mm_from_def mm_before_def mm_emplace_def Let_def
  have 0: "pool_run bump ?m0 2097152 []"
    by (rule pool_run.create[where e = 0]) (simp add: SimpleMempool_def add_region_def bump_def kAlignment_def map_emplace_def mm_emplace_def demo_mr_def)
  have 1: "pool_run bump ?m1 2097152 ([] @ [(8, 5)])" by (rule pool_run.alloc[OF 0]) (simp_all add: defs)
  have 2: "pool_run bump ?m2 2097152 (([] @ [(8, 5)]) @ [(16, 16)])" by (rule pool_run.alloc[OF 1]) (simp_all add: defs)
  have 3: "pool_run bump ?m3 2097152 (filter (\<lambda>b. fst b \<noteq> 8) (([] @ [(8, 5)]) @ [(16, 16)]))"
    by (rule pool_run.release[OF 2]) (simp_all add: Free_def mm_emplace_def)
  have g: "grow_size 16777216 16777216 = Some 16777216" by (subst grow_size.simps) simp
  have "pool_run bump demo_pool 4194304 (filter (\<lambda>b. fst b \<noteq> 8) (([] @ [(8, 5)]) @ [(16, 16)]) @ [(16777224, 16777216)])"
    by (rule pool_run.alloc[OF 3]) (simp_all add: defs g add_region_def bump_def map_emplace_def demo_mr_def demo_pool_def)
  then show ?thesis by simp
qed

theorem mempool_safe_witness:
  "cover [(16, 16), (16777224, 16777216)] 20 \<le> 1 \<and> in_region demo_pool (16, 16)
    \<and> ((\<exists>a m' e'. Alloc bump 100 demo_pool 4194304 = Inr (Some a, m', e'))
      \<or> Alloc bump 100 demo_pool 4194304 \<in> {Inl (Check ''p''), Inl (Check ''mr = ibv_reg_mr'')})"
proof -
  have "0 < (100::nat) \<and> (100::nat) \<le> 2 ^ 63" by simp
  then show ?thesis using mempool_safe[OF bump.rdma_memory_axioms demo_pool_run] by auto
qed

text \<open>C39: The keys of a buffer are those of its region exactly when no region ends at its address.
  \<^verbatim>\<open>Addr2MR\<close> looks for the first region whose end is not below the address; for a buffer at the begin of
  a region that follows another one without a gap this is the region before it.\<close>

theorem mempool_keys_iff:
  assumes "rdma_memory vb hp" and "pool_run vb m e live" and "(a, n) \<in> set live"
  shows "\<exists>mr \<in> snd ` set (mp_mr_list m). LocalKey a m = Inr (mr_lkey mr) \<and> RemoteKey a m = Inr (mr_rkey mr)
    \<and> (mr_addr mr \<le> a \<and> a + n \<le> mr_addr mr + mr_length mr \<longleftrightarrow> a \<notin> fst ` set (mp_mr_list m))"
proof -
  obtain k mr where mr: "(k, mr) \<in> set (mp_mr_list m)" "Addr2MR a m = Inr mr"
    "mr_addr mr \<le> a \<and> a + n \<le> mr_addr mr + mr_length mr \<longleftrightarrow> a \<notin> fst ` set (mp_mr_list m)"
    using rdma_memory.Addr2MR_live[OF assms] by blast
  then have "mr \<in> snd ` set (mp_mr_list m)" by force
  then show ?thesis using mr by (intro bexI[of _ mr]) (simp_all add: LocalKey_def RemoteKey_def)
qed

theorem mempool_keys_iff_witness:
  "LocalKey 16 demo_pool = Inr 8 \<and> LocalKey 16777224 demo_pool = Inr 8 \<and>
   (\<exists>mr \<in> {demo_mr 8, demo_mr 16777224}. LocalKey 16777224 demo_pool = Inr (mr_lkey mr) \<and> \<not> mr_addr mr + mr_length mr \<ge> 16777224 + 16777216)"
proof -
  have k: "LocalKey 16 demo_pool = Inr 8" "LocalKey 16777224 demo_pool = Inr 8"
    by (simp_all add: LocalKey_def Addr2MR_def mm_from_def demo_pool_def demo_mr_def)
  have mem: "(16777224, 16777216) \<in> set [(16, 16), (16777224, 16777216::nat)]" by simp
  show ?thesis using mempool_keys_iff[OF bump.rdma_memory_axioms demo_pool_run mem] k
    by (auto simp: demo_pool_def demo_mr_def)
qed

end
