(* ===== verification/Ps_AddressPool.thy ===== *)
theory Ps_AddressPool
  imports Ps_Prelude
begin

text \<open>
  \<^verbatim>\<open>AddressPool\<close> of \<^verbatim>\<open>src/ibverbs_van.h\<close>: a table of 512 pointers whose indices travel as the immediate
  data of a work request, with a queue of the free indices.
\<close>

section \<open>Operations\<close>

record 'a AddressPool =
  ap_indices :: "nat list"
  ap_table :: "'a option list"

definition kMaxEntries :: nat where
  "kMaxEntries = 512"

definition AddressPool_ctor :: "'a AddressPool" where
  "AddressPool_ctor = \<lparr>ap_indices = [0..<kMaxEntries], ap_table = replicate kMaxEntries None\<rparr>"

text \<open>An index beyond the table, and \<^verbatim>\<open>front\<close> of the empty queue, read outside of the object.\<close>

definition GetAddressAndRelease :: "nat \<Rightarrow> 'a AddressPool \<Rightarrow> ('a \<times> 'a AddressPool) res" where
  "GetAddressAndRelease index ap =
     (if length (ap_table ap) \<le> index then Inl OutOfBounds
      else case ap_table ap ! index of
        None \<Rightarrow> Inl (Check ''ptr'')
      | Some ptr \<Rightarrow> Inr (ptr, ap\<lparr>ap_indices := ap_indices ap @ [index], ap_table := (ap_table ap)[index := None]\<rparr>))"

definition StoreAddress :: "'a \<Rightarrow> 'a AddressPool \<Rightarrow> (nat \<times> 'a AddressPool) res" where
  "StoreAddress ptr ap = (case ap_indices ap of
      [] \<Rightarrow> Inl OutOfBounds
    | idx # rest \<Rightarrow>
        check (ap_table ap ! idx = None) ''table_[idx] == nullptr''
          (Inr (idx, ap\<lparr>ap_indices := rest, ap_table := (ap_table ap)[idx := Some ptr]\<rparr>)))"

section \<open>Well-formed pools\<close>

definition ap_wf :: "'a AddressPool \<Rightarrow> bool" where
  "ap_wf ap \<longleftrightarrow> length (ap_table ap) = kMaxEntries \<and> distinct (ap_indices ap)
     \<and> set (ap_indices ap) = {i. i < kMaxEntries \<and> ap_table ap ! i = None}"

text \<open>What the pool stands for: the pointers by index.\<close>

definition stored :: "'a AddressPool \<Rightarrow> nat \<Rightarrow> 'a option" where
  "stored ap i = (if i < length (ap_table ap) then ap_table ap ! i else None)"

lemma ap_wf_ctor: "ap_wf AddressPool_ctor"
  by (auto simp: ap_wf_def AddressPool_ctor_def)

lemma GetAddressAndRelease_cases:
  assumes "ap_wf ap"
  shows "case stored ap i of None \<Rightarrow> \<exists>e. GetAddressAndRelease i ap = Inl e
    | Some x \<Rightarrow> \<exists>ap'. GetAddressAndRelease i ap = Inr (x, ap') \<and> ap_wf ap' \<and> stored ap' = (stored ap)(i := None)"
proof (cases "stored ap i")
  case None
  then show ?thesis by (auto simp: GetAddressAndRelease_def stored_def split: if_splits)
next
  case (Some x)
  then have i: "i < kMaxEntries" "ap_table ap ! i = Some x" using assms by (auto simp: stored_def ap_wf_def split: if_splits)
  define ap' where "ap' = ap\<lparr>ap_indices := ap_indices ap @ [i], ap_table := (ap_table ap)[i := None]\<rparr>"
  have "ap_wf ap'" using assms i by (auto simp: ap_wf_def ap'_def nth_list_update)
  moreover have "stored ap' = (stored ap)(i := None)" by (auto simp: stored_def ap'_def fun_eq_iff nth_list_update)
  ultimately show ?thesis using Some i assms by (auto simp: GetAddressAndRelease_def ap'_def ap_wf_def)
qed

lemma StoreAddress_cases:
  assumes "ap_wf ap"
  shows "if dom (stored ap) = {..<kMaxEntries} then StoreAddress x ap = Inl OutOfBounds
    else \<exists>i ap'. StoreAddress x ap = Inr (i, ap') \<and> i < kMaxEntries \<and> stored ap i = None \<and> ap_wf ap' \<and> stored ap' = (stored ap)(i \<mapsto> x)"
proof (cases "ap_indices ap")
  case Nil
  then have "\<forall>i < kMaxEntries. ap_table ap ! i \<noteq> None" using assms by (auto simp: ap_wf_def)
  then have "dom (stored ap) = {..<kMaxEntries}" using assms by (auto simp: stored_def ap_wf_def split: if_splits)
  then show ?thesis using Nil by (simp add: StoreAddress_def)
next
  case (Cons i rest)
  then have i: "i < kMaxEntries" "ap_table ap ! i = None" "i \<notin> set rest" using assms by (auto simp: ap_wf_def)
  define ap' where "ap' = ap\<lparr>ap_indices := rest, ap_table := (ap_table ap)[i := Some x]\<rparr>"
  have "set rest = {j. j < kMaxEntries \<and> ap_table ap ! j = None} - {i}" using assms Cons by (auto simp: ap_wf_def)
  then have "ap_wf ap'" using assms i Cons by (auto simp: ap_wf_def ap'_def nth_list_update)
  moreover have "stored ap' = (stored ap)(i \<mapsto> x)" using i(1) assms by (auto simp: stored_def ap'_def fun_eq_iff nth_list_update ap_wf_def)
  moreover have "i \<notin> dom (stored ap)" "stored ap i = None" using i by (auto simp: stored_def split: if_splits)
  ultimately show ?thesis using Cons i by (auto simp: StoreAddress_def ap'_def)
qed

section \<open>Histories\<close>

datatype 'a table_op = Store 'a | Fetch nat

fun run_ops :: "('a \<Rightarrow> 't \<Rightarrow> (nat \<times> 't) res) \<Rightarrow> (nat \<Rightarrow> 't \<Rightarrow> ('a \<times> 't) res) \<Rightarrow> 'a table_op list \<Rightarrow> 't \<Rightarrow> 't res" where
  "run_ops store fetch [] t = Inr t"
| "run_ops store fetch (Store x # ops) t = rbind (store x t) (\<lambda>(_, t'). run_ops store fetch ops t')"
| "run_ops store fetch (Fetch i # ops) t = rbind (fetch i t) (\<lambda>(_, t'). run_ops store fetch ops t')"

text \<open>The contract of a table of pointers: a store takes an index that holds nothing, a fetch empties its index.\<close>

locale pointer_table =
  fixes wf :: "'t \<Rightarrow> bool" and look :: "'t \<Rightarrow> nat \<Rightarrow> 'a option"
    and store :: "'a \<Rightarrow> 't \<Rightarrow> (nat \<times> 't) res" and fetch :: "nat \<Rightarrow> 't \<Rightarrow> ('a \<times> 't) res"
  assumes store_ok: "wf t \<Longrightarrow> store x t = Inr (i, t') \<Longrightarrow> look t i = None \<and> wf t' \<and> look t' = (look t)(i \<mapsto> x)"
    and fetch_ok: "wf t \<Longrightarrow> look t i = Some x \<Longrightarrow> \<exists>t'. fetch i t = Inr (x, t') \<and> wf t' \<and> look t' = (look t)(i := None)"
    and fetch_none: "wf t \<Longrightarrow> look t i = None \<Longrightarrow> \<exists>e. fetch i t = Inl e"
begin

lemma fetch_Inr: "wf t \<Longrightarrow> fetch i t = Inr (x, t') \<Longrightarrow> look t i = Some x \<and> wf t' \<and> look t' = (look t)(i := None)"
  using fetch_ok[of t i] fetch_none[of t i] by (cases "look t i") fastforce+

lemma run_wf: "wf t \<Longrightarrow> run_ops store fetch ops t = Inr t' \<Longrightarrow> wf t'"
proof (induction ops arbitrary: t)
  case (Cons op ops)
  then show ?case by (cases op) (auto dest: store_ok fetch_Inr)
qed simp

text \<open>A pointer stays under its index until this index is fetched, whatever else happens.\<close>

lemma kept: "wf t \<Longrightarrow> look t i = Some x \<Longrightarrow> Fetch i \<notin> set ops \<Longrightarrow> run_ops store fetch ops t = Inr t' \<Longrightarrow> look t' i = Some x"
proof (induction ops arbitrary: t)
  case (Cons op ops)
  show ?case
  proof (cases op)
    case (Store y)
    then obtain j t1 where s: "store y t = Inr (j, t1)" "run_ops store fetch ops t1 = Inr t'" using Cons.prems(4) by auto
    have "look t j = None" "wf t1" "look t1 = (look t)(j \<mapsto> y)" using store_ok[OF Cons.prems(1) s(1)] by auto
    then show ?thesis using Cons.IH[of t1] Cons.prems s(2) by (cases "i = j") auto
  next
    case (Fetch j)
    then obtain y t1 where s: "fetch j t = Inr (y, t1)" "run_ops store fetch ops t1 = Inr t'" using Cons.prems(4) by auto
    have "wf t1" "look t1 = (look t)(j := None)" using fetch_Inr[OF Cons.prems(1) s(1)] by auto
    then show ?thesis using Cons.IH[of t1] Cons.prems s(2) Fetch by auto
  qed
qed simp

lemma fetched: "wf t \<Longrightarrow> store x t = Inr (i, t1) \<Longrightarrow> run_ops store fetch ops t1 = Inr t2 \<Longrightarrow> Fetch i \<notin> set ops \<Longrightarrow>
    \<exists>t3. fetch i t2 = Inr (x, t3)"
  using store_ok[of t x i t1] kept[of t1 i x ops t2] run_wf[of t1 ops t2] fetch_ok[of t2 i x] by auto

end

interpretation ap: pointer_table ap_wf stored StoreAddress GetAddressAndRelease
proof unfold_locales
  fix t :: "'a AddressPool" and x i t'
  assume wf: "ap_wf t"
  show "StoreAddress x t = Inr (i, t') \<Longrightarrow> stored t i = None \<and> ap_wf t' \<and> stored t' = (stored t)(i \<mapsto> x)"
    using StoreAddress_cases[OF wf, of x] by (auto split: if_splits)
  show "stored t i = Some x \<Longrightarrow> \<exists>t'. GetAddressAndRelease i t = Inr (x, t') \<and> ap_wf t' \<and> stored t' = (stored t)(i := None)"
    and "stored t i = None \<Longrightarrow> \<exists>e. GetAddressAndRelease i t = Inl e"
    using GetAddressAndRelease_cases[OF wf, of i] by auto
qed

text \<open>C23: The address pool is a table of at most 512 pointers.  After any history the pool is well-formed: its
  queue holds exactly the free indices, each once.  A store fails exactly when all 512 indices are in
  use; otherwise it takes an index below 512 that holds nothing, and a fetch of this index returns the
  pointer, whatever other indices were stored and fetched in between.\<close>

theorem address_pool_type:
  assumes "run_ops StoreAddress GetAddressAndRelease ops AddressPool_ctor = Inr ap"
  shows "ap_wf ap \<and> ((\<exists>e. StoreAddress x ap = Inl e) \<longleftrightarrow> dom (stored ap) = {..<kMaxEntries})
    \<and> (\<forall>i ap1 ops' ap2. StoreAddress x ap = Inr (i, ap1) \<and> run_ops StoreAddress GetAddressAndRelease ops' ap1 = Inr ap2 \<and> Fetch i \<notin> set ops'
         \<longrightarrow> i < kMaxEntries \<and> stored ap i = None \<and> (\<exists>ap3. GetAddressAndRelease i ap2 = Inr (x, ap3)))"
proof -
  have wf: "ap_wf ap" by (rule ap.run_wf[OF ap_wf_ctor assms])
  have "(\<exists>e. StoreAddress x ap = Inl e) \<longleftrightarrow> dom (stored ap) = {..<kMaxEntries}"
    and "StoreAddress x ap = Inr (i, ap1) \<Longrightarrow> i < kMaxEntries \<and> stored ap i = None" for i ap1
    using StoreAddress_cases[OF wf, of x] by (auto split: if_splits)
  then show ?thesis using wf ap.fetched[OF wf] by blast
qed

theorem address_pool_type_witness:
  "\<exists>ap i ap1 ap2 ap3. run_ops StoreAddress GetAddressAndRelease [Store ''a'', Store ''b'', Fetch 0] AddressPool_ctor = Inr ap
    \<and> ap_wf ap \<and> StoreAddress ''c'' ap = Inr (i, ap1) \<and> run_ops StoreAddress GetAddressAndRelease [Fetch 1, Store ''d''] ap1 = Inr ap2
    \<and> GetAddressAndRelease i ap2 = Inr (''c'', ap3)"
proof -
  let ?run = "run_ops StoreAddress GetAddressAndRelease"
  have k: "0 < kMaxEntries" "1 < kMaxEntries" "2 < kMaxEntries" "3 < kMaxEntries" by (simp_all add: kMaxEntries_def)
  have idx: "[0..<kMaxEntries] = 0 # 1 # 2 # 3 # [4..<kMaxEntries]" using k by (simp add: upt_conv_Cons eval_nat_numeral)
  let ?tab = "(replicate kMaxEntries None)[0 := Some ''a'', 1 := Some ''b'', 0 := None]"
  let ?ap = "\<lparr>ap_indices = (2 # 3 # [4..<kMaxEntries]) @ [0], ap_table = ?tab\<rparr>"
  let ?ap1 = "\<lparr>ap_indices = (3 # [4..<kMaxEntries]) @ [0], ap_table = ?tab[2 := Some ''c'']\<rparr>"
  have ap: "?run [Store ''a'', Store ''b'', Fetch 0] AddressPool_ctor = Inr ?ap"
    unfolding AddressPool_ctor_def idx using k by (simp add: StoreAddress_def GetAddressAndRelease_def nth_list_update)
  have ap1: "StoreAddress ''c'' ?ap = Inr (2, ?ap1)" using k by (simp add: StoreAddress_def nth_list_update)
  have ap2: "\<exists>ap2. ?run [Fetch 1, Store ''d''] ?ap1 = Inr ap2"
    using k by (simp add: GetAddressAndRelease_def StoreAddress_def nth_list_update)
  have "Fetch 2 \<notin> set [Fetch 1, Store ''d'']" by simp
  then show ?thesis using address_pool_type[OF ap, of "''c''"] ap ap1 ap2 by blast
qed

end
