(* ===== verification/Ps_IbvVan.thy ===== *)
theory Ps_IbvVan
  imports Ps_Mempool Ps_AddressPool Ps_Wire Ps_Queue
begin

unbundle bit_operations_syntax

text \<open>
  The ibverbs van, \<^verbatim>\<open>IBVerbsVan\<close> of \<^verbatim>\<open>src/ibverbs_van.h\<close>: connections, and messages by rendezvous.  The sender
  announces the sizes of a message (START), the receiver answers with a buffer and its key (REPLY), and
  the sender writes header and data into this buffer.

  The verbs and connection manager libraries are the functions of a record.  Objects made by \<^verbatim>\<open>new\<close> are
  kept in maps by number, memory is a function from addresses to bytes.  A call that waits on an empty
  queue is the value \<open>NoReturn\<close>.
\<close>

section \<open>Data\<close>

definition kStartDepth :: nat where "kStartDepth = 128"

definition kWriteDepth :: nat where "kWriteDepth = kStartDepth"

definition kRxDepth :: nat where "kRxDepth = kStartDepth * 2"

definition kReplyDepth :: nat where "kReplyDepth = kRxDepth"

definition kMaxDataFields :: nat where "kMaxDataFields = 4"

definition kMaxHostnameLength :: nat where "kMaxHostnameLength = 16"

text \<open>The larger of the sizes of \<^verbatim>\<open>RendezvousStart\<close> and \<^verbatim>\<open>RendezvousReply\<close>.\<close>

definition kMempoolChunkSize :: nat where "kMempoolChunkSize = max (8 + 8 + 8 * kMaxDataFields + 8) (8 + 8 + 4 + 4)"

definition kRendezvousStart :: nat where "kRendezvousStart = 0"

definition kRendezvousReply :: nat where "kRendezvousReply = 1"

record RendezvousStart =
  st_meta_len :: nat
  st_data_num :: nat
  st_data_len :: "nat list"
  st_origin_addr :: nat

record RendezvousReply =
  rp_addr :: nat
  rp_origin_addr :: nat
  rp_rkey :: nat
  rp_idx :: nat

datatype WRContextType = kRendezvousStartContext | kRendezvousReplyContext | kWriteContext | kReceiveContext

text \<open>A context is found by its endpoint, its type and its place in the array of the endpoint.\<close>

type_synonym ctx_ref = "nat \<times> WRContextType \<times> nat"

record BufferContext =
  bc_buffer :: nat
  bc_meta_len :: nat
  bc_data_num :: nat
  bc_data_len :: "nat list"

text \<open>Data parts are segments of memory, address and length.\<close>

record MessageBuffer =
  mb_inline_len :: nat
  mb_inline_buf :: nat
  mb_reserved_context :: nat
  mb_data :: "(nat \<times> nat) list"
  mb_mrs :: "(ibv_mr \<times> nat) list"

record IbvMessage =
  im_meta :: Meta
  im_data :: "(nat \<times> nat) list"

record RequestContext =
  rq_node :: nat
  rq_port :: nat
  rq_hostname :: string

datatype ConnectionStatus = IDLE | CONNECTING | CONNECTED | REJECTED

record Endpoint =
  ep_status :: ConnectionStatus
  ep_node_id :: int
  ep_cm_id :: "nat option"
  ep_free_start_ctx :: "nat list"
  ep_free_reply_ctx :: "nat list"
  ep_free_write_ctx :: "nat list"
  ep_write_buf :: "(nat, nat) um"

text \<open>What a work request carries: a message with immediate data, or a write of gathered segments,
  each with address, length and key; the lengths are 32-bit numbers.\<close>

datatype Chunk = CStart RendezvousStart | CReply RendezvousReply

datatype WR = WRSend ctx_ref nat Chunk | WRWrite ctx_ref nat "(nat \<times> nat \<times> nat) list" nat nat

datatype WCOp = WcSend | WcRdmaWrite | WcRecvRdmaWithImm nat | WcRecv bool nat Chunk | WcOther

record WC =
  wc_success :: bool
  wc_ctx :: ctx_ref
  wc_opcode :: WCOp

record 'e Rdma =
  rd_vb :: "'e Verbs"
  rd_post_send :: "nat \<Rightarrow> WR \<Rightarrow> 'e \<Rightarrow> int \<times> 'e"
  rd_post_recv :: "nat \<Rightarrow> ctx_ref \<Rightarrow> 'e \<Rightarrow> int \<times> 'e"
  rd_create_qp :: "nat \<Rightarrow> 'e \<Rightarrow> int \<times> 'e"
  rd_destroy_qp :: "nat \<Rightarrow> 'e \<Rightarrow> 'e"
  rd_create_id :: "'e \<Rightarrow> nat option \<times> 'e"
  rd_destroy_id :: "nat \<Rightarrow> 'e \<Rightarrow> int \<times> 'e"
  rd_getaddrinfo :: "string \<Rightarrow> int \<Rightarrow> 'e \<Rightarrow> int \<times> 'e"
  rd_resolve_addr :: "nat \<Rightarrow> string \<Rightarrow> int \<Rightarrow> 'e \<Rightarrow> int \<times> 'e"
  rd_resolve_route :: "nat \<Rightarrow> 'e \<Rightarrow> int \<times> 'e"
  rd_connect :: "nat \<Rightarrow> RequestContext \<Rightarrow> 'e \<Rightarrow> int \<times> 'e"
  rd_accept :: "nat \<Rightarrow> RequestContext \<Rightarrow> 'e \<Rightarrow> int \<times> 'e"
  rd_bind_addr :: "nat \<Rightarrow> int \<Rightarrow> 'e \<Rightarrow> int \<times> 'e"
  rd_listen :: "nat \<Rightarrow> 'e \<Rightarrow> int \<times> 'e"
  rd_rand :: "'e \<Rightarrow> int \<times> 'e"
  rd_alloc_pd :: "'e \<Rightarrow> bool \<times> 'e"
  rd_create_cq :: "'e \<Rightarrow> bool \<times> 'e"
  rd_req_notify_cq :: "'e \<Rightarrow> int \<times> 'e"

record 'e Ibv =
  ib_addr_pool :: "BufferContext AddressPool"
  ib_mempool :: "Mempool option"
  ib_eps :: "(nat, Endpoint) um"
  ib_next :: nat
  ib_endpoints :: "(int, nat) um"
  ib_incoming :: "nat list"
  ib_id_context :: "(nat, nat) um"
  ib_listener :: "nat option"
  ib_allocated_mr :: "(nat, ibv_mr) um"
  ib_bufs :: "(nat, MessageBuffer) um"
  ib_recv_buffers :: "(nat \<times> BufferContext) list"
  ib_context :: bool
  ib_cq_polling :: bool
  ib_mem :: "nat \<Rightarrow> byte"
  ib_env :: 'e

definition IBVerbsVan_init :: "(nat \<Rightarrow> byte) \<Rightarrow> 'e \<Rightarrow> 'e Ibv" where
  "IBVerbsVan_init mem e = \<lparr>ib_addr_pool = AddressPool_ctor, ib_mempool = None, ib_eps = [], ib_next = 1, ib_endpoints = [],
     ib_incoming = [], ib_id_context = [], ib_listener = None, ib_allocated_mr = [], ib_bufs = [], ib_recv_buffers = [],
     ib_context = False, ib_cq_polling = False, ib_mem = mem, ib_env = e\<rparr>"

section \<open>Memory\<close>

definition mput :: "nat \<Rightarrow> byte list \<Rightarrow> (nat \<Rightarrow> byte) \<Rightarrow> nat \<Rightarrow> byte" where
  "mput a bs mem = (\<lambda>x. if a \<le> x \<and> x < a + length bs then bs ! (x - a) else mem x)"

definition mget :: "(nat \<Rightarrow> byte) \<Rightarrow> nat \<times> nat \<Rightarrow> byte list" where
  "mget mem s = map mem [fst s..<fst s + snd s]"

text \<open>\<^verbatim>\<open>int\<close> from a \<^verbatim>\<open>size_t\<close>.\<close>

definition to_int :: "nat \<Rightarrow> int" where
  "to_int n = sint (of_nat n :: 32 word)"

section \<open>Contexts\<close>

definition Endpoint_ctor :: Endpoint where
  "Endpoint_ctor = \<lparr>ep_status = IDLE, ep_node_id = kEmpty, ep_cm_id = None, ep_free_start_ctx = [], ep_free_reply_ctx = [],
     ep_free_write_ctx = [], ep_write_buf = []\<rparr>"

text \<open>A registered buffer for every context; \<open>put\<close> is the queue the contexts are pushed to.\<close>

fun InitSendContextHelper :: "'e Rdma \<Rightarrow> nat \<Rightarrow> nat \<Rightarrow> nat list \<Rightarrow> 'e \<Rightarrow> (nat list \<times> 'e) res" where
  "InitSendContextHelper rd i 0 queue e = Inr (queue, e)"
| "InitSendContextHelper rd i (Suc num) queue e = (case vb_aligned_alloc (rd_vb rd) kAlignment kMempoolChunkSize e of
      (None, _) \<Rightarrow> Inl (Check ''buf'')
    | (Some buf, e1) \<Rightarrow>
        (case vb_reg_mr (rd_vb rd) buf kMempoolChunkSize e1 of
           (None, _) \<Rightarrow> Inl (Check ''mr'')
         | (Some mr, e2) \<Rightarrow> InitSendContextHelper rd (Suc i) num (tq_Push i queue) e2))"

definition PostRecv :: "'e Rdma \<Rightarrow> nat \<Rightarrow> ctx_ref \<Rightarrow> 'e \<Rightarrow> 'e res" where
  "PostRecv rd ep ctx e = (let (rc, e1) = rd_post_recv rd ep ctx e in check (rc = 0) ''ibv_post_recv failed.'' (Inr e1))"

fun init_rx :: "'e Rdma \<Rightarrow> nat \<Rightarrow> nat \<Rightarrow> nat \<Rightarrow> 'e \<Rightarrow> 'e res" where
  "init_rx rd ep i 0 e = Inr e"
| "init_rx rd ep i (Suc num) e = (case vb_aligned_alloc (rd_vb rd) kAlignment kMempoolChunkSize e of
      (None, _) \<Rightarrow> Inl (Check ''buf'')
    | (Some buf, e1) \<Rightarrow>
        (case vb_reg_mr (rd_vb rd) buf kMempoolChunkSize e1 of
           (None, _) \<Rightarrow> Inl (Check ''mr'')
         | (Some mr, e2) \<Rightarrow> rbind (PostRecv rd ep (ep, kReceiveContext, i) e2) (init_rx rd ep (Suc i) num)))"

definition with_ep :: "nat \<Rightarrow> 'e Ibv \<Rightarrow> (Endpoint \<Rightarrow> 'a res) \<Rightarrow> 'a res" where
  "with_ep ep s f = (case um_find (ib_eps s) ep of None \<Rightarrow> Inl NullPointer | Some p \<Rightarrow> f p)"

definition set_ep :: "nat \<Rightarrow> Endpoint \<Rightarrow> 'e Ibv \<Rightarrow> 'e Ibv" where
  "set_ep ep p s = s\<lparr>ib_eps := um_set ep p (ib_eps s)\<rparr>"

definition Endpoint_Init :: "'e Rdma \<Rightarrow> nat \<Rightarrow> 'e Ibv \<Rightarrow> 'e Ibv res" where
  "Endpoint_Init rd ep s = with_ep ep s (\<lambda>p.
     let (rc, e1) = rd_create_qp rd ep (ib_env s) in
     check (rc = 0) ''Create RDMA queue pair failed''
      (rbind (InitSendContextHelper rd 0 kStartDepth (ep_free_start_ctx p) e1) (\<lambda>(starts, e2).
       rbind (InitSendContextHelper rd 0 kReplyDepth (ep_free_reply_ctx p) e2) (\<lambda>(replies, e3).
       rbind (InitSendContextHelper rd 0 kWriteDepth (ep_free_write_ctx p) e3) (\<lambda>(writes, e4).
       rbind (init_rx rd ep 0 kRxDepth e4) (\<lambda>e5.
         Inr (set_ep ep (p\<lparr>ep_free_start_ctx := starts, ep_free_reply_ctx := replies, ep_free_write_ctx := writes\<rparr>)
               (s\<lparr>ib_env := e5\<rparr>))))))))"

definition ReleaseWorkRequestContext :: "'e Rdma \<Rightarrow> ctx_ref \<Rightarrow> 'e Ibv \<Rightarrow> 'e Ibv res" where
  "ReleaseWorkRequestContext rd ctx s = (case ctx of (ep, typ, i) \<Rightarrow> with_ep ep s (\<lambda>p. case typ of
      kRendezvousStartContext \<Rightarrow> Inr (set_ep ep (p\<lparr>ep_free_start_ctx := tq_Push i (ep_free_start_ctx p)\<rparr>) s)
    | kRendezvousReplyContext \<Rightarrow> Inr (set_ep ep (p\<lparr>ep_free_reply_ctx := tq_Push i (ep_free_reply_ctx p)\<rparr>) s)
    | kWriteContext \<Rightarrow> Inr (set_ep ep (p\<lparr>ep_free_write_ctx := tq_Push i (ep_free_write_ctx p)\<rparr>) s)
    | kReceiveContext \<Rightarrow> rbind (PostRecv rd ep ctx (ib_env s)) (\<lambda>e. Inr (s\<lparr>ib_env := e\<rparr>))))"

definition post_send :: "'e Rdma \<Rightarrow> nat \<Rightarrow> WR \<Rightarrow> 'e Ibv \<Rightarrow> 'e Ibv res" where
  "post_send rd ep wr s = (let (rc, e1) = rd_post_send rd ep wr (ib_env s) in
     check (rc = 0) ''ibv_post_send failed.'' (Inr (s\<lparr>ib_env := e1\<rparr>)))"

definition pool_alloc :: "'e Rdma \<Rightarrow> nat \<Rightarrow> 'e Ibv \<Rightarrow> (nat option \<times> 'e Ibv) res" where
  "pool_alloc rd n s = (case ib_mempool s of
      None \<Rightarrow> Inl NullPointer
    | Some m \<Rightarrow> rbind (Alloc (rd_vb rd) n m (ib_env s)) (\<lambda>(a, m', e'). Inr (a, s\<lparr>ib_mempool := Some m', ib_env := e'\<rparr>)))"

definition pool_free :: "nat option \<Rightarrow> 'e Ibv \<Rightarrow> 'e Ibv res" where
  "pool_free a s = (case ib_mempool s of
      None \<Rightarrow> Inl NullPointer
    | Some m \<Rightarrow> rbind (Free a m) (\<lambda>m'. Inr (s\<lparr>ib_mempool := Some m'\<rparr>)))"

section \<open>Sending\<close>

text \<open>The data of a control message follow its header.\<close>

fun copy_parts :: "nat \<Rightarrow> (nat \<times> nat) list \<Rightarrow> (nat \<Rightarrow> byte) \<Rightarrow> nat \<Rightarrow> byte" where
  "copy_parts cur [] mem = mem"
| "copy_parts cur (sa # sas) mem = copy_parts (cur + snd sa) sas (mput cur (mget mem sa) mem)"

text \<open>Data of other messages are registered where they are, once per address.\<close>

fun register_parts :: "'e Rdma \<Rightarrow> (nat \<times> nat) list \<Rightarrow> (nat, ibv_mr) um \<Rightarrow> 'e \<Rightarrow> ((ibv_mr \<times> nat) list \<times> (nat, ibv_mr) um \<times> 'e) res" where
  "register_parts rd [] mrs e = Inr ([], mrs, e)"
| "register_parts rd ((p, n) # sas) mrs e =
     (if n = 0 then register_parts rd sas mrs e
      else let (mr, e1) = (case um_find mrs p of Some mr \<Rightarrow> (Some mr, e) | None \<Rightarrow> vb_reg_mr (rd_vb rd) p n e) in
        (case mr of
           None \<Rightarrow> Inl (Check ''Invalid memory region'')
         | Some r \<Rightarrow> rbind (register_parts rd sas (um_set p r mrs) e1) (\<lambda>(rs, mrs', e'). Inr ((r, n) # rs, mrs', e'))))"

definition fill_buffer ::
  "'e Rdma \<Rightarrow> byte list \<Rightarrow> IbvMessage \<Rightarrow> 'e Ibv \<Rightarrow> (MessageBuffer \<times> 'e Ibv) res" where
  "fill_buffer rd meta_buf msg s =
     (let meta_len = length meta_buf;
          total_len = (meta_len + nat (m_data_size (im_meta msg) mod 2 ^ 64)) mod 2 ^ 64 in
      if \<not> Control_empty (m_control (im_meta msg))
      then rbind (pool_alloc rd total_len s) (\<lambda>(a, s1). case a of
             None \<Rightarrow> Inl NullPointer
           | Some buf \<Rightarrow>
               Inr (\<lparr>mb_inline_len = total_len, mb_inline_buf = buf, mb_reserved_context = 0, mb_data = [], mb_mrs = []\<rparr>,
                    s1\<lparr>ib_mem := copy_parts (buf + meta_len) (im_data msg) (mput buf meta_buf (ib_mem s1))\<rparr>))
      else rbind (pool_alloc rd meta_len s) (\<lambda>(a, s1). case a of
             None \<Rightarrow> Inl NullPointer
           | Some buf \<Rightarrow>
               let s2 = s1\<lparr>ib_mem := mput buf meta_buf (ib_mem s1)\<rparr> in
               rbind (register_parts rd (im_data msg) (ib_allocated_mr s2) (ib_env s2)) (\<lambda>(mrs, cache, e').
                 Inr (\<lparr>mb_inline_len = meta_len, mb_inline_buf = buf, mb_reserved_context = 0, mb_data = im_data msg, mb_mrs = mrs\<rparr>,
                      s2\<lparr>ib_allocated_mr := cache, ib_env := e'\<rparr>))))"

text \<open>The two contexts a message needs; the second one is taken first.\<close>

definition take_contexts :: "nat \<Rightarrow> 'e Ibv \<Rightarrow> (nat \<times> nat \<times> 'e Ibv) res" where
  "take_contexts ep s = with_ep ep s (\<lambda>p.
     case tq_WaitAndPop (ep_free_write_ctx p) of None \<Rightarrow> Inl NoReturn | Some (reserved, ws) \<Rightarrow>
     (case tq_WaitAndPop (ep_free_start_ctx p) of None \<Rightarrow> Inl NoReturn | Some (ctx, ss) \<Rightarrow>
        Inr (reserved, ctx, set_ep ep (p\<lparr>ep_free_write_ctx := ws, ep_free_start_ctx := ss\<rparr>) s)))"

definition IBVerbsVan_SendMsg ::
  "'e Rdma \<Rightarrow> (PBMeta \<Rightarrow> byte list option) \<Rightarrow> IbvMessage \<Rightarrow> 'e Ibv \<Rightarrow> (int \<times> 'e Ibv) res" where
  "IBVerbsVan_SendMsg rd ser msg s =
     (let remote_id = m_recver (im_meta msg) in
      check (remote_id \<noteq> kEmpty) ''remote_id != Meta::kEmpty''
     (case ser (PackMetaPB (im_meta msg) PBMeta_init) of
        None \<Rightarrow> Inl (Check ''IsInitialized'')
      | Some meta_buf \<Rightarrow>
     (case um_find (ib_endpoints s) remote_id of
        None \<Rightarrow> Inl (Check ''endpoints_.find(remote_id) != endpoints_.end()'')
      | Some ep \<Rightarrow>
      check (meta_buf \<noteq> []) ''meta_len''
     (rbind (fill_buffer rd meta_buf msg s) (\<lambda>(buf, s1).
      rbind (take_contexts ep s1) (\<lambda>(reserved, ctx, s2).
      if kMaxDataFields < length (im_data msg) then Inl OutOfBounds
      else let msg_buf = ib_next s2;
               req = \<lparr>st_meta_len = length meta_buf, st_data_num = length (im_data msg),
                      st_data_len = map snd (im_data msg), st_origin_addr = msg_buf\<rparr>;
               s3 = s2\<lparr>ib_next := Suc msg_buf, ib_bufs := um_set msg_buf (buf\<lparr>mb_reserved_context := reserved\<rparr>) (ib_bufs s2)\<rparr> in
        rbind (post_send rd ep (WRSend (ep, kRendezvousStartContext, ctx) kRendezvousStart (CStart req)) s3) (\<lambda>s4.
          Inr (to_int (length meta_buf + nat (m_data_size (im_meta msg) mod 2 ^ 64)), s4))))))))"

section \<open>Completions\<close>

text \<open>START at the receiver: a buffer for the message is allocated and answered.\<close>

definition on_start :: "'e Rdma \<Rightarrow> nat \<Rightarrow> RendezvousStart \<Rightarrow> 'e Ibv \<Rightarrow> 'e Ibv res" where
  "on_start rd ep req s =
     (if kMaxDataFields < st_data_num req then Inl OutOfBounds
      else let lens = take (st_data_num req) (st_data_len req);
               len = (st_meta_len req + sum_list lens) mod 2 ^ 64 in
       rbind (pool_alloc rd len s) (\<lambda>(a, s1). case a of
           None \<Rightarrow> Inl (Check ''buffer'')
         | Some buffer \<Rightarrow>
       with_ep ep s1 (\<lambda>p. case tq_WaitAndPop (ep_free_reply_ctx p) of None \<Rightarrow> Inl NoReturn | Some (reply_ctx, rs) \<Rightarrow>
       (case ib_mempool s1 of None \<Rightarrow> Inl NullPointer | Some m \<Rightarrow>
       rbind (RemoteKey buffer m) (\<lambda>rkey.
       rbind (StoreAddress \<lparr>bc_buffer = buffer, bc_meta_len = st_meta_len req, bc_data_num = st_data_num req, bc_data_len = lens\<rparr>
                (ib_addr_pool s1)) (\<lambda>(idx, ap).
         post_send rd ep (WRSend (ep, kRendezvousReplyContext, reply_ctx) kRendezvousReply
             (CReply \<lparr>rp_addr = buffer, rp_origin_addr = st_origin_addr req, rp_rkey = rkey, rp_idx = idx\<rparr>))
           ((set_ep ep (p\<lparr>ep_free_reply_ctx := rs\<rparr>) s1)\<lparr>ib_addr_pool := ap\<rparr>)))))))"

text \<open>REPLY at the sender: header and data are written to the buffer of the receiver.\<close>

definition on_reply :: "'e Rdma \<Rightarrow> nat \<Rightarrow> RendezvousReply \<Rightarrow> 'e Ibv \<Rightarrow> 'e Ibv res" where
  "on_reply rd ep resp s = (case um_find (ib_bufs s) (rp_origin_addr resp) of
      None \<Rightarrow> Inl NullPointer
    | Some buf \<Rightarrow>
       (case ib_mempool s of None \<Rightarrow> Inl NullPointer | Some m \<Rightarrow>
        rbind (LocalKey (mb_inline_buf buf) m) (\<lambda>lkey.
        rbind (rmap (\<lambda>(mr, n). check (n \<noteq> 0) ''length'' (Inr (mr_addr mr, n mod 2 ^ 32, mr_lkey mr))) (mb_mrs buf)) (\<lambda>sges.
        with_ep ep s (\<lambda>p.
          post_send rd ep (WRWrite (ep, kWriteContext, mb_reserved_context buf) (rp_idx resp)
              ((mb_inline_buf buf, mb_inline_len buf mod 2 ^ 32, lkey) # sges) (rp_addr resp) (rp_rkey resp))
            (set_ep ep (p\<lparr>ep_write_buf := um_set (mb_reserved_context buf) (rp_origin_addr resp) (ep_write_buf p)\<rparr>) s))))))"

definition on_rdma_write :: "ctx_ref \<Rightarrow> 'e Ibv \<Rightarrow> 'e Ibv res" where
  "on_rdma_write ctx s = (case ctx of (ep, _, i) \<Rightarrow> with_ep ep s (\<lambda>p.
     case um_find (ep_write_buf p) i of None \<Rightarrow> Inl Uninitialised | Some msg_buf \<Rightarrow>
     (case um_find (ib_bufs s) msg_buf of None \<Rightarrow> Inl NullPointer | Some buf \<Rightarrow>
        rbind (pool_free (Some (mb_inline_buf buf)) s) (\<lambda>s1. Inr (s1\<lparr>ib_bufs := um_erase msg_buf (ib_bufs s1)\<rparr>)))))"

definition on_recv_rdma :: "nat \<Rightarrow> nat \<Rightarrow> 'e Ibv \<Rightarrow> 'e Ibv res" where
  "on_recv_rdma ep addr_idx s = rbind (GetAddressAndRelease addr_idx (ib_addr_pool s)) (\<lambda>(buf_ctx, ap).
     Inr (s\<lparr>ib_addr_pool := ap, ib_recv_buffers := tq_Push (ep, buf_ctx) (ib_recv_buffers s)\<rparr>))"

text \<open>The body of the loop of \<^verbatim>\<open>PollCQ\<close> for one completion.\<close>

definition PollCQ_step :: "'e Rdma \<Rightarrow> WC \<Rightarrow> 'e Ibv \<Rightarrow> 'e Ibv res" where
  "PollCQ_step rd wc s =
     check (wc_success wc) ''wc[i].status == IBV_WC_SUCCESS''
      (let ctx = wc_ctx wc; ep = fst ctx in
       rbind (case wc_opcode wc of
           WcSend \<Rightarrow> Inr s
         | WcRdmaWrite \<Rightarrow> on_rdma_write ctx s
         | WcRecvRdmaWithImm idx \<Rightarrow> on_recv_rdma ep idx s
         | WcRecv with_imm imm chunk \<Rightarrow>
             check with_imm ''wc[i].wc_flags & IBV_WC_WITH_IMM''
              (case chunk of
                 CStart req \<Rightarrow> if imm = kRendezvousStart then on_start rd ep req s else Inl (Check ''0'')
               | CReply resp \<Rightarrow> if imm = kRendezvousReply then on_reply rd ep resp s else Inl (Check ''0''))
         | WcOther \<Rightarrow> Inl (Check ''Unexpected opcode'')) (ReleaseWorkRequestContext rd ctx))"

section \<open>Receiving\<close>

text \<open>The data parts of a message, one after the other in the buffer; lengths are read as 32 bits.\<close>

fun data_parts :: "nat \<Rightarrow> nat list \<Rightarrow> (nat \<times> nat) list" where
  "data_parts cur [] = []"
| "data_parts cur (n # ns) = (cur, n mod 2 ^ 32) # data_parts (cur + n mod 2 ^ 32) ns"

text \<open>The message, the block its parts share, if there are any, and the number of bytes.\<close>

definition IBVerbsVan_RecvMsg ::
  "(byte list \<Rightarrow> PBMeta option) \<Rightarrow> Node \<Rightarrow> Meta \<Rightarrow> 'e Ibv \<Rightarrow> (int \<times> IbvMessage \<times> Block option \<times> 'e Ibv) res" where
  "IBVerbsVan_RecvMsg parse me meta s = (case tq_WaitAndPop (ib_recv_buffers s) of
      None \<Rightarrow> Inl NoReturn
    | Some ((ep, ctx), rest) \<Rightarrow>
        with_ep ep s (\<lambda>p.
        rbind (UnpackMeta parse (mget (ib_mem s) (bc_buffer ctx, bc_meta_len ctx)) (meta\<lparr>m_recver := n_id me, m_sender := ep_node_id p\<rparr>)) (\<lambda>meta'.
          let s1 = s\<lparr>ib_recv_buffers := rest\<rparr>;
              parts = data_parts (bc_buffer ctx + bc_meta_len ctx) (take (bc_data_num ctx) (bc_data_len ctx)) in
          if 0 < bc_data_num ctx
          then Inr (to_int (bc_meta_len ctx + sum_list (map snd parts)), \<lparr>im_meta = meta', im_data = parts\<rparr>,
                    Some \<lparr>bl_addr = bc_buffer ctx, bl_counter = int (bc_data_num ctx)\<rparr>, s1)
          else rbind (pool_free (Some (bc_buffer ctx)) s1) (\<lambda>s2.
                 Inr (to_int (bc_meta_len ctx), \<lparr>im_meta = meta', im_data = []\<rparr>, None, s2)))))"

section \<open>Connections\<close>

text \<open>The objects of the first connection.\<close>

definition InitContext :: "'e Rdma \<Rightarrow> 'e Ibv \<Rightarrow> 'e Ibv res" where
  "InitContext rd s = (let (pd, e1) = rd_alloc_pd rd (ib_env s) in
     check pd ''Failed to allocate protection domain''
      (rbind (SimpleMempool (rd_vb rd) 0x1000000 e1) (\<lambda>(m, e2).
        let (cq, e3) = rd_create_cq rd e2; (rc, e4) = rd_req_notify_cq rd e3 in
        check cq ''Failed to create completion queue'' (check (rc = 0) ''Failed to request CQ notification''
          (Inr (s\<lparr>ib_context := True, ib_mempool := Some m, ib_env := e4\<rparr>))))))"

definition request_context :: "Node \<Rightarrow> RequestContext" where
  "request_context me = \<lparr>rq_node = nat (n_id me mod 2 ^ 32), rq_port = nat (n_port me mod 2 ^ 16),
     rq_hostname = take (kMaxHostnameLength - 1) (n_hostname me)\<rparr>"

fun ibv_bind_loop :: "'e Rdma \<Rightarrow> nat \<Rightarrow> nat \<Rightarrow> int \<Rightarrow> 'e \<Rightarrow> int \<times> 'e" where
  "ibv_bind_loop rd lid 0 port e = (let (rc, e1) = rd_bind_addr rd lid (port mod 2 ^ 16) e in (if rc = 0 then port else -1, e1))"
| "ibv_bind_loop rd lid (Suc left) port e = (let (rc, e1) = rd_bind_addr rd lid (port mod 2 ^ 16) e in
     if rc = 0 then (port, e1)
     else let (r, e2) = rd_rand rd e1 in ibv_bind_loop rd lid left (10000 + r mod 40000) e2)"

definition IBVerbsVan_Bind :: "'e Rdma \<Rightarrow> Node \<Rightarrow> nat \<Rightarrow> 'e Ibv \<Rightarrow> (int \<times> 'e Ibv) res" where
  "IBVerbsVan_Bind rd node max_retry s = (case rd_create_id rd (ib_env s) of
      (None, _) \<Rightarrow> Inl (Check ''Create RDMA connection identifier failed'')
    | (Some lid, e1) \<Rightarrow>
        let (port, e2) = ibv_bind_loop rd lid max_retry (n_port node) e1;
            (rc, e3) = rd_listen rd lid e2 in
        check (rc = 0) ''Listen RDMA connection failed'' (Inr (port, s\<lparr>ib_listener := Some lid, ib_env := e3\<rparr>)))"

text \<open>One round of the loop of \<^verbatim>\<open>Connect\<close>, up to the wait for the status to change.\<close>

definition Connect_try :: "'e Rdma \<Rightarrow> nat \<Rightarrow> Node \<Rightarrow> 'e Ibv \<Rightarrow> 'e Ibv res" where
  "Connect_try rd ep node s = with_ep ep s (\<lambda>p.
     rbind (case ep_cm_id p of
         None \<Rightarrow> Inr (ib_env s)
       | Some old \<Rightarrow> (let (rc, e1) = rd_destroy_id rd old (rd_destroy_qp rd old (ib_env s)) in check (rc = 0) ''rdma_destroy_id'' (Inr e1))) (\<lambda>e1.
     case rd_create_id rd e1 of
       (None, _) \<Rightarrow> Inl (Check ''Create RDMA connection identifier failed'')
     | (Some cm, e2) \<Rightarrow>
         let (rc, e3) = rd_resolve_addr rd cm (n_hostname node) (n_port node) e2 in
         check (rc = 0) ''Resolve RDMA address failed''
          (Inr (set_ep ep (p\<lparr>ep_status := CONNECTING, ep_cm_id := Some cm\<rparr>) (s\<lparr>ib_id_context := um_set cm ep (ib_id_context s), ib_env := e3\<rparr>)))))"

text \<open>The destructor of an endpoint; the registered buffers of its contexts, which it also frees, are not
  part of the state.\<close>

definition Endpoint_dtor :: "'e Rdma \<Rightarrow> nat \<Rightarrow> 'e Ibv \<Rightarrow> 'e Ibv res" where
  "Endpoint_dtor rd ep s = with_ep ep s (\<lambda>p. case ep_cm_id p of
      None \<Rightarrow> Inl NullPointer
    | Some cm \<Rightarrow> (let (rc, e1) = rd_destroy_id rd cm (rd_destroy_qp rd cm (ib_env s)) in
        check (rc = 0) ''rdma_destroy_id'' (Inr (s\<lparr>ib_eps := um_erase ep (ib_eps s), ib_env := e1\<rparr>))))"

text \<open>\<^verbatim>\<open>Connect\<close> up to the first wait; the result is the endpoint, if there is one to wait for.  When the wait
  ends with another status than \<open>CONNECTED\<close>, \<open>Connect_try\<close> runs again.\<close>

definition Connect_begin :: "'e Rdma \<Rightarrow> Node \<Rightarrow> Node \<Rightarrow> 'e Ibv \<Rightarrow> (nat option \<times> 'e Ibv) res" where
  "Connect_begin rd me node s =
     check (n_id node \<noteq> kEmpty) ''node.id != kEmpty'' (check (n_port node \<noteq> kEmpty) ''node.port != kEmpty''
     (check (n_hostname node \<noteq> []) ''node.hostname.size()''
      (if n_role node = n_role me \<and> n_id node \<noteq> n_id me then Inr (None, s)
       else rbind (case um_find (ib_endpoints s) (n_id node) of None \<Rightarrow> Inr s | Some old \<Rightarrow> Endpoint_dtor rd old s) (\<lambda>s0.
         let ep = ib_next s0;
             s1 = s0\<lparr>ib_next := Suc ep, ib_endpoints := um_set (n_id node) ep (ib_endpoints s0),
                     ib_eps := um_set ep (Endpoint_ctor\<lparr>ep_node_id := n_id node\<rparr>) (ib_eps s0)\<rparr>;
             (rc, e1) = rd_getaddrinfo rd (n_hostname node) (n_port node) (ib_env s1) in
         check (rc = 0) ''getaddrinfo'' (rbind (Connect_try rd ep node (s1\<lparr>ib_env := e1\<rparr>)) (\<lambda>s2. Inr (Some ep, s2)))))))"

definition Connect_next :: "'e Rdma \<Rightarrow> nat \<Rightarrow> Node \<Rightarrow> 'e Ibv \<Rightarrow> (nat option \<times> 'e Ibv) res" where
  "Connect_next rd ep node s = with_ep ep s (\<lambda>p. case ep_status p of
      CONNECTING \<Rightarrow> Inr (Some ep, s)
    | CONNECTED \<Rightarrow> Inr (None, s)
    | _ \<Rightarrow> rbind (Connect_try rd ep node s) (\<lambda>s1. Inr (Some ep, s1)))"

definition with_id :: "nat \<Rightarrow> 'e Ibv \<Rightarrow> (nat \<Rightarrow> 'a res) \<Rightarrow> 'a res" where
  "with_id cm s f = (case um_find (ib_id_context s) cm of None \<Rightarrow> Inl NullPointer | Some ep \<Rightarrow> f ep)"

definition OnRejected :: "nat \<Rightarrow> 'e Ibv \<Rightarrow> 'e Ibv res" where
  "OnRejected cm s = with_id cm s (\<lambda>ep. with_ep ep s (\<lambda>p.
     check (um_find (ib_endpoints s) (ep_node_id p) \<noteq> None) ''Connection not ready.''
      (check (ep_status p = CONNECTING) ''endpoint->status == CONNECTING''
       (check (ep_cm_id p = Some cm) ''endpoint->cm_id == id''
         (Inr (set_ep ep (p\<lparr>ep_status := REJECTED\<rparr>) s))))))"

text \<open>\<open>None\<close> stands for private data that are too short for a request context.\<close>

definition OnConnectRequest :: "'e Rdma \<Rightarrow> Node \<Rightarrow> nat \<Rightarrow> RequestContext option \<Rightarrow> 'e Ibv \<Rightarrow> 'e Ibv res" where
  "OnConnectRequest rd me cm private_data s = (case private_data of
      None \<Rightarrow> Inl (Check ''RequestContext size mismatch'')
    | Some remote \<Rightarrow>
      let ep = ib_next s;
          p = Endpoint_ctor\<lparr>ep_node_id := to_int (rq_node remote), ep_cm_id := Some cm\<rparr>;
          s1 = s\<lparr>ib_next := Suc ep, ib_incoming := ib_incoming s @ [ep], ib_eps := um_set ep p (ib_eps s),
                 ib_id_context := um_set cm ep (ib_id_context s)\<rparr> in
      rbind (if \<not> ib_context s1 then InitContext rd s1 else Inr s1) (\<lambda>s2.
      rbind (Endpoint_Init rd ep s2) (\<lambda>s3.
        let (rc, e) = rd_accept rd cm (request_context me) (ib_env s3) in
        check (rc = 0) ''Accept RDMA connection failed'' (Inr (s3\<lparr>ib_env := e\<rparr>)))))"

definition OnAddrResolved :: "'e Rdma \<Rightarrow> nat \<Rightarrow> 'e Ibv \<Rightarrow> 'e Ibv res" where
  "OnAddrResolved rd cm s = (let (rc, e) = rd_resolve_route rd cm (ib_env s) in
     check (rc = 0) ''Resolve RDMA route failed'' (Inr (s\<lparr>ib_env := e\<rparr>)))"

definition OnRouteResolved :: "'e Rdma \<Rightarrow> Node \<Rightarrow> nat \<Rightarrow> 'e Ibv \<Rightarrow> 'e Ibv res" where
  "OnRouteResolved rd me cm s = with_id cm s (\<lambda>ep.
     rbind (if \<not> ib_context s then InitContext rd s else Inr s) (\<lambda>s1.
     rbind (Endpoint_Init rd ep s1) (\<lambda>s2.
       let (rc, e) = rd_connect rd cm (request_context me) (ib_env s2) in
       check (rc = 0) ''RDMA connect failed'' (Inr (s2\<lparr>ib_env := e\<rparr>)))))"

definition OnConnected :: "nat \<Rightarrow> 'e Ibv \<Rightarrow> 'e Ibv res" where
  "OnConnected cm s = with_id cm s (\<lambda>ep. with_ep ep s (\<lambda>p.
     check (ep_cm_id p = Some cm) ''endpoint->cm_id == id''
       (Inr ((set_ep ep (p\<lparr>ep_status := CONNECTED\<rparr>) s)\<lparr>ib_cq_polling := True\<rparr>))))"

definition OnDisconnected :: "nat \<Rightarrow> 'e Ibv \<Rightarrow> 'e Ibv res" where
  "OnDisconnected cm s = with_id cm s (\<lambda>ep. with_ep ep s (\<lambda>p. Inr (set_ep ep (p\<lparr>ep_status := IDLE\<rparr>) s)))"

text \<open>The body of the loop of \<^verbatim>\<open>PollEvents\<close>; an event carries its identifier.\<close>

datatype CmEvent = CONNECT_REQUEST nat "RequestContext option" | ADDR_RESOLVED nat | ROUTE_RESOLVED nat
  | ESTABLISHED nat | DISCONNECTED nat | EVENT_REJECTED nat | EVENT_OTHER

definition PollEvents_step :: "'e Rdma \<Rightarrow> Node \<Rightarrow> CmEvent \<Rightarrow> 'e Ibv \<Rightarrow> 'e Ibv res" where
  "PollEvents_step rd me event s = (case event of
      CONNECT_REQUEST cm dat \<Rightarrow> OnConnectRequest rd me cm dat s
    | ADDR_RESOLVED cm \<Rightarrow> OnAddrResolved rd cm s
    | ROUTE_RESOLVED cm \<Rightarrow> OnRouteResolved rd me cm s
    | ESTABLISHED cm \<Rightarrow> OnConnected cm s
    | DISCONNECTED cm \<Rightarrow> OnDisconnected cm s
    | EVENT_REJECTED cm \<Rightarrow> OnRejected cm s
    | EVENT_OTHER \<Rightarrow> Inl (Check ''OnEvent: unknown event''))"

end
