(* ===== verification/Ps_IbvProps.thy ===== *)
theory Ps_IbvProps
  imports Ps_IbvVan
begin

text \<open>
  A message over the ibverbs van: from \<^verbatim>\<open>SendMsg\<close> through the completions at both nodes to \<^verbatim>\<open>RecvMsg\<close>.
\<close>

section \<open>Memory\<close>

lemma length_mget [simp]: "length (mget mem s) = snd s"
  by (simp add: mget_def)

lemma mget_mput_part: "mget (mput a (xs @ ys @ zs) mem) (a + length xs, length ys) = ys"
  by (rule nth_equalityI) (auto simp: mget_def mput_def nth_append)

lemma mget_mput_same [simp]: "mget (mput a bs mem) (a, length bs) = bs"
  using mget_mput_part[of a "[]" bs "[]" mem] by simp

lemma mget_mput_other: "(\<And>x. x \<in> {p..<p + n} \<Longrightarrow> x \<notin> {a..<a + length bs}) \<Longrightarrow> mget (mput a bs mem) (p, n) = mget mem (p, n)"
  by (auto simp: mget_def mput_def)

lemma data_parts_read:
  "\<forall>b \<in> set bss. length b < 2 ^ 32 \<Longrightarrow>
    map (mget (mput a (xs @ concat bss) mem)) (data_parts (a + length xs) (map length bss)) = bss"
proof (induction bss arbitrary: xs)
  case (Cons b bss)
  then show ?case using Cons.IH[of "xs @ b"] mget_mput_part[of a xs b "concat bss" mem] by (simp add: add.assoc)
qed simp

section \<open>The library\<close>

definition num_sge :: "WR \<Rightarrow> nat" where
  "num_sge wr = (case wr of WRSend _ _ _ \<Rightarrow> 1 | WRWrite _ _ sges _ _ \<Rightarrow> length sges)"

text \<open>A region with the memory of a segment.\<close>

definition covers :: "ibv_mr \<Rightarrow> nat \<Rightarrow> nat \<Rightarrow> bool" where
  "covers mr p n \<longleftrightarrow> mr_addr mr \<le> p \<and> p + n \<le> mr_addr mr + mr_length mr"

text \<open>Work requests of at most four segments are posted, memory can be registered, and a write whose
  segments have the keys of regions around them copies the gathered bytes.  \<open>posted\<close> are the work
  requests so far.  \<open>deliver L R wr\<close> is the memory of the remote node after \<open>wr\<close>, where \<open>L\<close> and \<open>R\<close> are the
  local and the remote regions.\<close>

locale rdma_library = rdma_memory "rd_vb rd" hp for rd :: "'e Rdma" and hp :: "'e \<Rightarrow> nat set" +
  fixes posted :: "'e \<Rightarrow> (nat \<times> WR) list" and deliver :: "ibv_mr set \<Rightarrow> ibv_mr set \<Rightarrow> WR \<Rightarrow> (nat \<Rightarrow> byte) \<Rightarrow> (nat \<Rightarrow> byte) \<Rightarrow> nat \<Rightarrow> byte"
  assumes post_send_ok: "num_sge wr \<le> 4 \<Longrightarrow> \<exists>e'. rd_post_send rd ep wr e = (0, e') \<and> posted e' = posted e @ [(ep, wr)] \<and> hp e' = hp e"
    and post_recv_ok: "\<exists>e'. rd_post_recv rd ep ctx e = (0, e') \<and> posted e' = posted e \<and> hp e' = hp e"
    and reg_mr_ok: "\<exists>mr e'. vb_reg_mr (rd_vb rd) p n e = (Some mr, e') \<and> posted e' = posted e"
    and alloc_posted: "posted (snd (vb_aligned_alloc (rd_vb rd) k n e)) = posted e"
    and deliver_write: "\<forall>(p, n, k) \<in> set sges. \<exists>mr \<in> L. mr_lkey mr = k \<and> covers mr p n \<Longrightarrow>
      \<exists>mr \<in> R. mr_rkey mr = rkey \<and> covers mr raddr (sum_list (map (\<lambda>(p, n, k). n) sges)) \<Longrightarrow>
      deliver L R (WRWrite ctx idx sges raddr rkey) lmem rmem = mput raddr (concat (map (\<lambda>(p, n, k). mget lmem (p, n)) sges)) rmem"
begin

lemma Alloc_posted: "Alloc (rd_vb rd) n m e = Inr (r, m', e') \<Longrightarrow> posted e' = posted e"
proof -
  have "add_region (rd_vb rd) k m e = Inr (m1, e1) \<Longrightarrow> posted e1 = posted e" for k m1 e1
  proof -
    assume "add_region (rd_vb rd) k m e = Inr (m1, e1)"
    then obtain p e2 mr where "vb_aligned_alloc (rd_vb rd) kAlignment k e = (Some p, e2)" "vb_reg_mr (rd_vb rd) p k e2 = (Some mr, e1)"
      by (auto simp: add_region_def split: prod.splits option.splits)
    then show ?thesis using alloc_posted[of kAlignment k e] reg_mr_ok[of p k e2] by auto
  qed
  then show "Alloc (rd_vb rd) n m e = Inr (r, m', e') \<Longrightarrow> posted e' = posted e"
    by (auto simp: Alloc_def Let_def split: if_splits option.splits)
qed

lemma register_parts_ok:
  assumes "\<forall>(p, n) \<in> set sas. \<forall>mr. um_find mrs p = Some mr \<longrightarrow> mr_addr mr = p \<and> n \<le> mr_length mr"
    and "distinct (map fst (filter (\<lambda>sa. snd sa \<noteq> 0) sas))"
  shows "\<exists>rs mrs' e'. register_parts rd sas mrs e = Inr (rs, mrs', e') \<and> hp e' = hp e \<and> posted e' = posted e
    \<and> map (\<lambda>(mr, n). (mr_addr mr, n)) rs = filter (\<lambda>sa. snd sa \<noteq> 0) sas
    \<and> (\<forall>(mr, n) \<in> set rs. um_find mrs' (mr_addr mr) = Some mr \<and> n \<le> mr_length mr)
    \<and> (\<forall>q mr. um_find mrs q = Some mr \<longrightarrow> um_find mrs' q = Some mr)"
  using assms
proof (induction sas arbitrary: mrs e)
  case (Cons sa sas)
  obtain p n where sa: "sa = (p, n)" by (cases sa)
  show ?case
  proof (cases "n = 0")
    case True
    then show ?thesis using Cons.IH[of mrs e] Cons.prems sa by simp
  next
    case False
    obtain r e1 where r: "(case um_find mrs p of Some mr \<Rightarrow> (Some mr, e) | None \<Rightarrow> vb_reg_mr (rd_vb rd) p n e) = (Some r, e1)"
      and e1: "hp e1 = hp e" "posted e1 = posted e" and ra: "mr_addr r = p" "n \<le> mr_length r"
    proof (cases "um_find mrs p")
      case None
      then show thesis using that reg_mr_ok[of p n e] reg_mr[of p n e] by fastforce
    next
      case (Some r)
      then show thesis using that Cons.prems(1) sa by simp
    qed
    have new: "\<forall>(q, k) \<in> set sas. \<forall>mr. um_find (um_set p r mrs) q = Some mr \<longrightarrow> mr_addr mr = q \<and> k \<le> mr_length mr"
    proof (clarify)
      fix q k mr
      assume q: "(q, k) \<in> set sas" "um_find (um_set p r mrs) q = Some mr"
      have "k = 0" if "q = p" using q(1) Cons.prems(2) sa False that by force
      then show "mr_addr mr = q \<and> k \<le> mr_length mr" using q Cons.prems(1) ra by (cases "q = p") auto
    qed
    have d: "distinct (map fst (filter (\<lambda>sa. snd sa \<noteq> 0) sas))" using Cons.prems(2) by (simp split: if_splits)
    obtain rs mrs' e' where IH: "register_parts rd sas (um_set p r mrs) e1 = Inr (rs, mrs', e')" "hp e' = hp e1" "posted e' = posted e1"
      "map (\<lambda>(mr, n). (mr_addr mr, n)) rs = filter (\<lambda>sa. snd sa \<noteq> 0) sas"
      "\<forall>(mr, n) \<in> set rs. um_find mrs' (mr_addr mr) = Some mr \<and> n \<le> mr_length mr"
      "\<forall>q mr. um_find (um_set p r mrs) q = Some mr \<longrightarrow> um_find mrs' q = Some mr"
      using Cons.IH[OF new d, of e1] by blast
    have r': "um_find mrs' p = Some r" using IH(6) by simp
    have keep: "\<forall>q mr. um_find mrs q = Some mr \<longrightarrow> um_find mrs' q = Some mr" 
    proof (intro allI impI)
      fix q mr
      assume "um_find mrs q = Some mr"
      then show "um_find mrs' q = Some mr" using IH(6) r by (cases "q = p") (auto split: option.splits)
    qed
    have reg: "register_parts rd (sa # sas) mrs e = Inr ((r, n) # rs, mrs', e')" using False r IH(1) by (simp add: sa)
    show ?thesis using reg IH(2-5) e1 ra r' False sa keep by (intro exI[of _ "(r, n) # rs"] exI[of _ mrs'] exI[of _ e']) simp
  qed
qed simp

lemma post_send_Inr:
  "num_sge wr \<le> 4 \<Longrightarrow> \<exists>e'. post_send rd ep wr s = Inr (s\<lparr>ib_env := e'\<rparr>) \<and> posted e' = posted (ib_env s) @ [(ep, wr)]"
  using post_send_ok[of wr ep "ib_env s"] by (auto simp: post_send_def)

lemma PostRecv_Inr: "\<exists>e'. PostRecv rd ep ctx e = Inr e' \<and> posted e' = posted e"
  using post_recv_ok[of ep ctx e] by (auto simp: PostRecv_def)

text \<open>A data message is announced: its header is in a buffer of the pool, its parts are registered.\<close>

lemma SendMsg_ok:
  assumes r: "m_recver (im_meta msg) \<noteq> kEmpty" and ser: "ser (PackMetaPB (im_meta msg) PBMeta_init) = Some meta_buf" "meta_buf \<noteq> []"
    and ep: "um_find (ib_endpoints a) (m_recver (im_meta msg)) = Some ep" "um_find (ib_eps a) ep = Some p"
      "ep_free_write_ctx p = w # ws" "ep_free_start_ctx p = c # cs"
    and dat: "Control_empty (m_control (im_meta msg))" "length (im_data msg) \<le> kMaxDataFields"
    and reg: "\<forall>(p, n) \<in> set (im_data msg). \<forall>mr. um_find (ib_allocated_mr a) p = Some mr \<longrightarrow> mr_addr mr = p \<and> n \<le> mr_length mr"
      "distinct (map fst (filter (\<lambda>sa. snd sa \<noteq> 0) (im_data msg)))"
    and pool: "ib_mempool a = Some m" "Alloc (rd_vb rd) (length meta_buf) m (ib_env a) = Inr (Some buf, m', e')"
  obtains n a1 mb where "IBVerbsVan_SendMsg rd ser msg a = Inr (n, a1)"
    and "posted (ib_env a1) = posted (ib_env a) @ [(ep, WRSend (ep, kRendezvousStartContext, c) kRendezvousStart
      (CStart \<lparr>st_meta_len = length meta_buf, st_data_num = length (im_data msg), st_data_len = map snd (im_data msg), st_origin_addr = ib_next a\<rparr>))]"
    and "ib_mempool a1 = Some m'" and "ib_mem a1 = mput buf meta_buf (ib_mem a)" and "um_find (ib_bufs a1) (ib_next a) = Some mb"
    and "mb_inline_len mb = length meta_buf" "mb_inline_buf mb = buf" "mb_reserved_context mb = w"
    and "map (\<lambda>(mr, n). (mr_addr mr, n)) (mb_mrs mb) = filter (\<lambda>sa. snd sa \<noteq> 0) (im_data msg)"
    and "\<forall>(mr, n) \<in> set (mb_mrs mb). mr \<in> ran (um_find (ib_allocated_mr a1)) \<and> n \<le> mr_length mr"
    and "um_find (ib_eps a1) ep = Some (p\<lparr>ep_free_write_ctx := ws, ep_free_start_ctx := cs\<rparr>)"
proof -
  obtain rs mrs' e1 where rp: "register_parts rd (im_data msg) (ib_allocated_mr a) e' = Inr (rs, mrs', e1)" "posted e1 = posted e'"
    "map (\<lambda>(mr, n). (mr_addr mr, n)) rs = filter (\<lambda>sa. snd sa \<noteq> 0) (im_data msg)"
    "\<forall>(mr, n) \<in> set rs. um_find mrs' (mr_addr mr) = Some mr \<and> n \<le> mr_length mr"
    using register_parts_ok[OF reg, of e'] by blast
  let ?mb = "\<lparr>mb_inline_len = length meta_buf, mb_inline_buf = buf, mb_reserved_context = 0, mb_data = im_data msg, mb_mrs = rs\<rparr>"
  let ?s1 = "a\<lparr>ib_mempool := Some m', ib_env := e1, ib_mem := mput buf meta_buf (ib_mem a), ib_allocated_mr := mrs'\<rparr>"
  have fill: "fill_buffer rd meta_buf msg a = Inr (?mb, ?s1)"
    using pool rp(1) dat(1) by (simp add: fill_buffer_def pool_alloc_def Let_def)
  let ?s2 = "set_ep ep (p\<lparr>ep_free_write_ctx := ws, ep_free_start_ctx := cs\<rparr>) ?s1"
  have take: "take_contexts ep ?s1 = Inr (w, c, ?s2)" using ep by (simp add: take_contexts_def with_ep_def tq_WaitAndPop_def)
  let ?s3 = "?s2\<lparr>ib_next := Suc (ib_next a), ib_bufs := um_set (ib_next a) (?mb\<lparr>mb_reserved_context := w\<rparr>) (ib_bufs a)\<rparr>"
  let ?wr = "WRSend (ep, kRendezvousStartContext, c) kRendezvousStart
      (CStart \<lparr>st_meta_len = length meta_buf, st_data_num = length (im_data msg), st_data_len = map snd (im_data msg), st_origin_addr = ib_next a\<rparr>)"
  obtain e2 where e2: "post_send rd ep ?wr ?s3 = Inr (?s3\<lparr>ib_env := e2\<rparr>)" "posted e2 = posted e1 @ [(ep, ?wr)]"
    using post_send_Inr[of ?wr ep ?s3] by (auto simp: num_sge_def set_ep_def)
  show thesis
  proof (rule that[of _ "?s3\<lparr>ib_env := e2\<rparr>" "?mb\<lparr>mb_reserved_context := w\<rparr>"])
    show "IBVerbsVan_SendMsg rd ser msg a = Inr (to_int (length meta_buf + nat (m_data_size (im_meta msg) mod 2 ^ 64)), ?s3\<lparr>ib_env := e2\<rparr>)"
      using r ser ep(1) dat(2) fill take e2(1) by (simp add: IBVerbsVan_SendMsg_def Let_def set_ep_def)
    show "posted (ib_env (?s3\<lparr>ib_env := e2\<rparr>)) = posted (ib_env a) @ [(ep, ?wr)]" using e2(2) rp(2) Alloc_posted[OF pool(2)] by simp
    show "\<forall>(mr, n) \<in> set (mb_mrs (?mb\<lparr>mb_reserved_context := w\<rparr>)). mr \<in> ran (um_find (ib_allocated_mr (?s3\<lparr>ib_env := e2\<rparr>))) \<and> n \<le> mr_length mr"
      using rp(4) by (auto simp: set_ep_def intro: ranI)
  qed (use rp(3) in \<open>simp_all add: set_ep_def\<close>)
qed

text \<open>START at the receiver.\<close>

lemma start_ok:
  assumes req: "st_data_num req \<le> kMaxDataFields" "length (st_data_len req) = st_data_num req"
    and pool: "ib_mempool b = Some m" "Alloc (rd_vb rd) ((st_meta_len req + sum_list (st_data_len req)) mod 2 ^ 64) m (ib_env b) = Inr (Some buf, m', e')"
    and ep: "um_find (ib_eps b) ep = Some p" "ep_free_reply_ctx p = r # rs"
    and key: "RemoteKey buf m' = Inr rkey"
    and store: "StoreAddress \<lparr>bc_buffer = buf, bc_meta_len = st_meta_len req, bc_data_num = st_data_num req, bc_data_len = st_data_len req\<rparr>
      (ib_addr_pool b) = Inr (idx, ap)"
  obtains b1 where "PollCQ_step rd \<lparr>wc_success = True, wc_ctx = (ep, kReceiveContext, j), wc_opcode = WcRecv True kRendezvousStart (CStart req)\<rparr> b = Inr b1"
    and "posted (ib_env b1) = posted (ib_env b) @ [(ep, WRSend (ep, kRendezvousReplyContext, r) kRendezvousReply
      (CReply \<lparr>rp_addr = buf, rp_origin_addr = st_origin_addr req, rp_rkey = rkey, rp_idx = idx\<rparr>))]"
    and "ib_mempool b1 = Some m'" and "ib_addr_pool b1 = ap" and "ib_mem b1 = ib_mem b" and "ib_recv_buffers b1 = ib_recv_buffers b"
    and "um_find (ib_eps b1) ep = Some (p\<lparr>ep_free_reply_ctx := rs\<rparr>)"
proof -
  let ?wr = "WRSend (ep, kRendezvousReplyContext, r) kRendezvousReply (CReply \<lparr>rp_addr = buf, rp_origin_addr = st_origin_addr req, rp_rkey = rkey, rp_idx = idx\<rparr>)"
  let ?s1 = "(set_ep ep (p\<lparr>ep_free_reply_ctx := rs\<rparr>) (b\<lparr>ib_mempool := Some m', ib_env := e'\<rparr>))\<lparr>ib_addr_pool := ap\<rparr>"
  obtain e2 where e2: "post_send rd ep ?wr ?s1 = Inr (?s1\<lparr>ib_env := e2\<rparr>)" "posted e2 = posted e' @ [(ep, ?wr)]"
    using post_send_Inr[of ?wr ep ?s1] by (auto simp: num_sge_def set_ep_def)
  obtain e3 where e3: "PostRecv rd ep (ep, kReceiveContext, j) e2 = Inr e3" "posted e3 = posted e2" using PostRecv_Inr by blast
  have start: "on_start rd ep req b = Inr (?s1\<lparr>ib_env := e2\<rparr>)"
    using req pool ep key store e2(1) by (simp add: on_start_def pool_alloc_def with_ep_def tq_WaitAndPop_def Let_def)
  show thesis
    by (rule that[of "?s1\<lparr>ib_env := e3\<rparr>"])
      (use start e3 e2(2) Alloc_posted[OF pool(2)] in \<open>simp_all add: PollCQ_step_def kRendezvousStart_def ReleaseWorkRequestContext_def with_ep_def set_ep_def\<close>)
qed

text \<open>REPLY at the sender.\<close>

lemma reply_ok:
  assumes mb: "um_find (ib_bufs a) (rp_origin_addr resp) = Some mb" "\<forall>(mr, n) \<in> set (mb_mrs mb). n \<noteq> 0" "length (mb_mrs mb) \<le> 3"
    and pool: "ib_mempool a = Some m" "LocalKey (mb_inline_buf mb) m = Inr lkey" and ep: "um_find (ib_eps a) ep = Some p"
  obtains a2 where "PollCQ_step rd \<lparr>wc_success = True, wc_ctx = (ep, kReceiveContext, j), wc_opcode = WcRecv True kRendezvousReply (CReply resp)\<rparr> a = Inr a2"
    and "posted (ib_env a2) = posted (ib_env a) @ [(ep, WRWrite (ep, kWriteContext, mb_reserved_context mb) (rp_idx resp)
      ((mb_inline_buf mb, mb_inline_len mb mod 2 ^ 32, lkey) # map (\<lambda>(mr, n). (mr_addr mr, n mod 2 ^ 32, mr_lkey mr)) (mb_mrs mb)) (rp_addr resp) (rp_rkey resp))]"
    and "ib_mempool a2 = ib_mempool a" and "ib_mem a2 = ib_mem a" and "ib_bufs a2 = ib_bufs a" and "ib_allocated_mr a2 = ib_allocated_mr a"
    and "um_find (ib_eps a2) ep = Some (p\<lparr>ep_write_buf := um_set (mb_reserved_context mb) (rp_origin_addr resp) (ep_write_buf p)\<rparr>)"
proof -
  have sges: "rmap (\<lambda>(mr, n). check (n \<noteq> 0) ''length'' (Inr (mr_addr mr, n mod 2 ^ 32, mr_lkey mr))) (mb_mrs mb)
      = Inr (map (\<lambda>(mr, n). (mr_addr mr, n mod 2 ^ 32, mr_lkey mr)) (mb_mrs mb))"
    using mb(2) by (intro rmap_Inr) auto
  let ?wr = "WRWrite (ep, kWriteContext, mb_reserved_context mb) (rp_idx resp)
      ((mb_inline_buf mb, mb_inline_len mb mod 2 ^ 32, lkey) # map (\<lambda>(mr, n). (mr_addr mr, n mod 2 ^ 32, mr_lkey mr)) (mb_mrs mb)) (rp_addr resp) (rp_rkey resp)"
  let ?s1 = "set_ep ep (p\<lparr>ep_write_buf := um_set (mb_reserved_context mb) (rp_origin_addr resp) (ep_write_buf p)\<rparr>) a"
  obtain e2 where e2: "post_send rd ep ?wr ?s1 = Inr (?s1\<lparr>ib_env := e2\<rparr>)" "posted e2 = posted (ib_env a) @ [(ep, ?wr)]"
    using post_send_Inr[of ?wr ep ?s1] mb(3) by (auto simp: num_sge_def set_ep_def)
  obtain e3 where e3: "PostRecv rd ep (ep, kReceiveContext, j) e2 = Inr e3" "posted e3 = posted e2" using PostRecv_Inr by blast
  have "on_reply rd ep resp a = Inr (?s1\<lparr>ib_env := e2\<rparr>)"
    using mb(1) pool ep sges e2(1) by (simp add: on_reply_def with_ep_def)
  then show thesis
    by (intro that[of "?s1\<lparr>ib_env := e3\<rparr>"])
      (use e3 e2(2) in \<open>simp_all add: PollCQ_step_def kRendezvousReply_def ReleaseWorkRequestContext_def with_ep_def set_ep_def\<close>)
qed

text \<open>The completion of the write, at the receiver and at the sender.\<close>

lemma arrived_ok:
  assumes "um_find (ib_eps b) ep = Some p" and "GetAddressAndRelease idx (ib_addr_pool b) = Inr (ctx, ap)"
  obtains b1 where "PollCQ_step rd \<lparr>wc_success = True, wc_ctx = (ep, kReceiveContext, j), wc_opcode = WcRecvRdmaWithImm idx\<rparr> b = Inr b1"
    and "ib_recv_buffers b1 = ib_recv_buffers b @ [(ep, ctx)]" and "ib_mempool b1 = ib_mempool b" and "ib_mem b1 = ib_mem b" and "ib_eps b1 = ib_eps b"
proof -
  let ?s1 = "b\<lparr>ib_addr_pool := ap, ib_recv_buffers := ib_recv_buffers b @ [(ep, ctx)]\<rparr>"
  obtain e' where "PostRecv rd ep (ep, kReceiveContext, j) (ib_env b) = Inr e'" using PostRecv_Inr by blast
  then show thesis using assms
    by (intro that[of "?s1\<lparr>ib_env := e'\<rparr>"])
      (simp_all add: PollCQ_step_def on_recv_rdma_def tq_Push_def ReleaseWorkRequestContext_def with_ep_def)
qed

lemma written_ok:
  assumes "um_find (ib_eps a) ep = Some p" and "um_find (ep_write_buf p) w = Some k" and "um_find (ib_bufs a) k = Some mb"
    and "ib_mempool a = Some m" and "Free (Some (mb_inline_buf mb)) m = Inr m'"
  obtains a1 where "PollCQ_step rd \<lparr>wc_success = True, wc_ctx = (ep, kWriteContext, w), wc_opcode = WcRdmaWrite\<rparr> a = Inr a1"
    and "ib_mempool a1 = Some m'" and "um_find (ib_bufs a1) k = None" and "um_find (ib_eps a1) ep = Some (p\<lparr>ep_free_write_ctx := ep_free_write_ctx p @ [w]\<rparr>)"
  using assms
  by (intro that[of "(set_ep ep (p\<lparr>ep_free_write_ctx := ep_free_write_ctx p @ [w]\<rparr>) a)\<lparr>ib_mempool := Some m', ib_bufs := um_erase k (ib_bufs a)\<rparr>"])
    (simp_all add: PollCQ_step_def on_rdma_write_def pool_free_def tq_Push_def ReleaseWorkRequestContext_def with_ep_def set_ep_def)

end

section \<open>Receiving\<close>

lemma unpack_PB:
  "unpack_pb (PackMetaPB m PBMeta_init) (Meta_init\<lparr>m_recver := r, m_sender := x\<rparr>) =
    Inr (m\<lparr>m_recver := r, m_sender := 0, m_more := 0, m_pull := False, m_data_size := 0, m_control := wire_control (m_control m)\<rparr>)"
proof -
  have "pb_control (PackMetaPB m PBMeta_init) = (if Control_empty (m_control m) then None else Some (pack_control (m_control m)))"
    by (simp add: PackMetaPB_def PBMeta_init_def)
  then have "unpack_control (pb_control (PackMetaPB m PBMeta_init)) Control_init = Inr (wire_control (m_control m))"
    using unpack_pack_control[of "m_control m"] by simp
  moreover have "rmap (enum_cast data_types) (pb_data_type (PackMetaPB m PBMeta_init)) = Inr (m_data_type m)"
    by (simp add: PackMetaPB_def PBMeta_init_def rmap_inverse)
  ultimately show ?thesis
    by (cases m) (simp add: unpack_pb_def Meta_init_def, simp add: PackMetaPB_def PBMeta_init_def)
qed

lemma RecvMsg_ok:
  assumes "ib_recv_buffers b = [(ep, \<lparr>bc_buffer = buf, bc_meta_len = length meta_buf, bc_data_num = length bss, bc_data_len = map length bss\<rparr>)]"
    and "um_find (ib_eps b) ep = Some p" and "parse meta_buf = Some (PackMetaPB m PBMeta_init)"
    and "ib_mem b = mput buf (meta_buf @ concat bss) mem" and "bss \<noteq> []" and "\<forall>x \<in> set bss. length x < 2 ^ 32"
  shows "\<exists>n msg b1. IBVerbsVan_RecvMsg parse you Meta_init b = Inr (n, msg, Some \<lparr>bl_addr = buf, bl_counter = int (length bss)\<rparr>, b1)
    \<and> im_meta msg = m\<lparr>m_recver := n_id you, m_sender := 0, m_more := 0, m_pull := False, m_data_size := 0, m_control := wire_control (m_control m)\<rparr>
    \<and> map (mget (ib_mem b1)) (im_data msg) = bss \<and> ib_mempool b1 = ib_mempool b"
proof -
  have "mget (ib_mem b) (buf, length meta_buf) = meta_buf" using mget_mput_part[of buf "[]" meta_buf "concat bss" mem] assms(4) by simp
  then have u: "UnpackMeta parse (mget (ib_mem b) (buf, length meta_buf)) (Meta_init\<lparr>m_recver := n_id you, m_sender := ep_node_id p\<rparr>) =
      Inr (m\<lparr>m_recver := n_id you, m_sender := 0, m_more := 0, m_pull := False, m_data_size := 0, m_control := wire_control (m_control m)\<rparr>)"
    using assms(3) unpack_PB by (simp add: UnpackMeta_def)
  show ?thesis using assms(1,2,4,5) u data_parts_read[OF assms(6), of buf meta_buf mem]
    by (simp add: IBVerbsVan_RecvMsg_def tq_WaitAndPop_def with_ep_def Let_def)
qed

text \<open>The parts of a message are released one by one.\<close>

fun release_parts :: "nat \<Rightarrow> Block \<Rightarrow> Mempool \<Rightarrow> Mempool res" where
  "release_parts 0 b m = Inr m"
| "release_parts (Suc k) b m = rbind (Release b m) (\<lambda>(b', m'). case b' of
      None \<Rightarrow> if k = 0 then Inr m' else Inl NullPointer
    | Some b'' \<Rightarrow> release_parts k b'' m')"

lemma release_parts_Free: "bl_counter b = int (Suc k) \<Longrightarrow> release_parts (Suc k) b m = Free (Some (bl_addr b)) m"
proof (induction k arbitrary: b)
  case 0
  then show ?case by (cases "Free (Some (bl_addr b)) m") (simp_all add: Release_def)
next
  case (Suc k)
  have "release_parts (Suc (Suc k)) b m = release_parts (Suc k) (b\<lparr>bl_counter := bl_counter b - 1\<rparr>) m"
    using Suc.prems by (subst release_parts.simps) (simp add: Release_def)
  then show ?case using Suc.IH[of "b\<lparr>bl_counter := bl_counter b - 1\<rparr>"] Suc.prems by simp
qed

text \<open>What the segments of a write gather: the header, then the data parts.\<close>

lemma concat_nonempty: "concat (map (mget mem) (filter (\<lambda>sa. snd sa \<noteq> 0) sas)) = concat (map (mget mem) sas)"
  by (induction sas) (auto simp: mget_def)

lemma sum_nonempty: "sum_list (map snd (filter (\<lambda>sa. snd sa \<noteq> (0::nat)) sas)) = sum_list (map snd sas)"
  by (induction sas) auto

lemma gathered:
  fixes lkey :: nat
  assumes mrs: "map (\<lambda>(mr, n). (mr_addr mr, n)) mrs = filter (\<lambda>sa. snd sa \<noteq> 0) sas"
    and small: "\<forall>sa \<in> set sas. snd sa < 2 ^ 32" "length meta_buf < 2 ^ 32"
    and apart: "\<forall>(p, n) \<in> set sas. \<forall>x \<in> {p..<p + n}. x \<notin> {buf..<buf + length meta_buf}"
  defines "sges \<equiv> (buf, length meta_buf mod 2 ^ 32, lkey) # map (\<lambda>(mr, n). (mr_addr mr, n mod 2 ^ 32, mr_lkey mr)) mrs"
  shows "concat (map (\<lambda>(p, n, k). mget (mput buf meta_buf mem) (p, n)) sges) = meta_buf @ concat (map (mget mem) sas)"
    and "sum_list (map (\<lambda>(p, n, k). n) sges) = length meta_buf + sum_list (map snd sas)"
proof -
  have n: "snd r < 2 ^ 32 \<and> (mr_addr (fst r), snd r) \<in> set sas" if "r \<in> set mrs" for r
  proof -
    have "(mr_addr (fst r), snd r) \<in> set (map (\<lambda>(mr, n). (mr_addr mr, n)) mrs)" using that by force
    then show ?thesis unfolding mrs using small(1) by fastforce
  qed
  have seg: "mget (mput buf meta_buf mem) sa = mget mem sa" if "sa \<in> set sas" for sa
    using mget_mput_other[of "fst sa" "snd sa" buf meta_buf mem] apart that by (cases sa) fastforce
  have "map (\<lambda>(p, n, k). mget (mput buf meta_buf mem) (p, n)) sges = meta_buf # map (\<lambda>r. mget mem (mr_addr (fst r), snd r)) mrs"
    using n seg small(2) by (auto simp: sges_def)
  also have "map (\<lambda>r. mget mem (mr_addr (fst r), snd r)) mrs = map (mget mem) (map (\<lambda>(mr, n). (mr_addr mr, n)) mrs)" by (simp add: case_prod_unfold)
  finally show "concat (map (\<lambda>(p, n, k). mget (mput buf meta_buf mem) (p, n)) sges) = meta_buf @ concat (map (mget mem) sas)"
    unfolding mrs using concat_nonempty by simp
  have "map (\<lambda>(p, n, k). n) sges = length meta_buf # map snd mrs" using n small(2) by (auto simp: sges_def)
  also have "map snd mrs = map snd (map (\<lambda>(mr, n). (mr_addr mr, n)) mrs)" by (simp add: case_prod_unfold)
  finally show "sum_list (map (\<lambda>(p, n, k). n) sges) = length meta_buf + sum_list (map snd sas)" unfolding mrs using sum_nonempty by simp
qed

context rdma_memory
begin

text \<open>A buffer from the pool: its keys, and giving it back.\<close>

lemma pool_use:
  assumes run: "pool_run vb m e live" and n: "0 < n" "n + 7 < 2 ^ 64" and al: "Alloc vb n m e = Inr (Some buf, m', e')"
    and edge: "buf \<notin> fst ` set (mp_mr_list m')"
  obtains mr m'' where "mr \<in> snd ` set (mp_mr_list m')" and "LocalKey buf m' = Inr (mr_lkey mr)" and "RemoteKey buf m' = Inr (mr_rkey mr)"
    and "covers mr buf n" and "Free (Some buf) m' = Inr m''" and "mp_used_list m'' = mp_used_list m"
    and "\<forall>x \<in> {buf..<buf + n}. \<not> taken (hp e) m x"
proof -
  have inv: "pool_inv (hp e) m" "0 < mp_total_allocated_size m" using pool_run_ok[OF run] by auto
  note ok = Alloc_ok[OF inv n al]
  have used: "mp_used_list m' = mp_used_list m @ [(buf, align_ceil n 8)]" and fresh: "\<forall>x \<in> {buf..<buf + n}. \<not> taken (hp e) m x" using ok(3) by auto
  have wf: "um_wf (mp_used_list m @ [(buf, align_ceil n 8)])" using pool_invD(5)[OF ok(1)] used by simp
  then have new: "buf \<notin> um_keys (mp_used_list m)" by auto
  have "um_find (mp_used_list m') buf = Some (align_ceil n 8)"
    by (rule map_of_is_SomeI[OF pool_invD(5)[OF ok(1)]]) (simp add: used)
  from Free_ok[OF ok(1) this] obtain m'' where m'': "Free (Some buf) m' = Inr m''" "mp_used_list m'' = um_erase buf (mp_used_list m')" by metis
  have "um_erase buf (mp_used_list m') = mp_used_list m" unfolding used using new by (simp add: AList.delete_eq filter_id_conv) force
  moreover obtain k mr where "(k, mr) \<in> set (mp_mr_list m')" "Addr2MR buf m' = Inr mr" "mr_addr mr \<le> buf \<and> buf + n \<le> mr_addr mr + mr_length mr"
    using Addr2MR_live[OF pool_run.alloc[OF run n(2) al], of buf n] edge by auto
  ultimately show thesis using that[of mr m''] m'' fresh by (force simp: LocalKey_def RemoteKey_def covers_def)
qed

end

section \<open>A message\<close>

definition wc_of :: "ctx_ref \<Rightarrow> WCOp \<Rightarrow> WC" where
  "wc_of ctx op = \<lparr>wc_success = True, wc_ctx = ctx, wc_opcode = op\<rparr>"

text \<open>The regions registered at a node.\<close>

definition regs :: "'e Ibv \<Rightarrow> ibv_mr set" where
  "regs s = (case ib_mempool s of None \<Rightarrow> {} | Some m \<Rightarrow> snd ` set (mp_mr_list m)) \<union> ran (um_find (ib_allocated_mr s))"

text \<open>A node that can send to the receiver of a message: connected, with free contexts, and a pool in use.\<close>

definition can_send :: "'e Rdma \<Rightarrow> IbvMessage \<Rightarrow> 'e Ibv \<Rightarrow> nat \<Rightarrow> Endpoint \<Rightarrow> Mempool \<Rightarrow> (nat \<times> nat) list \<Rightarrow> bool" where
  "can_send rd msg s ep p m live \<longleftrightarrow> um_find (ib_endpoints s) (m_recver (im_meta msg)) = Some ep \<and> um_find (ib_eps s) ep = Some p
     \<and> ep_free_write_ctx p \<noteq> [] \<and> ep_free_start_ctx p \<noteq> [] \<and> ib_mempool s = Some m \<and> pool_run (rd_vb rd) m (ib_env s) live"

definition can_receive :: "'e Rdma \<Rightarrow> 'e Ibv \<Rightarrow> nat \<Rightarrow> Endpoint \<Rightarrow> Mempool \<Rightarrow> (nat \<times> nat) list \<Rightarrow> bool" where
  "can_receive rd s ep p m live \<longleftrightarrow> um_find (ib_eps s) ep = Some p \<and> ep_free_reply_ctx p \<noteq> [] \<and> ib_mempool s = Some m
     \<and> pool_run (rd_vb rd) m (ib_env s) live \<and> ap_wf (ib_addr_pool s) \<and> dom (stored (ib_addr_pool s)) \<noteq> {..<kMaxEntries} \<and> ib_recv_buffers s = []"

text \<open>A data message of one to four parts, at most three of them not empty, in memory that is in use; a
  region registered before under the address of a part is long enough for it.\<close>

definition data_message :: "nat set \<Rightarrow> Mempool \<Rightarrow> (nat, ibv_mr) um \<Rightarrow> IbvMessage \<Rightarrow> bool" where
  "data_message H m mrs msg \<longleftrightarrow> m_recver (im_meta msg) \<noteq> kEmpty \<and> Control_empty (m_control (im_meta msg)) \<and> im_data msg \<noteq> []
     \<and> length (im_data msg) \<le> kMaxDataFields \<and> length (filter (\<lambda>sa. snd sa \<noteq> 0) (im_data msg)) \<le> 3
     \<and> distinct (map fst (filter (\<lambda>sa. snd sa \<noteq> 0) (im_data msg))) \<and> (\<forall>sa \<in> set (im_data msg). snd sa < 2 ^ 32)
     \<and> (\<forall>(p, n) \<in> set (im_data msg). \<forall>x \<in> {p..<p + n}. taken H m x)
     \<and> (\<forall>(p, n) \<in> set (im_data msg). \<forall>mr. um_find mrs p = Some mr \<longrightarrow> mr_addr mr = p \<and> n \<le> mr_length mr)"

context rdma_library
begin

text \<open>The sender up to the write.\<close>

lemma sender_writes:
  assumes ready: "can_send rd msg a ep p m live" and dat: "data_message (hp (ib_env a)) m (ib_allocated_mr a) msg"
    and ser: "ser (PackMetaPB (im_meta msg) PBMeta_init) = Some meta_buf" "meta_buf \<noteq> []" "length meta_buf < 2 ^ 32"
    and al: "Alloc (rd_vb rd) (length meta_buf) m (ib_env a) = Inr (Some buf, m', e')" "buf \<notin> fst ` set (mp_mr_list m')"
  obtains n a1 where "IBVerbsVan_SendMsg rd ser msg a = Inr (n, a1)"
    and "posted (ib_env a1) = posted (ib_env a) @ [(ep, WRSend (ep, kRendezvousStartContext, hd (ep_free_start_ctx p)) kRendezvousStart
      (CStart \<lparr>st_meta_len = length meta_buf, st_data_num = length (im_data msg), st_data_len = map snd (im_data msg), st_origin_addr = ib_next a\<rparr>))]"
    and "\<forall>resp j. rp_origin_addr resp = ib_next a \<longrightarrow> (\<exists>a2 sges a3 m''.
      PollCQ_step rd (wc_of (ep, kReceiveContext, j) (WcRecv True kRendezvousReply (CReply resp))) a1 = Inr a2
      \<and> posted (ib_env a2) = posted (ib_env a1) @ [(ep, WRWrite (ep, kWriteContext, hd (ep_free_write_ctx p)) (rp_idx resp) sges (rp_addr resp) (rp_rkey resp))]
      \<and> (\<forall>(p, n, k) \<in> set sges. \<exists>mr \<in> regs a2. mr_lkey mr = k \<and> covers mr p n)
      \<and> concat (map (\<lambda>(p, n, k). mget (ib_mem a2) (p, n)) sges) = meta_buf @ concat (map (mget (ib_mem a)) (im_data msg))
      \<and> sum_list (map (\<lambda>(p, n, k). n) sges) = length meta_buf + sum_list (map snd (im_data msg))
      \<and> PollCQ_step rd (wc_of (ep, kWriteContext, hd (ep_free_write_ctx p)) WcRdmaWrite) a2 = Inr a3
      \<and> ib_mempool a3 = Some m'' \<and> mp_used_list m'' = mp_used_list m)"
proof -
  obtain w ws c cs where r: "um_find (ib_endpoints a) (m_recver (im_meta msg)) = Some ep" "um_find (ib_eps a) ep = Some p"
    "ep_free_write_ctx p = w # ws" "ep_free_start_ctx p = c # cs" and pool: "ib_mempool a = Some m" "pool_run (rd_vb rd) m (ib_env a) live"
    using ready by (auto simp: can_send_def neq_Nil_conv)
  have d: "m_recver (im_meta msg) \<noteq> kEmpty" "Control_empty (m_control (im_meta msg))" "length (im_data msg) \<le> kMaxDataFields"
    "\<forall>(p, n) \<in> set (im_data msg). \<forall>mr. um_find (ib_allocated_mr a) p = Some mr \<longrightarrow> mr_addr mr = p \<and> n \<le> mr_length mr"
    "distinct (map fst (filter (\<lambda>sa. snd sa \<noteq> 0) (im_data msg)))" "length (filter (\<lambda>sa. snd sa \<noteq> 0) (im_data msg)) \<le> 3"
    "\<forall>sa \<in> set (im_data msg). snd sa < 2 ^ 32" "\<forall>(p, n) \<in> set (im_data msg). \<forall>x \<in> {p..<p + n}. taken (hp (ib_env a)) m x"
    using dat unfolding data_message_def by blast+
  have len: "0 < length meta_buf" "length meta_buf + 7 < 2 ^ 64" using ser(2,3) by simp_all
  obtain mr m'' where mr: "mr \<in> snd ` set (mp_mr_list m')" "LocalKey buf m' = Inr (mr_lkey mr)" "covers mr buf (length meta_buf)"
    and fr: "Free (Some buf) m' = Inr m''" "mp_used_list m'' = mp_used_list m" and fresh: "\<forall>x \<in> {buf..<buf + length meta_buf}. \<not> taken (hp (ib_env a)) m x"
    using pool_use[OF pool(2) len al] by metis
  obtain n a1 mb where a1: "IBVerbsVan_SendMsg rd ser msg a = Inr (n, a1)"
    "posted (ib_env a1) = posted (ib_env a) @ [(ep, WRSend (ep, kRendezvousStartContext, c) kRendezvousStart
      (CStart \<lparr>st_meta_len = length meta_buf, st_data_num = length (im_data msg), st_data_len = map snd (im_data msg), st_origin_addr = ib_next a\<rparr>))]"
    "ib_mempool a1 = Some m'" "ib_mem a1 = mput buf meta_buf (ib_mem a)" "um_find (ib_bufs a1) (ib_next a) = Some mb"
    "mb_inline_len mb = length meta_buf" "mb_inline_buf mb = buf" "mb_reserved_context mb = w"
    "map (\<lambda>(mr, n). (mr_addr mr, n)) (mb_mrs mb) = filter (\<lambda>sa. snd sa \<noteq> 0) (im_data msg)"
    "\<forall>(mr, n) \<in> set (mb_mrs mb). mr \<in> ran (um_find (ib_allocated_mr a1)) \<and> n \<le> mr_length mr"
    "um_find (ib_eps a1) ep = Some (p\<lparr>ep_free_write_ctx := ws, ep_free_start_ctx := cs\<rparr>)"
    by (rule SendMsg_ok[where ser = ser, OF d(1) ser(1,2) r d(2-5) pool(1) al(1)])
  let ?sges = "(buf, length meta_buf mod 2 ^ 32, mr_lkey mr) # map (\<lambda>(mr, n). (mr_addr mr, n mod 2 ^ 32, mr_lkey mr)) (mb_mrs mb)"
  have mrs: "n \<noteq> 0 \<and> n < 2 ^ 32" if "(r, n) \<in> set (mb_mrs mb)" for r n
  proof -
    have "(mr_addr r, n) \<in> set (map (\<lambda>(mr, n). (mr_addr mr, n)) (mb_mrs mb))" using that by force
    then show ?thesis unfolding a1(9) using d(7) by auto
  qed
  have n3: "length (mb_mrs mb) \<le> 3" using arg_cong[OF a1(9), of length] d(6) by simp
  have apart: "\<forall>(p, n) \<in> set (im_data msg). \<forall>x \<in> {p..<p + n}. x \<notin> {buf..<buf + length meta_buf}" using d(8) fresh by blast
  show thesis
  proof (rule that[OF a1(1)], goal_cases)
    case 1 then show ?case using a1(2) r(4) by simp
  next
    case 2
    show ?case
    proof (intro allI impI, goal_cases)
    case 2: (1 resp j)
    have mb: "um_find (ib_bufs a1) (rp_origin_addr resp) = Some mb" using a1(5) 2 by simp
    obtain a2 where a2: "PollCQ_step rd \<lparr>wc_success = True, wc_ctx = (ep, kReceiveContext, j), wc_opcode = WcRecv True kRendezvousReply (CReply resp)\<rparr> a1 = Inr a2"
      "posted (ib_env a2) = posted (ib_env a1) @ [(ep, WRWrite (ep, kWriteContext, w) (rp_idx resp) ?sges (rp_addr resp) (rp_rkey resp))]"
      "ib_mempool a2 = Some m'" "ib_mem a2 = ib_mem a1" "ib_bufs a2 = ib_bufs a1" "ib_allocated_mr a2 = ib_allocated_mr a1"
      "um_find (ib_eps a2) ep = Some (p\<lparr>ep_free_write_ctx := ws, ep_free_start_ctx := cs, ep_write_buf := um_set w (ib_next a) (ep_write_buf p)\<rparr>)"
      using reply_ok[OF mb _ n3 a1(3) _ a1(11), of "mr_lkey mr" j] mrs mr(2) a1(3,6-8) 2 by auto
    obtain a3 where a3: "PollCQ_step rd \<lparr>wc_success = True, wc_ctx = (ep, kWriteContext, w), wc_opcode = WcRdmaWrite\<rparr> a2 = Inr a3" "ib_mempool a3 = Some m''"
      using written_ok[OF a2(7), of w "ib_next a" mb m' m''] a2(3,5) a1(5,7) fr(1) by auto
    have keys: "\<forall>(p, n, k) \<in> set ?sges. \<exists>mr \<in> regs a2. mr_lkey mr = k \<and> covers mr p n"
    proof -
      have "\<exists>r \<in> regs a2. mr_lkey r = mr_lkey mr \<and> covers r buf (length meta_buf mod 2 ^ 32)"
        using mr(1,3) a2(3) ser(3) by (intro bexI[of _ mr]) (auto simp: regs_def)
      moreover have "\<exists>r' \<in> regs a2. mr_lkey r' = mr_lkey r \<and> covers r' (mr_addr r) (n mod 2 ^ 32)" if "(r, n) \<in> set (mb_mrs mb)" for r n
        using a1(10) that mrs[OF that] a2(6) by (intro bexI[of _ r]) (auto simp: regs_def covers_def)
      ultimately show ?thesis by auto
    qed
    show ?case using a2(1,2,4) a3 fr(2) keys r(3) a1(4) gathered(1)[OF a1(9) d(7) ser(3) apart, where lkey = "mr_lkey mr" and mem = "ib_mem a"] gathered(2)[OF a1(9) d(7) ser(3) apart, where lkey = "mr_lkey mr"]
      by (intro exI[of _ a2] exI[of _ ?sges] exI[of _ a3] exI[of _ m''] conjI) (simp_all add: wc_of_def)
    qed
  qed
qed

text \<open>The receiver: the answer, and the message once it has been written.\<close>

lemma receiver_gets:
  assumes ready: "can_receive rd b ep p m live"
    and req: "lens \<noteq> []" "length lens \<le> kMaxDataFields" "\<forall>n \<in> set lens. n < 2 ^ 32" "0 < len" "len < 2 ^ 32"
    and al: "Alloc (rd_vb rd) (len + sum_list lens) m (ib_env b) = Inr (Some buf, m', e')" "buf \<notin> fst ` set (mp_mr_list m')"
  obtains b1 idx mr where
    "PollCQ_step rd (wc_of (ep, kReceiveContext, j) (WcRecv True kRendezvousStart
      (CStart \<lparr>st_meta_len = len, st_data_num = length lens, st_data_len = lens, st_origin_addr = orig\<rparr>))) b = Inr b1"
    and "posted (ib_env b1) = posted (ib_env b) @ [(ep, WRSend (ep, kRendezvousReplyContext, hd (ep_free_reply_ctx p)) kRendezvousReply
      (CReply \<lparr>rp_addr = buf, rp_origin_addr = orig, rp_rkey = mr_rkey mr, rp_idx = idx\<rparr>))]"
    and "mr \<in> regs b1" and "covers mr buf (len + sum_list lens)"
    and "\<forall>meta_buf bss mem parse meta you j'. length meta_buf = len \<longrightarrow> map length bss = lens \<longrightarrow> parse meta_buf = Some (PackMetaPB meta PBMeta_init) \<longrightarrow>
      (\<exists>b3 n msg blk b4 m4 m''. PollCQ_step rd (wc_of (ep, kReceiveContext, j') (WcRecvRdmaWithImm idx)) (b1\<lparr>ib_mem := mput buf (meta_buf @ concat bss) mem\<rparr>) = Inr b3
        \<and> IBVerbsVan_RecvMsg parse you Meta_init b3 = Inr (n, msg, Some blk, b4)
        \<and> im_meta msg = meta\<lparr>m_recver := n_id you, m_sender := 0, m_more := 0, m_pull := False, m_data_size := 0, m_control := wire_control (m_control meta)\<rparr>
        \<and> map (mget (ib_mem b4)) (im_data msg) = bss \<and> ib_mempool b4 = Some m4 \<and> release_parts (length bss) blk m4 = Inr m'' \<and> mp_used_list m'' = mp_used_list m)"
proof -
  obtain r rs where pr: "um_find (ib_eps b) ep = Some p" "ep_free_reply_ctx p = r # rs" "ib_mempool b = Some m" "pool_run (rd_vb rd) m (ib_env b) live"
    "ap_wf (ib_addr_pool b)" "dom (stored (ib_addr_pool b)) \<noteq> {..<kMaxEntries}" "ib_recv_buffers b = []"
    using ready by (auto simp: can_receive_def neq_Nil_conv)
  have "sum_list lens \<le> length lens * 2 ^ 32" using req(3) by (induction lens) auto
  then have total: "0 < len + sum_list lens" "len + sum_list lens + 7 < 2 ^ 64" using req(2,4,5) by (simp_all add: kMaxDataFields_def)
  obtain mr m'' where mr: "mr \<in> snd ` set (mp_mr_list m')" "RemoteKey buf m' = Inr (mr_rkey mr)" "covers mr buf (len + sum_list lens)"
    and fr: "Free (Some buf) m' = Inr m''" "mp_used_list m'' = mp_used_list m"
    using pool_use[OF pr(4) total al] by metis
  let ?ctx = "\<lparr>bc_buffer = buf, bc_meta_len = len, bc_data_num = length lens, bc_data_len = lens\<rparr>"
  let ?req = "\<lparr>st_meta_len = len, st_data_num = length lens, st_data_len = lens, st_origin_addr = orig\<rparr>"
  obtain idx ap where ap: "StoreAddress ?ctx (ib_addr_pool b) = Inr (idx, ap)" using StoreAddress_cases[OF pr(5), of ?ctx] pr(6) by auto
  then obtain ap' where ap': "GetAddressAndRelease idx ap = Inr (?ctx, ap')" using ap.fetched[OF pr(5) ap, of "[]"] by auto
  have al': "Alloc (rd_vb rd) ((st_meta_len ?req + sum_list (st_data_len ?req)) mod 2 ^ 64) m (ib_env b) = Inr (Some buf, m', e')" using al(1) total(2) by simp
  obtain b1 where b1: "PollCQ_step rd \<lparr>wc_success = True, wc_ctx = (ep, kReceiveContext, j), wc_opcode = WcRecv True kRendezvousStart (CStart ?req)\<rparr> b = Inr b1"
    "posted (ib_env b1) = posted (ib_env b) @ [(ep, WRSend (ep, kRendezvousReplyContext, r) kRendezvousReply
      (CReply \<lparr>rp_addr = buf, rp_origin_addr = orig, rp_rkey = mr_rkey mr, rp_idx = idx\<rparr>))]"
    "ib_mempool b1 = Some m'" "ib_addr_pool b1 = ap" "ib_recv_buffers b1 = []" "um_find (ib_eps b1) ep = Some (p\<lparr>ep_free_reply_ctx := rs\<rparr>)"
    using start_ok[OF _ _ pr(3) al' pr(1,2) mr(2), of idx ap j] ap req(2) pr(7) by auto
  show thesis
  proof (rule that[of b1 mr idx], goal_cases)
    case 3 then show ?case using mr(1) b1(3) by (simp add: regs_def)
  next
    case 5
    show ?case
    proof (intro allI impI, goal_cases)
    case 5: (1 meta_buf bss mem parse meta you j')
    let ?b = "b1\<lparr>ib_mem := mput buf (meta_buf @ concat bss) mem\<rparr>"
    have ep: "um_find (ib_eps ?b) ep = Some (p\<lparr>ep_free_reply_ctx := rs\<rparr>)" and get: "GetAddressAndRelease idx (ib_addr_pool ?b) = Inr (?ctx, ap')"
      using b1(4,6) ap' by simp_all
    obtain b3 where b3: "PollCQ_step rd \<lparr>wc_success = True, wc_ctx = (ep, kReceiveContext, j'), wc_opcode = WcRecvRdmaWithImm idx\<rparr> ?b = Inr b3"
      "ib_recv_buffers b3 = [(ep, ?ctx)]" "ib_mempool b3 = Some m'" "ib_mem b3 = mput buf (meta_buf @ concat bss) mem" "ib_eps b3 = ib_eps b1"
      using arrived_ok[OF ep get, of j'] b1(3,5) by auto
    have bss: "bss \<noteq> []" "\<forall>x \<in> set bss. length x < 2 ^ 32" "length bss = length lens" using 5(2) req(1,3) by auto
    have q: "ib_recv_buffers b3 = [(ep, \<lparr>bc_buffer = buf, bc_meta_len = length meta_buf, bc_data_num = length bss, bc_data_len = map length bss\<rparr>)]"
      using b3(2) 5(1,2) bss(3) by simp
    have "um_find (ib_eps b3) ep = Some (p\<lparr>ep_free_reply_ctx := rs\<rparr>)" using b3(5) b1(6) by simp
    from RecvMsg_ok[where parse = parse and you = you, OF q this 5(3) b3(4) bss(1,2)] obtain n msg b4 where
      recv: "IBVerbsVan_RecvMsg parse you Meta_init b3 = Inr (n, msg, Some \<lparr>bl_addr = buf, bl_counter = int (length bss)\<rparr>, b4)"
      "im_meta msg = meta\<lparr>m_recver := n_id you, m_sender := 0, m_more := 0, m_pull := False, m_data_size := 0, m_control := wire_control (m_control meta)\<rparr>"
      "map (mget (ib_mem b4)) (im_data msg) = bss" "ib_mempool b4 = Some m'" using b3(3) by auto
    obtain k where k: "length bss = Suc k" using bss(1) by (cases bss) auto
    have "release_parts (length bss) \<lparr>bl_addr = buf, bl_counter = int (length bss)\<rparr> m' = Inr m''"
      using release_parts_Free[of "\<lparr>bl_addr = buf, bl_counter = int (length bss)\<rparr>" k m'] fr(1) k by simp
    then show ?case using b3(1) recv fr(2) unfolding wc_of_def by blast
    qed
  qed (use b1(1,2) pr(2) mr(3) in \<open>simp_all add: wc_of_def\<close>)
qed

end


section \<open>An instance\<close>

text \<open>Memory from \<open>bump\<close>, work requests in a list.\<close>

definition demo_rd :: "(nat \<times> (nat \<times> WR) list) Rdma" where
  "demo_rd = \<lparr>rd_vb = \<lparr>vb_aligned_alloc = (\<lambda>k n e. let (r, c) = vb_aligned_alloc bump k n (fst e) in (r, (c, snd e))),
       vb_reg_mr = (\<lambda>p n e. (Some \<lparr>mr_addr = p, mr_length = n, mr_lkey = p, mr_rkey = p\<rparr>, e)), vb_dereg_mr = (\<lambda>_ e. (0, e)), vb_free = (\<lambda>_ e. e)\<rparr>,
     rd_post_send = (\<lambda>ep wr e. if num_sge wr \<le> 4 then (0, (fst e, snd e @ [(ep, wr)])) else (22, e)), rd_post_recv = (\<lambda>_ _ e. (0, e)),
     rd_create_qp = (\<lambda>_ e. (0, e)), rd_destroy_qp = (\<lambda>_ e. e), rd_create_id = (\<lambda>e. (Some 0, e)), rd_destroy_id = (\<lambda>_ e. (0, e)),
     rd_getaddrinfo = (\<lambda>_ _ e. (0, e)), rd_resolve_addr = (\<lambda>_ _ _ e. (0, e)), rd_resolve_route = (\<lambda>_ e. (0, e)),
     rd_connect = (\<lambda>_ _ e. (0, e)), rd_accept = (\<lambda>_ _ e. (0, e)), rd_bind_addr = (\<lambda>_ _ e. (0, e)), rd_listen = (\<lambda>_ e. (0, e)),
     rd_rand = (\<lambda>e. (0, e)), rd_alloc_pd = (\<lambda>e. (True, e)), rd_create_cq = (\<lambda>e. (True, e)), rd_req_notify_cq = (\<lambda>e. (0, e))\<rparr>"

definition demo_deliver :: "ibv_mr set \<Rightarrow> ibv_mr set \<Rightarrow> WR \<Rightarrow> (nat \<Rightarrow> byte) \<Rightarrow> (nat \<Rightarrow> byte) \<Rightarrow> nat \<Rightarrow> byte" where
  "demo_deliver L R wr lmem rmem = (case wr of WRSend _ _ _ \<Rightarrow> rmem
     | WRWrite _ _ sges raddr _ \<Rightarrow> mput raddr (concat (map (\<lambda>(p, n, k). mget lmem (p, n)) sges)) rmem)"

interpretation demo: rdma_library demo_rd "\<lambda>e. {..<8 * (fst e + 1)}" snd demo_deliver
proof unfold_locales
  fix n p and e e' :: "nat \<times> (nat \<times> WR) list"
  assume a: "vb_aligned_alloc (rd_vb demo_rd) 8 n e = (Some p, e')" "0 < n"
  then have "vb_aligned_alloc bump 8 n (fst e) = (Some p, fst e')" by (auto simp: demo_rd_def split: prod.splits)
  then show "0 < p \<and> 8 dvd p \<and> p + n \<le> 2 ^ 64 \<and> {p..<p + n} \<inter> {..<8 * (fst e + 1)} = {} \<and> {..<8 * (fst e + 1)} \<union> {p..<p + n} \<subseteq> {..<8 * (fst e' + 1)}"
    by (rule bump.aligned_alloc[OF _ a(2)])
qed (auto simp: demo_rd_def demo_deliver_def case_prod_unfold Let_def)

definition demo_pool0 :: Mempool where
  "demo_pool0 = \<lparr>mp_free_list = [(16777216, 8)], mp_used_list = [], mp_mr_list = [(16777224, demo_mr 8)], mp_total_allocated_size = 16777216\<rparr>"

definition demo_van :: "(nat \<times> (nat \<times> WR) list) Ibv" where
  "demo_van = (IBVerbsVan_init of_nat (2097152, []))\<lparr>ib_mempool := Some demo_pool0, ib_endpoints := [(8, 1)], ib_next := 2,
     ib_eps := [(1, Endpoint_ctor\<lparr>ep_free_start_ctx := [0], ep_free_reply_ctx := [0], ep_free_write_ctx := [0]\<rparr>)]\<rparr>"

definition demo_msg :: IbvMessage where
  "demo_msg = \<lparr>im_meta = Meta_init\<lparr>m_recver := 8, m_push := True\<rparr>, im_data = [(1, 3), (5, 2)]\<rparr>"

definition demo_node :: Node where
  "demo_node = \<lparr>n_role = SERVER, n_id = 8, n_customer_id = 0, n_hostname = ''s'', n_port = 7, n_is_recovery = False\<rparr>"

lemma demo_pool0_run: "pool_run (rd_vb demo_rd) demo_pool0 (2097152, []) []"
  by (rule pool_run.create[where e = "(0, [])"])
    (simp add: SimpleMempool_def add_region_def demo_rd_def bump_def kAlignment_def map_emplace_def mm_emplace_def demo_mr_def demo_pool0_def)

lemma demo_Alloc:
  "0 < n \<Longrightarrow> n \<le> 8 \<Longrightarrow> Alloc (rd_vb demo_rd) n demo_pool0 e = Inr (Some 8, demo_pool0\<lparr>mp_free_list := [(16777208, 16)], mp_used_list := [(8, 8)]\<rparr>, e)"
proof -
  assume n: "0 < n" "n \<le> 8"
  have "(7 + n) mod 8 = n - 1" using n by (cases "n = 8") (simp_all add: mod_if)
  then have "align_ceil n 8 = 8" using n by (simp add: align_ceil_def align_floor_def add.commute)
  then show ?thesis using n
    by (simp add: Alloc_def demo_pool0_def take_buffer_def kAlignment_def mm_from_def mm_before_def mm_emplace_def Let_def)
qed


end
