(* ===== verification/Ps_ZmqVan.thy ===== *)
theory Ps_ZmqVan
  imports Ps_Van Ps_Wire Ps_Queue
begin

text \<open>
  \<^verbatim>\<open>src/zmq_van.h\<close> and \<^verbatim>\<open>src/p3_van.h\<close>: the van over ZeroMQ and its variant that sends by priority.
  \<^verbatim>\<open>libzmq\<close>, with the network behind it and the random numbers of \<^verbatim>\<open>Bind\<close>, is the record \<open>Zmq\<close> of functions over
  a state \<open>'z\<close>; a socket is a number, the null pointer \<open>None\<close>.  A call of \<^verbatim>\<open>zmq_msg_send\<close> gives its
  result and whether \<^verbatim>\<open>errno\<close> is \<^verbatim>\<open>EINTR\<close>.  The loops that repeat an interrupted call may run forever: they
  are partial functions, and \<open>None\<close> is a call that does not return.  Sizes of frames are below
  \<open>2 ^ 31\<close>, so that their conversion to \<^verbatim>\<open>int\<close> is exact.  \<^verbatim>\<open>RecvMsg\<close> asks a message for its flag
  \<^verbatim>\<open>more\<close> after it has closed it; the model takes the flag the message had.
\<close>

section \<open>The library\<close>

datatype SockType = ZMQ_ROUTER | ZMQ_DEALER

datatype ZRecv = ZFrame "byte list option" bool | ZInterrupted | ZFailed

record 'z Zmq =
  zq_ctx_new :: "'z \<Rightarrow> bool \<times> 'z"
  zq_ctx_set_max_sockets :: "int \<Rightarrow> 'z \<Rightarrow> 'z"
  zq_ctx_destroy :: "'z \<Rightarrow> 'z"
  zq_socket :: "SockType \<Rightarrow> 'z \<Rightarrow> nat option \<times> 'z"
  zq_linger :: "nat \<Rightarrow> int \<Rightarrow> 'z \<Rightarrow> bool \<times> 'z"
  zq_close :: "nat \<Rightarrow> 'z \<Rightarrow> int \<times> 'z"
  zq_identity :: "nat \<Rightarrow> string \<Rightarrow> 'z \<Rightarrow> 'z"
  zq_sndhwm :: "nat \<Rightarrow> int \<Rightarrow> 'z \<Rightarrow> 'z"
  zq_bind :: "nat \<Rightarrow> string \<Rightarrow> 'z \<Rightarrow> int \<times> 'z"
  zq_connect :: "nat \<Rightarrow> string \<Rightarrow> 'z \<Rightarrow> int \<times> 'z"
  zq_send :: "nat \<Rightarrow> byte list \<Rightarrow> bool \<Rightarrow> 'z \<Rightarrow> (int \<times> bool) \<times> 'z"
  zq_msg_init :: "'z \<Rightarrow> int"
  zq_recv :: "nat \<Rightarrow> 'z \<Rightarrow> ZRecv \<times> 'z"
  zq_rand :: "'z \<Rightarrow> int \<times> 'z"

section \<open>State\<close>

record 'z ZMQ =
  z_context :: bool
  z_senders :: "(int, nat) um"
  z_receiver :: "nat option"
  z_lib :: 'z

definition ZMQVan_init :: "'z \<Rightarrow> 'z ZMQ" where
  "ZMQVan_init z = \<lparr>z_context = False, z_senders = [], z_receiver = None, z_lib = z\<rparr>"

section \<open>Start, stop, bind and connect\<close>

text \<open>\<^verbatim>\<open>Start\<close> before it calls \<^verbatim>\<open>Van::Start\<close>, and \<^verbatim>\<open>Stop\<close> after it has called \<^verbatim>\<open>Van::Stop\<close>.  \<open>zq_linger\<close> says
  whether the option is set or the context terminated (\<^verbatim>\<open>ETERM\<close>).\<close>

definition ZMQVan_Start :: "'z Zmq \<Rightarrow> 'z ZMQ \<Rightarrow> 'z ZMQ res" where
  "ZMQVan_Start zq s =
     (if z_context s then Inr s
      else let (created, z) = zq_ctx_new zq (z_lib s) in
        check created ''create 0mq context failed''
          (Inr (s\<lparr>z_context := True, z_lib := zq_ctx_set_max_sockets zq 65536 z\<rparr>)))"

definition close_socket :: "'z Zmq \<Rightarrow> nat \<Rightarrow> 'z \<Rightarrow> 'z res" where
  "close_socket zq sock z =
     (let (set, z1) = zq_linger zq sock 0 z in
      check set ''rc == 0 || errno == ETERM''
       (let (rc, z2) = zq_close zq sock z1 in check (rc = 0) ''zmq_close == 0'' (Inr z2)))"

definition ZMQVan_Stop :: "'z Zmq \<Rightarrow> 'z ZMQ \<Rightarrow> 'z ZMQ res" where
  "ZMQVan_Stop zq s = (case z_receiver s of
      None \<Rightarrow> Inl (Check ''rc == 0 || errno == ETERM'')
    | Some sock \<Rightarrow>
        rbind (close_socket zq sock (z_lib s)) (\<lambda>z1.
        rbind (rfold (\<lambda>it. close_socket zq (snd it)) (z_senders s) z1) (\<lambda>z2.
          Inr (s\<lparr>z_senders := [], z_context := False, z_lib := zq_ctx_destroy zq z2\<rparr>))))"

definition bind_addr :: "(string \<Rightarrow> string option) \<Rightarrow> Environment \<Rightarrow> Node \<Rightarrow> string" where
  "bind_addr sys env node =
     (let hostname = (if n_hostname node = [] then ''*'' else n_hostname node);
          hostname' = (if 0 < GetEnv_int sys env ''DMLC_USE_KUBERNETES'' 0 \<and> n_role node = SCHEDULER
                       then ''0.0.0.0'' else hostname) in
      if GetEnv_int sys env ''DMLC_LOCAL'' 0 \<noteq> 0 then ''ipc:///tmp/'' else ''tcp://'' @ hostname' @ '':'')"

text \<open>\<open>left\<close> counts the tries after this one; every try has an address of its own.\<close>

fun zmq_bind_loop :: "'z Zmq \<Rightarrow> nat \<Rightarrow> string \<Rightarrow> nat \<Rightarrow> int \<Rightarrow> 'z \<Rightarrow> int \<times> 'z" where
  "zmq_bind_loop zq sock addr 0 port z =
     (let (rc, z1) = zq_bind zq sock (addr @ to_string port) z in (if rc = 0 then port else -1, z1))"
| "zmq_bind_loop zq sock addr (Suc left) port z =
     (let (rc, z1) = zq_bind zq sock (addr @ to_string port) z in
      if rc = 0 then (port, z1)
      else let (r, z2) = zq_rand zq z1 in zmq_bind_loop zq sock addr left (10000 + r mod 40000) z2)"

definition ZMQVan_Bind ::
  "'z Zmq \<Rightarrow> (string \<Rightarrow> string option) \<Rightarrow> Environment \<Rightarrow> Node \<Rightarrow> nat \<Rightarrow> 'z ZMQ \<Rightarrow> (int \<times> 'z ZMQ) res" where
  "ZMQVan_Bind zq sys env node max_retry s = (case zq_socket zq ZMQ_ROUTER (z_lib s) of
      (None, _) \<Rightarrow> Inl (Check ''create receiver socket failed'')
    | (Some sock, z1) \<Rightarrow>
        let (port, z2) = zmq_bind_loop zq sock (bind_addr sys env node) max_retry (n_port node) z1 in
        Inr (port, s\<lparr>z_receiver := Some sock, z_lib := z2\<rparr>))"

text \<open>The options of a sender socket, when this node has an id.\<close>

definition sender_options ::
  "'z Zmq \<Rightarrow> (string \<Rightarrow> string option) \<Rightarrow> Environment \<Rightarrow> Node \<Rightarrow> nat \<Rightarrow> 'z \<Rightarrow> 'z" where
  "sender_options zq sys env me sock z =
     (if n_id me = kEmpty then z
      else let z1 = zq_identity zq sock (''ps'' @ to_string (n_id me)) z in
        (case env_find sys env ''DMLC_PS_WATER_MARK'' of None \<Rightarrow> z1 | Some w \<Rightarrow> zq_sndhwm zq sock (atoi w) z1))"

definition ZMQVan_Connect ::
  "'z Zmq \<Rightarrow> (string \<Rightarrow> string option) \<Rightarrow> Environment \<Rightarrow> Node \<Rightarrow> Node \<Rightarrow> 'z ZMQ \<Rightarrow> 'z ZMQ res" where
  "ZMQVan_Connect zq sys env me node s =
     check (n_id node \<noteq> kEmpty) ''node.id != kEmpty'' (check (n_port node \<noteq> kEmpty) ''node.port != kEmpty''
     (check (n_hostname node \<noteq> []) ''node.hostname.size()''
       (let z1 = (case um_find (z_senders s) (n_id node) of None \<Rightarrow> z_lib s | Some old \<Rightarrow> snd (zq_close zq old (z_lib s))) in
        if n_role node = n_role me \<and> n_id node \<noteq> n_id me then Inr (s\<lparr>z_lib := z1\<rparr>)
        else (case zq_socket zq ZMQ_DEALER z1 of
            (None, _) \<Rightarrow> Inl (Check ''sender != NULL'')
          | (Some sender, z2) \<Rightarrow>
              let z3 = sender_options zq sys env me sender z2;
                  addr = (if GetEnv_int sys env ''DMLC_LOCAL'' 0 \<noteq> 0 then ''ipc:///tmp/'' @ to_string (n_port node)
                          else ''tcp://'' @ n_hostname node @ '':'' @ to_string (n_port node));
                  (rc, z4) = zq_connect zq sender addr z3 in
              check (rc = 0) ''connect failed''
                (Inr (s\<lparr>z_senders := um_set (n_id node) sender (z_senders s), z_lib := z4\<rparr>))))))"

section \<open>Sending\<close>

text \<open>One frame, sent again as long as the call is interrupted; the result says whether it was sent.\<close>

partial_function (option) send_frame :: "'z Zmq \<Rightarrow> nat \<Rightarrow> byte list \<Rightarrow> bool \<Rightarrow> 'z \<Rightarrow> (bool \<times> 'z) option" where
  "send_frame zq sock data snd_more z =
     (let ((n, eintr), z1) = zq_send zq sock data snd_more z in
      if n = int (length data) then Some (True, z1)
      else if eintr then send_frame zq sock data snd_more z1
      else Some (False, z1))"

text \<open>The frames of a message after each other; all but the last have the flag \<^verbatim>\<open>ZMQ_SNDMORE\<close>.\<close>

fun send_frames :: "'z Zmq \<Rightarrow> nat \<Rightarrow> byte list list \<Rightarrow> int \<Rightarrow> 'z \<Rightarrow> (int \<times> 'z) option" where
  "send_frames zq sock [] send_bytes z = Some (send_bytes, z)"
| "send_frames zq sock (b # bs) send_bytes z =
     Option.bind (send_frame zq sock b (bs \<noteq> []) z) (\<lambda>(sent, z1).
       if sent then send_frames zq sock bs (send_bytes + int (length b)) z1 else Some (-1, z1))"

definition ZMQVan_SendMsg ::
  "(PBMeta \<Rightarrow> byte list option) \<Rightarrow> 'z Zmq \<Rightarrow> Message \<Rightarrow> 'z ZMQ \<Rightarrow> (int \<times> 'z ZMQ) res option" where
  "ZMQVan_SendMsg ser zq msg s =
     (let recver = m_recver (msg_meta msg) in
      if recver = kEmpty then Some (Inl (Check ''id != kEmpty''))
      else case um_find (z_senders s) recver of
        None \<Rightarrow> Some (Inr (-1, s))
      | Some socket \<Rightarrow>
          (case PackMeta ser (msg_meta msg) of
             Inl e \<Rightarrow> Some (Inl e)
           | Inr meta_buf \<Rightarrow>
               map_option (\<lambda>(n, z). Inr (n, s\<lparr>z_lib := z\<rparr>)) (send_frames zq socket (meta_buf # msg_data msg) 0 (z_lib s))))"

section \<open>Receiving\<close>

text \<open>The loop of \<^verbatim>\<open>GetNodeID\<close>.  The code computes \<^verbatim>\<open>id * 10 + buf[i] - '0'\<close> from the left in \<^verbatim>\<open>int\<close>;
  where this leaves the range of \<^verbatim>\<open>int\<close> the model stops.\<close>

fun read_id :: "int \<Rightarrow> byte list \<Rightarrow> int res" where
  "read_id i [] = Inr i"
| "read_id i (b # bs) =
     (if 48 \<le> uint b \<and> uint b \<le> 57
      then if i * 10 + uint b < 2 ^ 31 then read_id (i * 10 + uint b - 48) bs else Inl OutOfBounds
      else Inr kEmpty)"

definition GetNodeID :: "byte list \<Rightarrow> int res" where
  "GetNodeID buf =
     (if 2 < length buf \<and> uint (buf ! 0) = 112 \<and> uint (buf ! 1) = 115 then read_id 0 (drop 2 buf) else Inr kEmpty)"

partial_function (option) recv_frame :: "'z Zmq \<Rightarrow> nat \<Rightarrow> 'z \<Rightarrow> ((byte list option \<times> bool) option \<times> 'z) option" where
  "recv_frame zq sock z = (case zq_recv zq sock z of
      (ZFrame buf snd_more, z1) \<Rightarrow> Some (Some (buf, snd_more), z1)
    | (ZInterrupted, z1) \<Rightarrow> recv_frame zq sock z1
    | (ZFailed, z1) \<Rightarrow> Some (None, z1))"

text \<open>What \<^verbatim>\<open>RecvMsg\<close> does with frame number \<open>i\<close>; the result says whether the loop ends.\<close>

definition take_frame ::
  "(byte list \<Rightarrow> PBMeta option) \<Rightarrow> Node \<Rightarrow> nat \<Rightarrow> byte list \<Rightarrow> bool \<Rightarrow> Message \<Rightarrow> (bool \<times> Message) res" where
  "take_frame parse me i buf snd_more msg =
     (if i = 0 then rbind (GetNodeID buf) (\<lambda>sender.
        let msg' = msg\<lparr>msg_meta := (msg_meta msg)\<lparr>m_sender := sender, m_recver := n_id me\<rparr>\<rparr> in
        check snd_more ''zmq_msg_more(zmsg)'' (Inr (False, msg')))
      else if i = 1 then rbind (UnpackMeta parse buf (msg_meta msg)) (\<lambda>meta. Inr (\<not> snd_more, msg\<lparr>msg_meta := meta\<rparr>))
      else Inr (\<not> snd_more, msg\<lparr>msg_data := msg_data msg @ [buf]\<rparr>))"

partial_function (option) recv_loop ::
  "(byte list \<Rightarrow> PBMeta option) \<Rightarrow> 'z Zmq \<Rightarrow> Node \<Rightarrow> nat \<Rightarrow> nat \<Rightarrow> int \<Rightarrow> Message \<Rightarrow> 'z \<Rightarrow> (int \<times> Message \<times> 'z) res option" where
  "recv_loop parse zq me sock i recv_bytes msg z =
     (if zq_msg_init zq z \<noteq> 0 then Some (Inl (Check ''zmq_msg_init(zmsg) == 0''))
      else Option.bind (recv_frame zq sock z) (\<lambda>(f, z1). case f of
          None \<Rightarrow> Some (Inr (-1, msg, z1))
        | Some (None, snd_more) \<Rightarrow> Some (Inl (Check ''zmq_msg_data(zmsg) not null''))
        | Some (Some buf, snd_more) \<Rightarrow>
            (case take_frame parse me i buf snd_more msg of
               Inl e \<Rightarrow> Some (Inl e)
             | Inr (ends, msg') \<Rightarrow>
                 if ends then Some (Inr (recv_bytes + int (length buf), msg', z1))
                 else recv_loop parse zq me sock (Suc i) (recv_bytes + int (length buf)) msg' z1)))"

definition ZMQVan_RecvMsg ::
  "(byte list \<Rightarrow> PBMeta option) \<Rightarrow> 'z Zmq \<Rightarrow> Node \<Rightarrow> Message \<Rightarrow> 'z ZMQ \<Rightarrow> (int \<times> Message \<times> 'z ZMQ) res option" where
  "ZMQVan_RecvMsg parse zq me msg s =
     (let msg' = msg\<lparr>msg_data := []\<rparr> in
      case z_receiver s of
        None \<Rightarrow> Some (Inr (-1, msg', s))
      | Some sock \<Rightarrow> map_option (\<lambda>r. rbind r (\<lambda>(n, m, z). Inr (n, m, s\<lparr>z_lib := z\<rparr>)))
          (recv_loop parse zq me sock 0 0 msg' (z_lib s)))"

section \<open>The van\<close>

text \<open>\<^verbatim>\<open>SendMsg\<close> leaves the message as it is and looks neither at the node nor at the flag \<^verbatim>\<open>connect\<close>.\<close>

definition ZMQVan ::
  "(PBMeta \<Rightarrow> byte list option) \<Rightarrow> 'z Zmq \<Rightarrow> (string \<Rightarrow> string option) \<Rightarrow> Environment \<Rightarrow> 'z ZMQ Transport" where
  "ZMQVan ser zq sys env = \<lparr>
     tr_SendMsg = (\<lambda>me msg node connect s. case ZMQVan_SendMsg ser zq msg s of
        None \<Rightarrow> Inl NoReturn | Some r \<Rightarrow> rbind r (\<lambda>(n, s'). Inr (n, msg, s'))),
     tr_Connect = ZMQVan_Connect zq sys env,
     tr_Bind = ZMQVan_Bind zq sys env\<rparr>"

section \<open>Sending by priority\<close>

record 'z P3 =
  p3_zmq :: "'z ZMQ"
  p3_send_queue :: "Message list"
  p3_init_stage :: int
  p3_sending :: bool

definition P3Van_init :: "'z \<Rightarrow> 'z P3" where
  "P3Van_init z = \<lparr>p3_zmq = ZMQVan_init z, p3_send_queue = [], p3_init_stage = 0, p3_sending = False\<rparr>"

text \<open>\<^verbatim>\<open>Start\<close> before it calls \<^verbatim>\<open>ZMQVan::Start\<close>: \<open>p3_sending\<close> says that the sender thread runs.\<close>

definition P3Van_Start :: "'z P3 \<Rightarrow> 'z P3" where
  "P3Van_Start p = (if p3_init_stage p = 0 then p\<lparr>p3_sending := True, p3_init_stage := p3_init_stage p + 1\<rparr> else p)"

text \<open>\<^verbatim>\<open>Stop\<close> then waits for the end of the sender thread.\<close>

definition P3Van_Stop :: "'z Zmq \<Rightarrow> 'z P3 \<Rightarrow> 'z P3 res" where
  "P3Van_Stop zq p = rbind (ZMQVan_Stop zq (p3_zmq p)) (\<lambda>s. Inr (p\<lparr>p3_zmq := s\<rparr>))"

definition P3Van_SendMsg :: "Message \<Rightarrow> 'z P3 \<Rightarrow> int \<times> 'z P3" where
  "P3Van_SendMsg msg p = (0, p\<lparr>p3_send_queue := pq_Push msg (p3_send_queue p)\<rparr>)"

text \<open>One round of the sender thread; \<open>None\<close> while it waits for a message.  The result of
  \<^verbatim>\<open>ZMQVan::SendMsg\<close> is not looked at.\<close>

definition P3Van_Sending_round :: "(PBMeta \<Rightarrow> byte list option) \<Rightarrow> 'z Zmq \<Rightarrow> 'z P3 \<Rightarrow> 'z P3 res option" where
  "P3Van_Sending_round ser zq p = (case pq_WaitAndPop (p3_send_queue p) of
      None \<Rightarrow> None
    | Some (msg, q) \<Rightarrow>
        map_option (\<lambda>r. rbind r (\<lambda>(_, s).
          let ctrl = m_control (msg_meta msg) in
          Inr (p\<lparr>p3_zmq := s, p3_send_queue := q,
                 p3_sending := \<not> (\<not> Control_empty ctrl \<and> ctl_cmd ctrl = TERMINATE)\<rparr>)))
          (ZMQVan_SendMsg ser zq msg (p3_zmq p)))"

definition P3Van ::
  "(PBMeta \<Rightarrow> byte list option) \<Rightarrow> 'z Zmq \<Rightarrow> (string \<Rightarrow> string option) \<Rightarrow> Environment \<Rightarrow> 'z P3 Transport" where
  "P3Van ser zq sys env = \<lparr>
     tr_SendMsg = (\<lambda>me msg node connect p. case P3Van_SendMsg msg p of (n, p') \<Rightarrow> Inr (n, msg, p')),
     tr_Connect = (\<lambda>me node p. rbind (ZMQVan_Connect zq sys env me node (p3_zmq p)) (\<lambda>s. Inr (p\<lparr>p3_zmq := s\<rparr>))),
     tr_Bind = (\<lambda>node k p. rbind (ZMQVan_Bind zq sys env node k (p3_zmq p)) (\<lambda>(port, s). Inr (port, p\<lparr>p3_zmq := s\<rparr>)))\<rparr>"

end
