(* ===== verification/Ps_ZmqProps.thy ===== *)
theory Ps_ZmqProps
  imports Ps_ZmqVan
begin

text \<open>
  Properties of the van over ZeroMQ: a message over a working library, and what becomes of the
  van's start-up.  \<open>zmq_library\<close> states what the manual of \<^verbatim>\<open>libzmq\<close> says of sending and receiving frames: a frame
  is queued or the call is interrupted without effect, and only finitely many interruptions come.
\<close>

section \<open>The library\<close>

text \<open>What can be observed of the library: the frames sent and still to be received on a socket,
  each with the flag that more follow, the open sockets, and a bound on the interruptions to come.\<close>

record 'z ZObs =
  zo_sent :: "'z \<Rightarrow> nat \<Rightarrow> (byte list \<times> bool) list"
  zo_inbox :: "'z \<Rightarrow> nat \<Rightarrow> (byte list \<times> bool) list"
  zo_open :: "'z \<Rightarrow> nat set"
  zo_intr :: "'z \<Rightarrow> nat"

text \<open>The frames of a multi-part message.\<close>

fun flagged :: "byte list list \<Rightarrow> (byte list \<times> bool) list" where
  "flagged [] = []"
| "flagged (b # bs) = (b, bs \<noteq> []) # flagged bs"

locale zmq_library =
  fixes zq :: "'z Zmq" and zo :: "'z ZObs"
  assumes msg_init: "zq_msg_init zq z = 0"
    and send_law: "sock \<in> zo_open zo z \<Longrightarrow> \<exists>e z'. zo_open zo z' = zo_open zo z
      \<and> (zq_send zq sock b fl z = ((int (length b), e), z') \<and> zo_sent zo z' sock = zo_sent zo z sock @ [(b, fl)]
         \<or> zq_send zq sock b fl z = ((-1, True), z') \<and> zo_sent zo z' sock = zo_sent zo z sock \<and> zo_intr zo z' < zo_intr zo z)"
    and recv_law: "zo_inbox zo z sock = (b, fl) # fs \<Longrightarrow> \<exists>z'.
        zq_recv zq sock z = (ZFrame (Some b) fl, z') \<and> zo_inbox zo z' sock = fs
      \<or> zq_recv zq sock z = (ZInterrupted, z') \<and> zo_inbox zo z' sock = zo_inbox zo z sock \<and> zo_intr zo z' < zo_intr zo z"
begin

lemma send_frame_ok:
  assumes "sock \<in> zo_open zo z"
  shows "\<exists>z'. send_frame zq sock b fl z = Some (True, z') \<and> zo_open zo z' = zo_open zo z
    \<and> zo_sent zo z' sock = zo_sent zo z sock @ [(b, fl)]"
  using assms
proof (induction "zo_intr zo z" arbitrary: z rule: less_induct)
  case less
  obtain e z1 where z1: "zo_open zo z1 = zo_open zo z"
    and c: "zq_send zq sock b fl z = ((int (length b), e), z1) \<and> zo_sent zo z1 sock = zo_sent zo z sock @ [(b, fl)]
      \<or> zq_send zq sock b fl z = ((-1, True), z1) \<and> zo_sent zo z1 sock = zo_sent zo z sock \<and> zo_intr zo z1 < zo_intr zo z"
    using send_law[OF less.prems, of b fl] by blast
  show ?case
  proof (cases "zq_send zq sock b fl z = ((-1, True), z1)")
    case True
    then have eq: "send_frame zq sock b fl z = send_frame zq sock b fl z1" by (subst send_frame.simps) simp
    show ?thesis using c True less.hyps[of z1] less.prems z1 unfolding eq by auto
  next
    case False
    then have "send_frame zq sock b fl z = Some (True, z1)" using c by (subst send_frame.simps) auto
    then show ?thesis using c False z1 by auto
  qed
qed

lemma send_frames_ok:
  assumes "sock \<in> zo_open zo z"
  shows "\<exists>z'. send_frames zq sock bs n z = Some (n + int (length (concat bs)), z') \<and> zo_open zo z' = zo_open zo z
    \<and> zo_sent zo z' sock = zo_sent zo z sock @ flagged bs"
  using assms
proof (induction bs arbitrary: n z)
  case (Cons b bs)
  obtain z1 where z1: "send_frame zq sock b (bs \<noteq> []) z = Some (True, z1)" "zo_open zo z1 = zo_open zo z"
    "zo_sent zo z1 sock = zo_sent zo z sock @ [(b, bs \<noteq> [])]" using send_frame_ok[OF Cons.prems] by blast
  then show ?case using Cons.IH[of z1 "n + int (length b)"] Cons.prems by (auto simp: algebra_simps)
qed simp

lemma recv_frame_ok:
  assumes "zo_inbox zo z sock = (b, fl) # fs"
  shows "\<exists>z'. recv_frame zq sock z = Some (Some (Some b, fl), z') \<and> zo_inbox zo z' sock = fs"
  using assms
proof (induction "zo_intr zo z" arbitrary: z rule: less_induct)
  case less
  obtain z1 where c: "zq_recv zq sock z = (ZFrame (Some b) fl, z1) \<and> zo_inbox zo z1 sock = fs
      \<or> zq_recv zq sock z = (ZInterrupted, z1) \<and> zo_inbox zo z1 sock = zo_inbox zo z sock \<and> zo_intr zo z1 < zo_intr zo z"
    using recv_law[OF less.prems] by blast
  then show ?case
  proof
    assume "zq_recv zq sock z = (ZFrame (Some b) fl, z1) \<and> zo_inbox zo z1 sock = fs"
    then show ?thesis by (subst recv_frame.simps) simp
  next
    assume r: "zq_recv zq sock z = (ZInterrupted, z1) \<and> zo_inbox zo z1 sock = zo_inbox zo z sock \<and> zo_intr zo z1 < zo_intr zo z"
    then have eq: "recv_frame zq sock z = recv_frame zq sock z1" by (subst recv_frame.simps) simp
    show ?thesis using less.hyps[of z1] less.prems r unfolding eq by simp
  qed
qed

lemma recv_loop_step:
  assumes "zo_inbox zo z sock = (b, fl) # fs" and "take_frame parse me i b fl msg = Inr (ends, msg')"
  shows "\<exists>z'. recv_loop parse zq me sock i n msg z = (if ends then Some (Inr (n + int (length b), msg', z'))
      else recv_loop parse zq me sock (Suc i) (n + int (length b)) msg' z') \<and> zo_inbox zo z' sock = fs"
proof -
  obtain z' where z': "recv_frame zq sock z = Some (Some (Some b, fl), z')" "zo_inbox zo z' sock = fs"
    using recv_frame_ok[OF assms(1)] by blast
  have "recv_loop parse zq me sock i n msg z = (if ends then Some (Inr (n + int (length b), msg', z'))
      else recv_loop parse zq me sock (Suc i) (n + int (length b)) msg' z')"
    by (subst recv_loop.simps) (simp add: msg_init z' assms(2))
  then show ?thesis using z'(2) by blast
qed

lemma recv_parts_ok:
  assumes "zo_inbox zo z sock = flagged bs @ rest" and "bs \<noteq> []" and "2 \<le> i"
  shows "\<exists>z'. recv_loop parse zq me sock i n msg z =
      Some (Inr (n + int (length (concat bs)), msg\<lparr>msg_data := msg_data msg @ bs\<rparr>, z')) \<and> zo_inbox zo z' sock = rest"
  using assms
proof (induction bs arbitrary: i n msg z)
  case (Cons b bs)
  obtain z1 where z1: "recv_loop parse zq me sock i n msg z =
      (if bs = [] then Some (Inr (n + int (length b), msg\<lparr>msg_data := msg_data msg @ [b]\<rparr>, z1))
       else recv_loop parse zq me sock (Suc i) (n + int (length b)) (msg\<lparr>msg_data := msg_data msg @ [b]\<rparr>) z1)"
    "zo_inbox zo z1 sock = flagged bs @ rest"
    using recv_loop_step[of z sock b "bs \<noteq> []" "flagged bs @ rest" parse me i msg "bs = []" "msg\<lparr>msg_data := msg_data msg @ [b]\<rparr>" n] Cons.prems
    by (auto simp: take_frame_def)
  show ?case
  proof (cases "bs = []")
    case False
    then show ?thesis using Cons.IH[OF z1(2) False, of "Suc i" "n + int (length b)" "msg\<lparr>msg_data := msg_data msg @ [b]\<rparr>"] z1(1) Cons.prems(3)
      by (auto simp: algebra_simps)
  qed (use z1 in auto)
qed simp

end

section \<open>Identities\<close>

definition identity_bytes :: "int \<Rightarrow> byte list" where
  "identity_bytes i = map of_char (''ps'' @ to_string i)"

lemma uint_of_char: "uint (of_char c :: byte) = int (of_char c)"
proof -
  have "(of_char c :: byte) = word_of_nat (of_char c)" by (cases c) (simp add: of_char_def)
  moreover have "(of_char c :: nat) < 256" by (rule nat_of_char_less_256)
  ultimately show ?thesis by (simp only: unsigned_of_nat take_bit_eq_mod) simp
qed

lemma read_id_digits:
  assumes "list_all is_digit cs" and "int (foldl (\<lambda>a c. 10 * a + digit_val c) a cs) + 48 < 2 ^ 31"
  shows "read_id (int a) (map of_char cs) = Inr (int (foldl (\<lambda>a c. 10 * a + digit_val c) a cs))"
  using assms
proof (induction cs arbitrary: a)
  case (Cons c cs)
  have ge: "a \<le> foldl (\<lambda>a c. 10 * a + digit_val c) a ds" for a ds
  proof (induction ds arbitrary: a)
    case (Cons d ds)
    show ?case using Cons[of "10 * a + digit_val d"] by simp
  qed simp
  have c: "48 \<le> (of_char c :: nat)" "(of_char c :: nat) \<le> 57" using Cons.prems(1) by (simp_all add: is_digit_def)
  then have d: "int (digit_val c) = int (of_char c) - 48" by (simp add: digit_val_def of_nat_diff)
  have "int (10 * a + digit_val c) + 48 < 2 ^ 31" using ge[of "10 * a + digit_val c" cs] Cons.prems(2) by simp
  then have "int a * 10 + int (of_char c) < 2 ^ 31" using d by simp
  moreover have "int a * 10 + int (of_char c) - 48 = int (10 * a + digit_val c)" using d by simp
  ultimately have "read_id (int a) (map of_char (c # cs)) = read_id (int (10 * a + digit_val c)) (map of_char cs)"
    using c by (simp only: list.map read_id.simps uint_of_char) simp
  then show ?case using Cons.IH[of "10 * a + digit_val c"] Cons.prems by simp
qed simp

lemma GetNodeID_identity:
  assumes "0 \<le> i" and "i + 48 < 2 ^ 31"
  shows "GetNodeID (identity_bytes i) = Inr i"
proof -
  have "int (foldl (\<lambda>a c. 10 * a + digit_val c) 0 (digits (nat i))) = i"
    using read_digits_digits[of "nat i"] assms(1) by (simp add: read_digits_def)
  then have "read_id (int 0) (map of_char (digits (nat i))) = Inr i"
    using read_id_digits[OF digits_is_digit, of 0 "nat i"] assms(2) by simp
  moreover have "0 < length (digits (nat i))" using digits_nonempty by simp
  ultimately show ?thesis using assms(1) by (simp add: GetNodeID_def identity_bytes_def to_string_def)
qed

lemma unpack_identified:
  assumes "PackMeta ser m = Inr buf" and "parse buf = Some (PackMeta_pb m)"
  shows "UnpackMeta parse buf (Meta_init\<lparr>m_sender := i, m_recver := r\<rparr>) = Inr ((wire_meta m)\<lparr>m_recver := r\<rparr>)"
proof -
  have "unpack_control (pb_control (PackMeta_pb m)) (m_control Meta_init) = Inr (wire_control (m_control m))"
    using unpack_pack_control[of "m_control m"] by (simp add: PackMeta_pb_def Meta_init_def)
  moreover have "rmap (enum_cast data_types) (pb_data_type (PackMeta_pb m)) = Inr (m_data_type m)"
    by (simp add: PackMeta_pb_def rmap_inverse)
  ultimately show ?thesis using assms(2)
    by (cases m) (simp add: UnpackMeta_def unpack_pb_def PackMeta_pb_def wire_meta_def Meta_init_def PBMeta_init_def)
qed


context zmq_library
begin

lemma recv_message_ok:
  assumes sid: "0 \<le> sid" "sid + 48 < 2 ^ 31"
    and inbox: "zo_inbox zo z r = (identity_bytes sid, True) # flagged (buf # bs) @ rest"
    and pb: "PackMeta ser meta = Inr buf" "parse buf = Some (PackMeta_pb meta)"
  shows "\<exists>z'. recv_loop parse zq me r 0 0 (Message_init\<lparr>msg_data := []\<rparr>) z =
      Some (Inr (int (length (concat (identity_bytes sid # buf # bs))),
        \<lparr>msg_meta = (wire_meta meta)\<lparr>m_recver := n_id me\<rparr>, msg_data = bs\<rparr>, z')) \<and> zo_inbox zo z' r = rest"
proof -
  let ?m0 = "Message_init\<lparr>msg_data := []\<rparr>" and ?k = "int (length (identity_bytes sid))"
  let ?m1 = "\<lparr>msg_meta = Meta_init\<lparr>m_sender := sid, m_recver := n_id me\<rparr>, msg_data = []\<rparr>"
  let ?m2 = "\<lparr>msg_meta = (wire_meta meta)\<lparr>m_recver := n_id me\<rparr>, msg_data = []\<rparr>"
  have f0: "take_frame parse me 0 (identity_bytes sid) True ?m0 = Inr (False, ?m1)"
    by (simp add: take_frame_def GetNodeID_identity[OF sid] Message_init_def)
  have f1: "take_frame parse me 1 buf (bs \<noteq> []) ?m1 = Inr (bs = [], ?m2)"
    using unpack_identified[where parse = parse and buf = buf and i = sid and r = "n_id me", OF pb] by (simp add: take_frame_def)
  obtain z1 where z1: "recv_loop parse zq me r 0 0 ?m0 z = recv_loop parse zq me r 1 ?k ?m1 z1"
    "zo_inbox zo z1 r = flagged (buf # bs) @ rest"
    using recv_loop_step[OF inbox f0, of 0] by auto
  obtain z2 where z2: "recv_loop parse zq me r 1 ?k ?m1 z1 =
      (if bs = [] then Some (Inr (?k + int (length buf), ?m2, z2)) else recv_loop parse zq me r 2 (?k + int (length buf)) ?m2 z2)"
    "zo_inbox zo z2 r = flagged bs @ rest"
    using recv_loop_step[OF _ f1, unfolded Suc_1, of z1 r "flagged bs @ rest" ?k] z1(2) by auto
  show ?thesis
  proof (cases "bs = []")
    case False
    then show ?thesis using recv_parts_ok[OF z2(2) False, of 2 parse me "?k + int (length buf)" ?m2] z1(1) z2(1)
      by (auto simp: add.assoc)
  qed (use z1(1) z2 in auto)
qed

end

section \<open>Properties\<close>


text \<open>A library with one wire out and one wire in, whose state also counts the interruptions to come.\<close>

type_synonym Wires = "(byte list \<times> bool) list \<times> (byte list \<times> bool) list \<times> nat"

definition wires :: "Wires Zmq" where
  "wires = \<lparr>zq_ctx_new = Pair True, zq_ctx_set_max_sockets = (\<lambda>_ z. z), zq_ctx_destroy = (\<lambda>z. z),
     zq_socket = (\<lambda>_. Pair (Some 0)), zq_linger = (\<lambda>_ _. Pair True), zq_close = (\<lambda>_. Pair 0),
     zq_identity = (\<lambda>_ _ z. z), zq_sndhwm = (\<lambda>_ _ z. z), zq_bind = (\<lambda>_ _. Pair 0), zq_connect = (\<lambda>_ _. Pair 0),
     zq_send = (\<lambda>_ b fl (out, inp, k). if 0 < k then ((-1, True), (out, inp, k - 1)) else ((int (length b), False), (out @ [(b, fl)], inp, k))),
     zq_msg_init = (\<lambda>_. 0),
     zq_recv = (\<lambda>_ (out, inp, k). if 0 < k then (ZInterrupted, (out, inp, k - 1))
        else (case inp of [] \<Rightarrow> (ZFailed, (out, inp, k)) | (b, fl) # fs \<Rightarrow> (ZFrame (Some b) fl, (out, fs, k)))),
     zq_rand = Pair 7\<rparr>"

definition wires_obs :: "Wires ZObs" where
  "wires_obs = \<lparr>zo_sent = (\<lambda>z _. fst z), zo_inbox = (\<lambda>z _. fst (snd z)), zo_open = (\<lambda>_. UNIV), zo_intr = (\<lambda>z. snd (snd z))\<rparr>"

interpretation wires: zmq_library wires wires_obs
proof unfold_locales
  show "\<exists>e z'. zo_open wires_obs z' = zo_open wires_obs z
      \<and> (zq_send wires sock b fl z = ((int (length b), e), z') \<and> zo_sent wires_obs z' sock = zo_sent wires_obs z sock @ [(b, fl)]
         \<or> zq_send wires sock b fl z = ((-1, True), z') \<and> zo_sent wires_obs z' sock = zo_sent wires_obs z sock
           \<and> zo_intr wires_obs z' < zo_intr wires_obs z)" for z sock b fl
    by (cases z; cases "snd (snd z)") (auto simp: wires_def wires_obs_def)
  show "\<exists>z'. zq_recv wires sock z = (ZFrame (Some b) fl, z') \<and> zo_inbox wires_obs z' sock = fs
      \<or> zq_recv wires sock z = (ZInterrupted, z') \<and> zo_inbox wires_obs z' sock = zo_inbox wires_obs z sock
        \<and> zo_intr wires_obs z' < zo_intr wires_obs z" if "zo_inbox wires_obs z sock = (b, fl) # fs" for z sock b fl fs
    using that by (cases z; cases "snd (snd z)") (auto simp: wires_def wires_obs_def)
qed (simp add: wires_def)

text \<open>A worker with id 9 sends a message with two parts to a server with id 8; every van is interrupted twice.\<close>

definition zmq_demo_msg :: Message where
  "zmq_demo_msg = \<lparr>msg_meta = wire_demo\<lparr>m_sender := kEmpty\<rparr>, msg_data = [[3, 4], [5]]\<rparr>"

definition zmq_demo_ser :: "PBMeta \<Rightarrow> byte list option" where
  "zmq_demo_ser pb = Some [1, 2]"

definition zmq_demo_parse :: "byte list \<Rightarrow> PBMeta option" where
  "zmq_demo_parse b = Some (PackMeta_pb (msg_meta zmq_demo_msg))"

definition zmq_demo_frames :: "(byte list \<times> bool) list" where
  "zmq_demo_frames = [([1, 2], True), ([3, 4], True), ([5], False)]"

definition zmq_demo_sender :: "Wires ZMQ" where
  "zmq_demo_sender = \<lparr>z_context = True, z_senders = [(8, 0)], z_receiver = None, z_lib = ([], [], 2)\<rparr>"

definition zmq_demo_receiver :: "Wires ZMQ" where
  "zmq_demo_receiver = \<lparr>z_context = True, z_senders = [], z_receiver = Some 1,
     z_lib = ([], (identity_bytes 9, True) # zmq_demo_frames @ [([7], False)], 2)\<rparr>"



lemma Bind_senders: "ZMQVan_Bind zq sys env node k s = Inr (port, s') \<Longrightarrow> z_senders s' = z_senders s"
  by (auto simp: ZMQVan_Bind_def Let_def case_prod_unfold split: prod.splits option.splits)

lemma Bind_error: "ZMQVan_Bind zq sys env node k s = Inl e \<Longrightarrow> \<exists>c. e = Check c"
  by (auto simp: ZMQVan_Bind_def Let_def case_prod_unfold split: prod.splits option.splits)

lemma my_node_info_error: "my_node_info cx customer_id h = Inl e \<Longrightarrow> \<exists>c. e = Check c"
  by (auto simp: my_node_info_def my_address_def check_def Let_def split: if_splits option.splits prod.splits)

text \<open>C26: No worker or server can start over ZeroMQ.  A van without a socket for the scheduler, which only
  \<^verbatim>\<open>Connect\<close> would make, aborts in \<^verbatim>\<open>Van::Start\<close> with a failed check, whatever the library, the settings and the network do:
  \<^verbatim>\<open>Start\<close> sends the scheduler a connection message instead of calling \<^verbatim>\<open>Connect\<close>, \<^verbatim>\<open>ZMQVan::SendMsg\<close> ignores the node
  it is given and returns \<open>-1\<close>, and \<^verbatim>\<open>Van::Send\<close> checks that.\<close>

theorem zmq_start_aborts:
  assumes "cx_tr cx = ZMQVan ser zq sys env" and "v_init_stage (h_van h) = 0" and "\<not> po_is_scheduler (h_office h)"
    and "um_find (z_senders (v_net (h_van h))) kScheduler = None"
  shows "\<exists>e. Van_Start_connect cx customer_id h = Inl (Check e)"
proof -
  have no_socket: "send_connect cx kScheduler n h' = Inl (Check ''send_bytes != -1'')"
    if "um_find (z_senders (v_net (h_van h'))) kScheduler = None" for n h'
  proof -
    have "kScheduler \<noteq> kEmpty" by (simp add: kScheduler_def kEmpty_def)
    then show ?thesis using that assms(1)
      by (simp add: send_connect_def Van_Send_def ZMQVan_def ZMQVan_SendMsg_def control_msg_def check_def Let_def)
  qed
  have bound: "um_find (z_senders s) kScheduler = None" if "ZMQVan_Bind zq sys env n k (v_net (h_van h)) = Inr (port, s)" for n k port s
    using Bind_senders[OF that] assms(4) by simp
  show ?thesis
    using assms
    by (auto simp: Van_Start_connect_def Let_def check_def ZMQVan_def rbind_def no_socket dest: my_node_info_error Bind_error
        dest!: bound split: option.splits sum.splits prod.splits)
qed

text \<open>A worker whose settings are complete.\<close>

definition zmq_env :: Environment where
  "zmq_env = \<lparr>env_kvs = [(''DMLC_PS_ROOT_URI'', ''s''), (''DMLC_PS_ROOT_PORT'', ''9''), (''DMLC_NODE_HOST'', ''w'')]\<rparr>"

definition zmq_cx :: "Wires ZMQ Ctx" where
  "zmq_cx = \<lparr>cx_tr = ZMQVan zmq_demo_ser wires (\<lambda>_. None) zmq_env, cx_sys = (\<lambda>_. None), cx_env = zmq_env, cx_time = 1, cx_ms = 1,
     cx_ifas = [], cx_port = 7\<rparr>"

definition zmq_worker :: "Wires ZMQ Host" where
  "zmq_worker = Host_init (Van_init (\<lambda>_. None) zmq_env (ZMQVan_init ([], [], 0))) (Postoffice_init\<lparr>po_is_worker := True\<rparr>)"

theorem zmq_start_aborts_witness:
  "po_is_worker (h_office zmq_worker) \<and> (\<exists>e. Van_Start_connect zmq_cx 0 zmq_worker = Inl (Check e))"
proof -
  have "cx_tr zmq_cx = ZMQVan zmq_demo_ser wires (\<lambda>_. None) zmq_env" "v_init_stage (h_van zmq_worker) = 0"
    "\<not> po_is_scheduler (h_office zmq_worker)" "um_find (z_senders (v_net (h_van zmq_worker))) kScheduler = None"
    "po_is_worker (h_office zmq_worker)"
    by (simp_all add: zmq_cx_def zmq_worker_def Host_init_def Van_init_def ZMQVan_init_def Postoffice_init_def)
  then show ?thesis using zmq_start_aborts[of zmq_cx zmq_demo_ser wires "\<lambda>_. None" zmq_env zmq_worker 0] by simp
qed

end
