(* ===== verification/Ps_Parallel.thy ===== *)
theory Ps_Parallel
  imports Ps_SArray
begin

text \<open>
  \<^verbatim>\<open>include/ps/internal/parallel_sort.h\<close>: a merge sort over the memory of a shared array whose two halves are
  sorted by two threads.  The threads work on disjoint parts of the memory; the model runs one after
  the other.  \<^verbatim>\<open>std::sort\<close> and \<^verbatim>\<open>std::inplace_merge\<close> of the standard library are an insertion sort and a stable
  merge; where \<^verbatim>\<open>cmp\<close> does not tell elements apart the standard leaves the order of the first open.
\<close>

section \<open>The standard library\<close>

fun insert_by :: "('a \<Rightarrow> 'a \<Rightarrow> bool) \<Rightarrow> 'a \<Rightarrow> 'a list \<Rightarrow> 'a list" where
  "insert_by cmp x [] = [x]"
| "insert_by cmp x (y # ys) = (if cmp y x then y # insert_by cmp x ys else x # y # ys)"

definition sort_by :: "('a \<Rightarrow> 'a \<Rightarrow> bool) \<Rightarrow> 'a list \<Rightarrow> 'a list" where
  "sort_by cmp xs = foldr (insert_by cmp) xs []"

fun merge_by :: "('a \<Rightarrow> 'a \<Rightarrow> bool) \<Rightarrow> 'a list \<Rightarrow> 'a list \<Rightarrow> 'a list" where
  "merge_by cmp [] ys = ys"
| "merge_by cmp xs [] = xs"
| "merge_by cmp (x # xs) (y # ys) = (if cmp y x then y # merge_by cmp (x # xs) ys else x # merge_by cmp xs (y # ys))"

definition std_sort :: "('a \<Rightarrow> 'a \<Rightarrow> bool) \<Rightarrow> 'a mem \<Rightarrow> ptr \<Rightarrow> nat \<Rightarrow> 'a mem res" where
  "std_sort cmp h p len = rbind (mread h p len) (\<lambda>xs. mwrite h p (sort_by cmp xs))"

definition inplace_merge :: "('a \<Rightarrow> 'a \<Rightarrow> bool) \<Rightarrow> 'a mem \<Rightarrow> ptr \<Rightarrow> nat \<Rightarrow> nat \<Rightarrow> 'a mem res" where
  "inplace_merge cmp h p mid len =
     rbind (mread h p mid) (\<lambda>xs. rbind (mread h (padd p mid) (len - mid)) (\<lambda>ys. mwrite h p (merge_by cmp xs ys)))"

section \<open>Parallel sort\<close>

text \<open>The thread function; \<open>None\<close> when it does not return.\<close>

partial_function (option) ParallelSort_thread ::
  "('a \<Rightarrow> 'a \<Rightarrow> bool) \<Rightarrow> nat \<Rightarrow> ptr \<Rightarrow> nat \<Rightarrow> 'a mem \<Rightarrow> 'a mem res option" where
  "ParallelSort_thread cmp grainsize p len h =
     (if len \<le> grainsize then Some (std_sort cmp h p len)
      else Option.bind (ParallelSort_thread cmp grainsize p (len div 2) h) (\<lambda>r. case r of
          Inl e \<Rightarrow> Some (Inl e)
        | Inr h1 \<Rightarrow>
            Option.bind (ParallelSort_thread cmp grainsize (padd p (len div 2)) (len - len div 2) h1) (\<lambda>r. case r of
                Inl e \<Rightarrow> Some (Inl e)
              | Inr h2 \<Rightarrow> Some (inplace_merge cmp h2 p (len div 2) len))))"

definition ParallelSort :: "('a \<Rightarrow> 'a \<Rightarrow> bool) \<Rightarrow> int \<Rightarrow> 'a mem \<Rightarrow> sarray \<Rightarrow> 'a mem res option" where
  "ParallelSort cmp num_threads h arr =
     (if num_threads > 0
      then ParallelSort_thread cmp (max (sa_size arr div nat num_threads + 5) (1024 * 16)) (sa_ptr arr) (sa_size arr) h
      else Some (Inl (Check ''num_threads > 0'')))"

section \<open>Sorting and merging\<close>

lemma mread_part: "b < length h \<Longrightarrow> h ! b = pre @ xs @ post \<Longrightarrow> mread h (Some (b, length pre)) (length xs) = Inr xs"
  by (simp add: mread_def seg_def)

lemma mwrite_part:
  assumes "b < length h" and "h ! b = pre @ xs @ post" and "length ys = length xs"
  shows "mwrite h (Some (b, length pre)) ys = Inr (h[b := pre @ ys @ post])"
  using assms by (cases "ys = []") (simp_all add: mwrite_def, metis list_update_id)

text \<open>A strict weak order, which the standard library asks for: \<open>\<not> cmp y x\<close> is a total preorder.\<close>

locale weak_order =
  fixes cmp :: "'a \<Rightarrow> 'a \<Rightarrow> bool"
  assumes asym: "cmp x y \<Longrightarrow> \<not> cmp y x" and negtrans: "\<not> cmp y x \<Longrightarrow> \<not> cmp z y \<Longrightarrow> \<not> cmp z x"
begin

abbreviation ordered :: "'a list \<Rightarrow> bool" where
  "ordered \<equiv> sorted_wrt (\<lambda>x y. \<not> cmp y x)"

lemma mset_insert_by [simp]: "mset (insert_by cmp x ys) = add_mset x (mset ys)"
  by (induction ys) auto

lemma set_insert_by [simp]: "set (insert_by cmp x ys) = insert x (set ys)"
  by (induction ys) auto

lemma ordered_insert_by: "ordered ys \<Longrightarrow> ordered (insert_by cmp x ys)"
  by (induction ys) (auto dest: asym negtrans)

lemma mset_sort_by [simp]: "mset (sort_by cmp xs) = mset xs"
  by (induction xs) (simp_all add: sort_by_def)

lemma length_sort_by [simp]: "length (sort_by cmp xs) = length xs"
  by (rule mset_eq_length) simp

lemma ordered_sort_by: "ordered (sort_by cmp xs)"
  by (induction xs) (simp_all add: sort_by_def ordered_insert_by)

lemma mset_merge_by [simp]: "mset (merge_by cmp xs ys) = mset xs + mset ys"
  by (induction cmp xs ys rule: merge_by.induct) simp_all

lemma length_merge_by [simp]: "length (merge_by cmp xs ys) = length xs + length ys"
  by (induction cmp xs ys rule: merge_by.induct) simp_all

lemma set_merge_by [simp]: "set (merge_by cmp xs ys) = set xs \<union> set ys"
  by (metis mset_merge_by set_mset_mset set_mset_union)

lemma ordered_merge_by: "ordered xs \<Longrightarrow> ordered ys \<Longrightarrow> ordered (merge_by cmp xs ys)"
proof (induction xs arbitrary: ys)
  case (Cons x xs)
  note outer = Cons
  show ?case using outer(3)
  proof (induction ys)
    case (Cons y ys)
    then show ?case using outer(1)[of "y # ys"] outer(2) by (auto dest: asym negtrans)
  qed (use outer(2) in simp)
qed simp

text \<open>The thread function on a part of a block: it returns, whatever the grain size above 0, and leaves the
  elements of the part in order.\<close>

lemma thread_ok:
  assumes "0 < grainsize" and "b < length h" and "h ! b = pre @ xs @ post"
  shows "\<exists>ys. ParallelSort_thread cmp grainsize (Some (b, length pre)) (length xs) h = Some (Inr (h[b := pre @ ys @ post]))
    \<and> mset ys = mset xs \<and> ordered ys"
  using assms
proof (induction "length xs" arbitrary: pre xs post h rule: less_induct)
  case less
  show ?case
  proof (cases "length xs \<le> grainsize")
    case True
    then have "ParallelSort_thread cmp grainsize (Some (b, length pre)) (length xs) h = Some (Inr (h[b := pre @ sort_by cmp xs @ post]))"
      using less.prems mread_part[OF less.prems(2,3)] mwrite_part[of b h pre xs post "sort_by cmp xs"]
      by (subst ParallelSort_thread.simps) (simp add: std_sort_def)
    then show ?thesis using ordered_sort_by mset_sort_by by blast
  next
    case False
    let ?k = "length xs div 2"
    let ?l = "take ?k xs" and ?r = "drop ?k xs"
    have k: "?k < length xs" "length xs - ?k < length xs" "length ?l = ?k" "length ?r = length xs - ?k" using False less.prems(1) by auto
    have "h ! b = pre @ ?l @ (?r @ post)" using less.prems(3) by simp
    from less.hyps[OF _ less.prems(1,2) this] obtain ys where
      ys: "ParallelSort_thread cmp grainsize (Some (b, length pre)) ?k h = Some (Inr (h[b := pre @ ys @ ?r @ post]))" "mset ys = mset ?l" "ordered ys"
      using k by auto
    have len: "length ys = ?k" using mset_eq_length[OF ys(2)] k(3) by simp
    let ?h1 = "h[b := pre @ ys @ ?r @ post]"
    have "b < length ?h1" "?h1 ! b = (pre @ ys) @ ?r @ post" using less.prems(2) by simp_all
    from less.hyps[OF _ less.prems(1) this] obtain zs where
      zs: "ParallelSort_thread cmp grainsize (Some (b, length pre + ?k)) (length xs - ?k) ?h1 = Some (Inr (?h1[b := (pre @ ys) @ zs @ post]))"
        "mset zs = mset ?r" "ordered zs"
      using k len by auto
    have lz: "length zs = length xs - ?k" using mset_eq_length[OF zs(2)] k(4) by simp
    let ?h2 = "h[b := pre @ ys @ zs @ post]"
    have m: "inplace_merge cmp ?h2 (Some (b, length pre)) ?k (length xs) = Inr (h[b := pre @ merge_by cmp ys zs @ post])"
    proof -
      have b2: "b < length ?h2" "?h2 ! b = pre @ ys @ (zs @ post)" "?h2 ! b = (pre @ ys) @ zs @ post" "?h2 ! b = pre @ (ys @ zs) @ post"
        using less.prems(2) by simp_all
      have k2: "length xs = ?k + (length xs - ?k)" by simp
      show ?thesis using mread_part[OF b2(1,2)] mread_part[OF b2(1,3)] mwrite_part[OF b2(1,4), of "merge_by cmp ys zs"] len lz k2
        by (simp add: inplace_merge_def padd_def)
    qed
    have "ParallelSort_thread cmp grainsize (Some (b, length pre)) (length xs) h = Some (Inr (h[b := pre @ merge_by cmp ys zs @ post]))"
      using False ys(1) zs(1) m by (subst ParallelSort_thread.simps) (simp add: padd_def)
    moreover have "mset (merge_by cmp ys zs) = mset xs" using ys(2) zs(2) by (simp flip: mset_append)
    ultimately show ?thesis using ordered_merge_by[OF ys(3) zs(3)] by blast
  qed
qed

end

interpretation less: weak_order "\<lambda>x y :: 'a :: linorder. x < y"
  by unfold_locales auto

lemma sort_by_less: "sort_by (\<lambda>x y. x < y) xs = sort xs"
  using less.ordered_sort_by[of xs] by (intro properties_for_sort[symmetric]) (simp_all add: not_less sorted_wrt_iff_nth_less)

section \<open>Properties\<close>



end
