(* ===== verification/Spec2Isabelle.thy ===== *)
theory Spec2Isabelle
  imports Ps_KVEnd Ps_Wire Ps_QuicProps Ps_IbvProps Ps_ZmqProps Ps_Parallel
begin

text \<open>
  A verification library for \<^verbatim>\<open>ps-lite\<close>, a parameter server: worker nodes push and pull key-value
  pairs to and from server nodes, one scheduler node sets the system up.

  \<^bold>\<open>The program and its parts.\<close>  A process has one \<^verbatim>\<open>Postoffice\<close>, which knows the groups of nodes, the key
  ranges of the servers and the customers of the process, and one \<^verbatim>\<open>Van\<close>, which exchanges messages with other
  nodes.  A \<^verbatim>\<open>Customer\<close> counts the responses to its requests and handles received messages in a thread of its own.  The
  applications \<^verbatim>\<open>SimpleApp\<close>, \<^verbatim>\<open>KVWorker\<close> and \<^verbatim>\<open>KVServer\<close> sit on a customer: a worker cuts a
  request into one message per server (the slicer), the van carries the messages, the server's
  customer hands them to the request handle, and the responses come back the same way.  \<^verbatim>\<open>Van\<close> is
  abstract: the QUIC, ibverbs, ZeroMQ and P3 vans implement \<^verbatim>\<open>SendMsg\<close>, \<^verbatim>\<open>RecvMsg\<close>, \<^verbatim>\<open>Connect\<close> and \<^verbatim>\<open>Bind\<close>.

  \<^bold>\<open>Conventions.\<close>  A failed \<^verbatim>\<open>CHECK\<close>, an access out of bounds, a null pointer and a call that does not
  return are values of \<open>ps_error\<close>, and operations that can fail give an \<open>'a res\<close>.  Unordered maps are association
  lists with distinct keys (\<open>um\<close>), shared memory is a list of blocks, keys and signatures are 64-bit words.  A
  class is a record with one definition per method; threads are step functions, and a blocking call is
  split at its wait.  Third-party libraries are records of functions over a state of their own
  (\<open>Pico\<close>, \<open>Verbs\<close>, \<open>Rdma\<close>, \<open>Zmq\<close>, the functions \<open>ser\<close> and \<open>parse\<close> for protobuf); what the properties rely on is a locale of
  laws, and an interpretation on a concrete library shows that the laws can hold.

  \<^bold>\<open>Theories\<close>, from the bottom up, with the sources they model and what they show:

  \<^item> \<open>Ps_Prelude\<close>: machine types, errors as values, unordered maps, binary search, decimal text, bytes.
  \<^item> \<open>Ps_SArray\<close> (\<^verbatim>\<open>include/ps/sarray.h\<close>, \<^verbatim>\<open>range.h\<close>): shared arrays over an explicit memory.  Pushing builds the list;
    pushing to a segment never changes another array; \<^verbatim>\<open>FindRange\<close> is exact; bytes round-trip.
  \<^item> \<open>Ps_Parallel\<close> (\<^verbatim>\<open>internal/parallel_sort.h\<close>): the parallel sort equals one sort and always returns.
  \<^item> \<open>Ps_Message\<close> (\<^verbatim>\<open>internal/message.h\<close>, \<^verbatim>\<open>base.h\<close>): messages and their debug strings.
  \<^item> \<open>Ps_Queue\<close> (\<^verbatim>\<open>internal/threadsafe_*.h\<close>): the three message queues, the heap of \<^verbatim>\<open>std::priority_queue\<close> included; delivery
    orders, and a race between two consumers.
  \<^item> \<open>Ps_Env\<close> (\<^verbatim>\<open>internal/env.h\<close>, \<^verbatim>\<open>utils.h\<close>): settings.
  \<^item> \<open>Ps_Postoffice\<close> (\<^verbatim>\<open>src/postoffice.cc\<close>, \<^verbatim>\<open>internal/postoffice.h\<close>): node groups, key ranges, barriers, customers, heartbeats.  Invariants of
    all reachable offices; the ranges partition the keys; ids and ranks; who is released from a barrier.
  \<^item> \<open>Ps_Customer\<close> (\<^verbatim>\<open>src/customer.cc\<close>): request tracking and the receiving thread; when a request is complete, and what
    the destructor drops.
  \<^item> \<open>Ps_SimpleApp\<close> (\<^verbatim>\<open>include/ps/simple_app.h\<close>): requests with an int head and a string body, and their answers.
  \<^item> \<open>Ps_KVSlicer\<close>, \<open>Ps_KVApp\<close>, \<open>Ps_KVEnd\<close> (\<^verbatim>\<open>include/ps/kv_app.h\<close>): the slicer, worker and server, and both ends
    together: a pull returns the stored values in key order and a push adds to them, in any order of the answers.
  \<^item> \<open>Ps_Wire\<close> (\<^verbatim>\<open>Van::PackMeta\<close>, \<^verbatim>\<open>Van::UnpackMeta\<close>, \<^verbatim>\<open>src/meta.proto\<close>): the round trip of message headers.
  \<^item> \<open>Ps_Resender\<close> (\<^verbatim>\<open>src/resender.h\<close>): acknowledgements and retries; exactly-once delivery over a lossy link as an
    invariant of a step relation, and where the keys of messages collide.
  \<^item> \<open>Ps_NetUtils\<close> (\<^verbatim>\<open>src/network_utils.h\<close>): the choice of interface and port.
  \<^item> \<open>Ps_Van\<close> (\<^verbatim>\<open>src/van.cc\<close>): start-up, registration, heartbeats, barriers, dispatch and shutdown over any transport.
  \<^item> \<open>Ps_VanStart\<close>, \<open>Ps_Barrier\<close>: the protocols over a working transport, the locale \<open>van_transport\<close>: registration
    of all nodes, and a round of a barrier.
  \<^item> \<open>Ps_QuicVan\<close>, \<open>Ps_QuicSession\<close>, \<open>Ps_QuicIdeal\<close>, \<open>Ps_QuicProps\<close> (\<^verbatim>\<open>src/quic_van.cc\<close>): the QUIC van, which is a
    \<open>van_transport\<close> over a working library; start-up, barriers and sends complete, messages round-trip, and two schedules in which
    the loops hang or messages mix.
  \<^item> \<open>Ps_Mempool\<close>, \<open>Ps_AddressPool\<close>, \<open>Ps_IbvVan\<close>, \<open>Ps_IbvProps\<close> (\<^verbatim>\<open>src/ibverbs_van.h\<close>): the memory pool, the table of
    pointers and the rendezvous protocol of the ibverbs van, up to the delivery of a message.
  \<^item> \<open>Ps_ZmqVan\<close>, \<open>Ps_ZmqProps\<close> (\<^verbatim>\<open>src/zmq_van.h\<close>, \<^verbatim>\<open>src/p3_van.h\<close>): the ZeroMQ and P3 vans; messages round-trip
    however often calls are interrupted, but no worker or server gets through \<^verbatim>\<open>Van::Start\<close>.

  \<^bold>\<open>Bounds and termination.\<close>  No loop has fuel.  Loops over data are structural recursions; \<^verbatim>\<open>GetCustomer\<close> polls
  as often as its timeout says; loops that wait for a library, and the parallel sort, are partial functions in which
  not returning is \<open>None\<close>, and their properties state that they return \<open>Some\<close> result.  The number of nodes is below
  \<open>2 ^ 29\<close> in the start-up property, so that node ids stay below \<^verbatim>\<open>kEmpty\<close>.  Timestamps, byte counters and stream numbers are
  unbounded integers.

  \<^bold>\<open>Not modelled.\<close>  \<^verbatim>\<open>assign_op.h\<close> and \<^verbatim>\<open>parallel_kv_match.h\<close>: nothing includes them and no instance of their
  templates compiles, since they use undeclared names, so they have no meaning to translate.  \<^verbatim>\<open>dmlc/base.h\<close>, \<^verbatim>\<open>dmlc/logging.h\<close>,
  \<^verbatim>\<open>windows/unistd.h\<close> and the Windows branches of \<^verbatim>\<open>network_utils.h\<close>: macros, log lines and code for another system.
  \<^verbatim>\<open>ps.h\<close>: forwarding functions of one line.  Of the QUIC van: the creation of the library's contexts and the closing of its socket in
  \<^verbatim>\<open>Start\<close> and \<^verbatim>\<open>Stop\<close>, which only call the library; the file of round-trip times; \<^verbatim>\<open>QUICCnxRcv\<close>, which nothing
  calls.  Of the ibverbs van: \<^verbatim>\<open>Start\<close>, \<^verbatim>\<open>Stop\<close>, \<^verbatim>\<open>Disconnect\<close> and the destructor of an endpoint, which create and release
  objects of the library and of the system.  The code of \<^verbatim>\<open>Van\<close> that is commented out.  Reference counts: memory is never
  given back in the model.  \<^verbatim>\<open>3rdparty/\<close>, \<^verbatim>\<open>tracker/\<close> and \<^verbatim>\<open>tests/\<close>.
\<close>

end
